(* ===== verification/Prelude.thy ===== *)
theory Prelude
  imports "HOL-Library.Word"
begin

text \<open>
  Shared vocabulary of the development: the machine integer types, the result type in which
  every failing C++ operation is a value, the fixed size array accesses, and the circular
  doubly linked lists that both order books build out of raw pointers.
\<close>

section \<open>Machine integers\<close>

type_synonym u8 = "8 word"
type_synonym u32 = "32 word"
type_synonym u64 = "64 word"

named_theorems res_simps \<open>rewriting computations in the result type\<close>
named_theorems ring_intros \<open>building circular lists\<close>

section \<open>Failures as values\<close>

text \<open>
  What stops the program or leaves it without a defined behaviour. \<open>Assert_failed\<close> and
  \<open>Fatal_exit\<close> are the two helpers of common/macros.h, which print and call \<open>exit\<close>.
  \<open>Out_of_range\<close> is \<open>std::array::at\<close> throwing inside a \<open>noexcept\<close> function, which
  terminates the process. \<open>Out_of_bounds\<close>, \<open>Null_deref\<close>, \<open>Wild_pointer\<close>,
  \<open>Wrong_union_member\<close> and \<open>Signed_overflow\<close> are undefined behaviour. \<open>Bad_function_call\<close> is calling an empty
  \<open>std::function\<close>, which throws. \<open>Diverges\<close> is a call that never returns.
\<close>

datatype fault =
    Assert_failed string
  | Fatal_exit string
  | Out_of_range
  | Out_of_bounds
  | Null_deref
  | Wild_pointer
  | Wrong_union_member
  | Signed_overflow
  | Bad_function_call
  | Diverges

type_synonym 'a res = "fault + 'a"

text \<open>A pointer into a pool is the index of its block; \<open>None\<close> is \<open>nullptr\<close>.\<close>

type_synonym ptr = "nat option"

definition bindR :: "'a res \<Rightarrow> ('a \<Rightarrow> 'b res) \<Rightarrow> 'b res" where
  "bindR m f = (case m of Inl e \<Rightarrow> Inl e | Inr x \<Rightarrow> f x)"

definition ASSERT :: "bool \<Rightarrow> string \<Rightarrow> 'a res \<Rightarrow> 'a res" where
  "ASSERT cond msg k = (if \<not> cond then Inl (Assert_failed msg) else k)"

definition FATAL :: "string \<Rightarrow> 'a res" where
  "FATAL msg = Inl (Fatal_exit msg)"

definition deref :: "ptr \<Rightarrow> nat res" where
  "deref p = (case p of None \<Rightarrow> Inl Null_deref | Some i \<Rightarrow> Inr i)"

text \<open>\<open>std::array<T, n>::at(i)\<close>, reading and writing.\<close>

definition arr_at :: "nat \<Rightarrow> (nat \<Rightarrow> 'a) \<Rightarrow> nat \<Rightarrow> 'a res" where
  "arr_at n a i = (if i < n then Inr (a i) else Inl Out_of_range)"

definition arr_put :: "nat \<Rightarrow> (nat \<Rightarrow> 'a) \<Rightarrow> nat \<Rightarrow> 'a \<Rightarrow> (nat \<Rightarrow> 'a) res" where
  "arr_put n a i v = (if i < n then Inr (a(i := v)) else Inl Out_of_range)"

text \<open>\<open>std::array<T, n>::operator[]\<close>: no check, so an index past the end is undefined.\<close>

definition arr_idx :: "nat \<Rightarrow> (nat \<Rightarrow> 'a) \<Rightarrow> nat \<Rightarrow> 'a res" where
  "arr_idx n a i = (if i < n then Inr (a i) else Inl Out_of_bounds)"

text \<open>A loop of the source that may run for ever is an optional result; not returning is a fault.\<close>

definition run_loop :: "'a res option \<Rightarrow> 'a res" where
  "run_loop r = (case r of None \<Rightarrow> Inl Diverges | Some x \<Rightarrow> x)"

lemma bindR_Inr [simp, res_simps]: "bindR (Inr x) f = f x"
  and bindR_Inl [simp, res_simps]: "bindR (Inl e) f = Inl e"
  by (simp_all add: bindR_def)

lemma bindR_unit [simp]: "bindR m Inr = m"
  by (cases m) auto

lemma bindR_cong [fundef_cong]:
  "m = m' \<Longrightarrow> (\<And>x. m' = Inr x \<Longrightarrow> f x = g x) \<Longrightarrow> bindR m f = bindR m' g"
  by (cases m') auto

lemma bindR_eq_Inr: "bindR m f = Inr y \<longleftrightarrow> (\<exists>x. m = Inr x \<and> f x = Inr y)"
  by (cases m) auto

lemma bindR_assoc: "bindR (bindR m f) g = bindR m (\<lambda>x. bindR (f x) g)"
  by (cases m) auto

lemma ASSERT_True [simp, res_simps]: "c \<Longrightarrow> ASSERT c m k = k"
  and ASSERT_False [simp, res_simps]: "\<not> c \<Longrightarrow> ASSERT c m k = Inl (Assert_failed m)"
  by (simp_all add: ASSERT_def)

lemma ASSERT_eq_Inr: "ASSERT c m k = Inr y \<longleftrightarrow> c \<and> k = Inr y"
  by (simp add: ASSERT_def)

lemma bindR_FATAL [simp, res_simps]: "bindR (FATAL m) f = FATAL m"
  by (simp add: FATAL_def)

lemma FATAL_not_Inr [simp]: "FATAL m \<noteq> Inr y"
  by (simp add: FATAL_def)

lemma deref_Some [simp, res_simps]: "deref (Some i) = Inr i"
  and deref_None [simp, res_simps]: "deref None = Inl Null_deref"
  by (simp_all add: deref_def)

lemma deref_eq_Inr: "deref p = Inr i \<longleftrightarrow> p = Some i"
  by (cases p) auto

lemma arr_at_ok [simp, res_simps]: "i < n \<Longrightarrow> arr_at n a i = Inr (a i)"
  and arr_at_bad [simp, res_simps]: "n \<le> i \<Longrightarrow> arr_at n a i = Inl Out_of_range"
  by (simp_all add: arr_at_def)

lemma arr_put_ok [simp, res_simps]: "i < n \<Longrightarrow> arr_put n a i v = Inr (a(i := v))"
  and arr_put_bad [simp, res_simps]: "n \<le> i \<Longrightarrow> arr_put n a i v = Inl Out_of_range"
  by (simp_all add: arr_put_def)

lemma arr_idx_ok [simp, res_simps]: "i < n \<Longrightarrow> arr_idx n a i = Inr (a i)"
  and arr_idx_bad [simp, res_simps]: "n \<le> i \<Longrightarrow> arr_idx n a i = Inl Out_of_bounds"
  by (simp_all add: arr_idx_def)

lemma run_loop_simps [simp, res_simps]:
  "run_loop None = Inl Diverges" "run_loop (Some r) = r"
  by (simp_all add: run_loop_def)

lemmas res_eq_Inr = bindR_eq_Inr ASSERT_eq_Inr deref_eq_Inr

text \<open>Running one operation per element of a list, stopping at the first fault.\<close>

fun foldR :: "('a \<Rightarrow> 's \<Rightarrow> 's res) \<Rightarrow> 'a list \<Rightarrow> 's \<Rightarrow> 's res" where
  "foldR f [] s = Inr s"
| "foldR f (x # xs) s = bindR (f x s) (foldR f xs)"

lemma foldR_append: "foldR f (xs @ ys) s = bindR (foldR f xs s) (foldR f ys)"
proof (induction xs arbitrary: s)
  case (Cons x xs)
  then show ?case by (cases "f x s") auto
qed simp

text \<open>An invariant kept by every step is kept by the run.\<close>

lemma foldR_invariant:
  assumes "\<And>x s s'. x \<in> set xs \<Longrightarrow> I s \<Longrightarrow> f x s = Inr s' \<Longrightarrow> I s'"
    and "I s" and "foldR f xs s = Inr s'"
  shows "I s'"
  using assms
proof (induction xs arbitrary: s)
  case Nil
  then show ?case by simp
next
  case (Cons x xs)
  from Cons.prems(3) obtain t where t: "f x s = Inr t" and run: "foldR f xs t = Inr s'"
    by (auto simp: bindR_eq_Inr)
  have "I t" using Cons.prems(1)[of x s t] Cons.prems(2) t by simp
  moreover have "\<And>x s s'. x \<in> set xs \<Longrightarrow> I s \<Longrightarrow> f x s = Inr s' \<Longrightarrow> I s'"
    using Cons.prems(1) by (meson list.set_intros(2))
  ultimately show ?case using run by (intro Cons.IH)
qed

lemma sorted_wrt_last: "sorted_wrt R xs \<Longrightarrow> q \<in> set xs \<Longrightarrow> q = last xs \<or> R q (last xs)"
  by (induction xs) (auto split: if_splits)

lemma filter_neq_middle:
  assumes "distinct (xs @ p # ys)"
  shows "filter (\<lambda>q. q \<noteq> p) (xs @ p # ys) = xs @ ys"
proof -
  have "filter (\<lambda>q. q \<noteq> p) xs = xs" and "filter (\<lambda>q. q \<noteq> p) ys = ys"
    using assms by (auto intro: filter_True)
  then show ?thesis by simp
qed

section \<open>Loops that may run for ever\<close>

text \<open>
  A \<open>while\<close> loop whose end no measure guarantees: its body says whether the loop is left with a
  result or goes round again. A loop that is never left is the fault \<open>Diverges\<close>.
\<close>

datatype ('s, 'r) flow = Return "'r res" | Continue 's

partial_function (option) loop :: "('s \<Rightarrow> ('s, 'r) flow) \<Rightarrow> 's \<Rightarrow> 'r res option" where
  "loop body s = (case body s of Return r \<Rightarrow> Some r | Continue s' \<Rightarrow> loop body s')"

definition loopR :: "('s \<Rightarrow> ('s, 'r) flow) \<Rightarrow> 's \<Rightarrow> 'r res" where
  "loopR body s = run_loop (loop body s)"

lemma loopR_unfold:
  "loopR body s = (case body s of Return r \<Rightarrow> r | Continue s' \<Rightarrow> loopR body s')"
  by (cases "body s") (simp_all add: loopR_def loop.simps [of body s])

lemma loopR_Return [res_simps]: "body s = Return r \<Longrightarrow> loopR body s = r"
  and loopR_Continue [res_simps]: "body s = Continue s' \<Longrightarrow> loopR body s = loopR body s'"
  by (simp_all add: loopR_unfold [of body s])

text \<open>A state from which the body always goes round again is never left.\<close>

lemma loopR_diverges:
  assumes step: "\<And>s. I s \<Longrightarrow> \<exists>s'. body s = Continue s' \<and> I s'" and init: "I s"
  shows "loopR body s = Inl Diverges"
proof -
  have "loop body s = None"
  proof (rule ccontr)
    assume "loop body s \<noteq> None"
    then obtain r where r: "loop body s = Some r" by blast
    have "body = body \<and> I s \<longrightarrow> False"
    proof (rule loop.raw_induct [where P = "\<lambda>c s r. c = body \<and> I s \<longrightarrow> False", OF _ r])
      fix f :: "('a \<Rightarrow> ('a, 'b) flow) \<Rightarrow> 'a \<Rightarrow> 'b res option" and c s r
      assume IH: "\<And>c s r. f c s = Some r \<Longrightarrow> c = body \<and> I s \<longrightarrow> False"
        and eq: "(case c s of Return r \<Rightarrow> Some r | Continue s' \<Rightarrow> f c s') = Some r"
      show "c = body \<and> I s \<longrightarrow> False"
        using step [of s] IH eq by fastforce
    qed
    then show False using init by simp
  qed
  then show ?thesis by (simp add: loopR_def)
qed

text \<open>A body that decreases a measure whenever it goes round is left, with what it returns.\<close>

lemma loopR_rule:
  assumes "\<And>s. I s \<Longrightarrow> (case body s of Return r \<Rightarrow> Q r | Continue s' \<Rightarrow> I s' \<and> m s' < (m s :: nat))"
    and "I s"
  shows "Q (loopR body s)"
  using assms(2)
proof (induction "m s" arbitrary: s rule: less_induct)
  case less
  then show ?case
    using assms(1) [OF less.prems] by (cases "body s") (auto simp: loopR_Return loopR_Continue)
qed

section \<open>Circular doubly linked lists\<close>

text \<open>
  \<open>links n p [a, b, c]\<close>: \<open>b\<close> follows \<open>a\<close> and \<open>c\<close> follows \<open>b\<close>, each pair linked in both
  directions. \<open>cring n p xs\<close>: the nodes \<open>xs\<close>, in this order, close into a circle.
\<close>

fun links :: "(nat \<Rightarrow> ptr) \<Rightarrow> (nat \<Rightarrow> ptr) \<Rightarrow> nat list \<Rightarrow> bool" where
  "links n p (a # b # xs) \<longleftrightarrow> n a = Some b \<and> p b = Some a \<and> links n p (b # xs)"
| "links n p xs \<longleftrightarrow> True"

definition cring :: "(nat \<Rightarrow> ptr) \<Rightarrow> (nat \<Rightarrow> ptr) \<Rightarrow> nat list \<Rightarrow> bool" where
  "cring n p xs \<longleftrightarrow> xs \<noteq> [] \<and> links n p (xs @ [hd xs])"

lemma links_append:
  "links n p (xs @ a # ys) \<longleftrightarrow> links n p (xs @ [a]) \<and> links n p (a # ys)"
proof (induction xs)
  case Nil
  then show ?case by simp
next
  case (Cons x xs)
  then show ?case by (cases xs) auto
qed

lemma links_snoc2:
  "links n p (xs @ [a, b]) \<longleftrightarrow> links n p (xs @ [a]) \<and> n a = Some b \<and> p b = Some a"
  using links_append [of n p xs a "[b]"] by simp

lemma links_cong:
  "(\<And>x. x \<in> set (butlast xs) \<Longrightarrow> n' x = n x) \<Longrightarrow> (\<And>x. x \<in> set (tl xs) \<Longrightarrow> p' x = p x) \<Longrightarrow>
   links n' p' xs = links n p xs"
  by (induction n p xs rule: links.induct) auto

lemma cring_cong:
  assumes "\<And>x. x \<in> set xs \<Longrightarrow> n' x = n x" and "\<And>x. x \<in> set xs \<Longrightarrow> p' x = p x"
  shows "cring n' p' xs = cring n p xs"
proof (cases xs)
  case Nil
  then show ?thesis by (simp add: cring_def)
next
  case (Cons a ys)
  then have "links n' p' (xs @ [hd xs]) = links n p (xs @ [hd xs])"
    using assms by (intro links_cong) (auto simp: butlast_append)
  then show ?thesis by (simp add: cring_def)
qed

lemma cring_single [simp, ring_intros]: "cring n p [a] \<longleftrightarrow> n a = Some a \<and> p a = Some a"
  by (simp add: cring_def)

lemma cring_not_Nil [simp]: "\<not> cring n p []"
  by (simp add: cring_def)

text \<open>The node before the head is the last one, and after the last comes the head.\<close>

lemma cring_hd_prev: "cring n p xs \<Longrightarrow> p (hd xs) = Some (last xs)"
proof (cases xs rule: rev_cases)
  case (snoc ys l)
  assume "cring n p xs"
  with snoc have "links n p (ys @ [l, hd xs])" by (simp add: cring_def)
  then show ?thesis using snoc by (simp add: links_snoc2)
qed simp

lemma cring_last_next: "cring n p xs \<Longrightarrow> n (last xs) = Some (hd xs)"
proof (cases xs rule: rev_cases)
  case (snoc ys l)
  assume "cring n p xs"
  with snoc have "links n p (ys @ [l, hd xs])" by (simp add: cring_def)
  then show ?thesis using snoc by (simp add: links_snoc2)
qed simp

text \<open>The four pointer writes that append a new node in front of the head, that is, at the end.\<close>

lemma cring_append:
  assumes "cring n p xs" and "distinct xs" and "a \<notin> set xs"
  shows "cring (n(last xs := Some a, a := Some (hd xs)))
               (p(a := Some (last xs), hd xs := Some a)) (xs @ [a])"
    (is "cring ?n ?p _")
proof -
  obtain h ys where xs: "xs = h # ys"
    using assms(1) by (cases xs) auto
  obtain zs l where zs: "xs = zs @ [l]"
    using xs by (metis list.distinct(1) rev_exhaust)
  have tl: "tl (zs @ [l]) = ys" using zs xs by (metis list.sel(3))
  have hd: "hd xs = h" by (simp add: xs)
  have last: "last xs = l" by (simp add: zs)
  have mem: "h \<in> set xs" "l \<in> set xs" by (simp add: xs, unfold zs, simp)
  have old: "links n p (zs @ [l])"
    using assms(1) zs by (simp add: cring_def links_snoc2)
  have "links ?n ?p (zs @ [l]) = links n p (zs @ [l])"
  proof (rule links_cong)
    fix x assume "x \<in> set (butlast (zs @ [l]))"
    then show "?n x = n x" using assms(2,3) zs by auto
  next
    fix x assume x: "x \<in> set (tl (zs @ [l]))"
    then have "x \<in> set ys" by (simp only: tl)
    then show "?p x = p x" using assms(2,3) xs by auto
  qed
  with old have zl: "links ?n ?p (zs @ [l])" by simp
  have ptrs: "?n l = Some a" "?p a = Some l" "?n a = Some h" "?p h = Some a"
    using mem assms(3) by (auto simp: hd last)
  have "links ?n ?p (zs @ [l, a])"
    by (rule links_snoc2 [THEN iffD2]) (intro conjI zl ptrs)
  then have "links ?n ?p ((zs @ [l]) @ [a])" unfolding append_assoc append.simps .
  then have "links ?n ?p ((zs @ [l]) @ [a, h])"
    by (rule links_snoc2 [THEN iffD2, OF conjI]) (intro conjI ptrs)
  then have "links ?n ?p (xs @ [a, h])" unfolding zs [symmetric] .
  then show ?thesis using xs by (simp add: cring_def)
qed

text \<open>Rotating a circle gives the same circle.\<close>

lemma cring_rotate: "cring n p (xs @ ys) \<longleftrightarrow> cring n p (ys @ xs)"
proof (cases "xs = [] \<or> ys = []")
  case True
  then show ?thesis by auto
next
  case False
  then obtain x xs' y ys' where xs: "xs = x # xs'" and ys: "ys = y # ys'"
    by (meson list.exhaust)
  have "cring n p (xs @ ys) \<longleftrightarrow> links n p (xs @ y # ys' @ [x])"
    by (simp add: cring_def xs ys)
  also have "\<dots> \<longleftrightarrow> links n p (xs @ [y]) \<and> links n p (ys @ [x])"
    using links_append [of n p xs y "ys' @ [x]"] by (simp add: ys)
  also have "\<dots> \<longleftrightarrow> links n p (ys @ x # xs' @ [y])"
    using links_append [of n p ys x "xs' @ [y]"] by (auto simp: xs)
  also have "\<dots> \<longleftrightarrow> cring n p (ys @ xs)"
    by (simp add: cring_def xs ys)
  finally show ?thesis .
qed

text \<open>Unlinking a node: its neighbours are linked to each other.\<close>

lemma cring_unlink_hd:
  assumes "cring n p (a # xs)" and "distinct (a # xs)" and "xs \<noteq> []"
  shows "p a = Some (last xs)" and "n a = Some (hd xs)"
    and "cring (n(last xs := Some (hd xs))) (p(hd xs := Some (last xs))) xs"
proof -
  show "p a = Some (last xs)" using cring_hd_prev [OF assms(1)] assms(3) by simp
  obtain h ys where xs: "xs = h # ys" using assms(3) by (cases xs) auto
  obtain zs l where zs: "xs = zs @ [l]" using assms(3) by (metis rev_exhaust)
  have tl: "tl (zs @ [l]) = ys" using zs xs by (metis list.sel(3))
  have hd: "hd xs = h" by (simp add: xs)
  have last: "last xs = l" by (simp add: zs)
  have mem: "h \<in> set xs" "l \<in> set xs" by (simp add: xs, unfold zs, simp)
  have lk: "links n p (a # xs @ [a])" using assms(1) by (simp add: cring_def)
  then show "n a = Some (hd xs)" by (simp add: xs)
  have inner: "links n p (zs @ [l])"
    using lk zs xs links_snoc2 [of n p zs l a] by (cases "zs @ [l] @ [a]") auto
  let ?n = "n(l := Some h)" and ?p = "p(h := Some l)"
  have "links ?n ?p (zs @ [l]) = links n p (zs @ [l])"
  proof (rule links_cong)
    fix x assume "x \<in> set (butlast (zs @ [l]))"
    then show "?n x = n x" using assms(2) zs by auto
  next
    fix x assume "x \<in> set (tl (zs @ [l]))"
    then have "x \<in> set ys" by (simp only: tl)
    then show "?p x = p x" using assms(2) xs by auto
  qed
  with inner have "links ?n ?p (zs @ [l, h])" by (simp add: links_snoc2)
  then have "links ?n ?p (xs @ [h])" by (simp add: zs)
  then show "cring (n(last xs := Some (hd xs))) (p(hd xs := Some (last xs))) xs"
    unfolding hd last using assms(3) by (simp add: cring_def hd)
qed

lemma cring_unlink:
  assumes ring: "cring n p (xs @ a # ys)" and dist: "distinct (xs @ a # ys)"
    and ne: "xs @ ys \<noteq> []"
  obtains l r where "p a = Some l" and "n a = Some r" and "l \<in> set (xs @ ys)"
    and "r \<in> set (xs @ ys)" and "cring (n(l := Some r)) (p(r := Some l)) (xs @ ys)"
    and "xs = [] \<Longrightarrow> r = hd ys"
proof -
  let ?zs = "ys @ xs"
  have "cring n p (a # ?zs)"
    using ring cring_rotate [of n p xs "a # ys"] by simp
  moreover have "distinct (a # ?zs)" and "?zs \<noteq> []" using dist ne by auto
  ultimately have "p a = Some (last ?zs)" "n a = Some (hd ?zs)"
    and "cring (n(last ?zs := Some (hd ?zs))) (p(hd ?zs := Some (last ?zs))) ?zs"
    using cring_unlink_hd by blast+
  moreover have "last ?zs \<in> set ?zs" and "hd ?zs \<in> set ?zs"
    using \<open>?zs \<noteq> []\<close> by (rule last_in_set, rule hd_in_set)
  ultimately show thesis
    using that cring_rotate [of _ _ xs ys] by auto
qed

lemma cring_self_loop:
  assumes "cring n p (xs @ a # ys)" and "distinct (xs @ a # ys)"
  shows "p a = Some a \<longleftrightarrow> xs @ ys = []"
proof
  assume "xs @ ys = []"
  then show "p a = Some a" using assms(1) by simp
next
  assume self: "p a = Some a"
  show "xs @ ys = []"
  proof (rule ccontr)
    assume ne: "xs @ ys \<noteq> []"
    from cring_unlink [OF assms ne] obtain l where "p a = Some l" "l \<in> set (xs @ ys)"
      by metis
    then show False using self assms(2) by auto
  qed
qed

end
