(* ===== verification/CommonTypes.thy ===== *)
theory CommonTypes
  imports Prelude
begin

text \<open>
  common/common_types.h and common/constraints.h: the identifier and quantity types with their
  \<open>INVALID\<close> sentinels, the \<open>Side\<close> enumeration with its array index, the size limits of the
  exchange, and the functions that print them.
\<close>

section \<open>Limits\<close>

definition ME_MAX_TICKERS :: nat where "ME_MAX_TICKERS = 8"
definition ME_MAX_CLIENT_UPDATES :: nat where "ME_MAX_CLIENT_UPDATES = 256 * 1024"
definition ME_MAX_MARKET_UPDATES :: nat where "ME_MAX_MARKET_UPDATES = 256 * 1024"
definition ME_MAX_NUM_CLIENTS :: nat where "ME_MAX_NUM_CLIENTS = 256"
definition ME_MAX_ORDER_IDS :: nat where "ME_MAX_ORDER_IDS = 1024 * 1024"
definition ME_MAX_PRICE_LEVELS :: nat where "ME_MAX_PRICE_LEVELS = 256"

lemmas limit_defs = ME_MAX_TICKERS_def ME_MAX_CLIENT_UPDATES_def ME_MAX_MARKET_UPDATES_def
  ME_MAX_NUM_CLIENTS_def ME_MAX_ORDER_IDS_def ME_MAX_PRICE_LEVELS_def

lemma limits_pos [simp]:
  "0 < ME_MAX_TICKERS" "0 < ME_MAX_NUM_CLIENTS" "0 < ME_MAX_ORDER_IDS" "0 < ME_MAX_PRICE_LEVELS"
  "0 < ME_MAX_CLIENT_UPDATES" "0 < ME_MAX_MARKET_UPDATES"
  by (simp_all add: limit_defs)

section \<open>Identifiers\<close>

type_synonym OrderId = u64
type_synonym TickerId = u32
type_synonym ClientId = u32
type_synonym Price = u64
type_synonym Qty = u32
type_synonym Priority = u64

definition OrderId_INVALID :: OrderId where "OrderId_INVALID = - 1"
definition TickerId_INVALID :: TickerId where "TickerId_INVALID = - 1"
definition ClientId_INVALID :: ClientId where "ClientId_INVALID = - 1"
definition Price_INVALID :: Price where "Price_INVALID = - 1"
definition Qty_INVALID :: Qty where "Qty_INVALID = - 1"
definition Priority_INVALID :: Priority where "Priority_INVALID = - 1"

lemmas invalid_defs = OrderId_INVALID_def TickerId_INVALID_def ClientId_INVALID_def
  Price_INVALID_def Qty_INVALID_def Priority_INVALID_def

section \<open>Sides\<close>

text \<open>
  \<open>enum class Side : int8_t\<close>. A scoped enumeration with a fixed underlying type can hold every
  value of that type, and the code fills it from received bytes, so the bytes that name no
  enumerator are kept as \<open>Side_other\<close>.
\<close>

datatype Side = Side_INVALID | BUY | SELL | Side_MAX | Side_other u8

fun side_byte :: "Side \<Rightarrow> u8" where
  "side_byte Side_INVALID = 0"
| "side_byte BUY = 1"
| "side_byte SELL = - 1"
| "side_byte Side_MAX = 2"
| "side_byte (Side_other b) = b"

definition side_of_byte :: "u8 \<Rightarrow> Side" where
  "side_of_byte b = (if b = 0 then Side_INVALID else if b = 1 then BUY
     else if b = - 1 then SELL else if b = 2 then Side_MAX else Side_other b)"

definition sideToValue :: "Side \<Rightarrow> int" where
  "sideToValue side = sint (side_byte side)"

text \<open>\<open>static_cast<size_t>(side) + 1\<close>: the sign is extended to 64 bits and the sum wraps.\<close>

definition sideToIndex :: "Side \<Rightarrow> nat" where
  "sideToIndex side = unat (word_of_int (sideToValue side) + 1 :: u64)"

definition side_canonical :: "Side \<Rightarrow> bool" where
  "side_canonical side \<longleftrightarrow> side_of_byte (side_byte side) = side"

lemma side_byte_of_byte [simp]: "side_byte (side_of_byte b) = b"
  by (simp add: side_of_byte_def)

lemma side_canonical_of_byte [simp]: "side_canonical (side_of_byte b)"
  by (simp add: side_canonical_def)

lemma side_canonical_enumerators [simp]:
  "side_canonical Side_INVALID" "side_canonical BUY" "side_canonical SELL"
  "side_canonical Side_MAX"
  by (simp_all add: side_canonical_def side_of_byte_def)

lemma sideToValue_simps [simp]:
  "sideToValue Side_INVALID = 0" "sideToValue BUY = 1" "sideToValue SELL = - 1"
  "sideToValue Side_MAX = 2"
  by (simp_all add: sideToValue_def)

lemma sideToIndex_simps [simp]:
  "sideToIndex Side_INVALID = 1" "sideToIndex BUY = 2" "sideToIndex SELL = 0"
  "sideToIndex Side_MAX = 3"
  by (simp_all add: sideToIndex_def)

section \<open>Time\<close>

text \<open>\<open>common/time_utils.h\<close>: a reading of the clock and the factors between its units.\<close>

type_synonym Nanos = int

definition NANOS_TO_MICROS :: Nanos where "NANOS_TO_MICROS = 1000"
definition MICROS_TO_MILLIS :: Nanos where "MICROS_TO_MILLIS = 1000"
definition MILLIS_TO_SECS :: Nanos where "MILLIS_TO_SECS = 1000"
definition NANOS_TO_MILLIS :: Nanos where "NANOS_TO_MILLIS = NANOS_TO_MICROS * MICROS_TO_MILLIS"
definition NANOS_TO_SECS :: Nanos where "NANOS_TO_SECS = NANOS_TO_MILLIS * MILLIS_TO_SECS"

section \<open>Printing\<close>

text \<open>\<open>std::to_string\<close> of an unsigned integer.\<close>

definition digit_char :: "nat \<Rightarrow> char" where
  "digit_char d = char_of (48 + d)"

fun nat_to_string :: "nat \<Rightarrow> string" where
  "nat_to_string n =
     (if n < 10 then [digit_char n] else nat_to_string (n div 10) @ [digit_char (n mod 10)])"

declare nat_to_string.simps [simp del]

definition to_string :: "'a::len word \<Rightarrow> string" where
  "to_string w = nat_to_string (unat w)"

text \<open>How a stream prints a signed integer.\<close>

definition int_to_string :: "int \<Rightarrow> string" where
  "int_to_string x = (if x < 0 then ''-'' @ nat_to_string (nat (- x)) else nat_to_string (nat x))"

definition INVALID_str :: string where "INVALID_str = ''INVALID''"

definition orderIdToString :: "OrderId \<Rightarrow> string" where
  "orderIdToString orderId = (if orderId = OrderId_INVALID then INVALID_str else to_string orderId)"

definition tickerIdToString :: "TickerId \<Rightarrow> string" where
  "tickerIdToString tickerId =
     (if tickerId = TickerId_INVALID then INVALID_str else to_string tickerId)"

definition clientIdToString :: "ClientId \<Rightarrow> string" where
  "clientIdToString clientId =
     (if clientId = ClientId_INVALID then INVALID_str else to_string clientId)"

definition priceToString :: "Price \<Rightarrow> string" where
  "priceToString price = (if price = Price_INVALID then INVALID_str else to_string price)"

definition qtyToString :: "Qty \<Rightarrow> string" where
  "qtyToString qty = (if qty = Qty_INVALID then INVALID_str else to_string qty)"

definition priorityToString :: "Priority \<Rightarrow> string" where
  "priorityToString priority =
     (if priority = Priority_INVALID then INVALID_str else to_string priority)"

fun sideToString :: "Side \<Rightarrow> string" where
  "sideToString Side_INVALID = INVALID_str"
| "sideToString BUY = ''BUY''"
| "sideToString SELL = ''SELL''"
| "sideToString _ = ''UNKNOWN''"

lemmas toString_defs = orderIdToString_def tickerIdToString_def clientIdToString_def
  priceToString_def qtyToString_def priorityToString_def INVALID_str_def to_string_def

text \<open>Reading a printed number back, to state that printing loses nothing.\<close>

definition string_to_nat :: "string \<Rightarrow> nat" where
  "string_to_nat s = foldl (\<lambda>n c. 10 * n + (of_char c - 48)) 0 s"

lemma digit_char_simps [simp]:
  "digit_char 0 = CHR ''0''" "digit_char 1 = CHR ''1''" "digit_char (Suc 0) = CHR ''1''"
  "digit_char 2 = CHR ''2''" "digit_char 3 = CHR ''3''" "digit_char 4 = CHR ''4''"
  "digit_char 5 = CHR ''5''" "digit_char 6 = CHR ''6''" "digit_char 7 = CHR ''7''"
  "digit_char 8 = CHR ''8''" "digit_char 9 = CHR ''9''"
  by code_simp+

lemma of_digit_char: "d < 10 \<Longrightarrow> of_char (digit_char d) = 48 + d"
  by (simp add: digit_char_def)

lemma string_to_nat_to_string [simp]: "string_to_nat (nat_to_string n) = n"
proof (induction n rule: nat_to_string.induct)
  case (1 n)
  show ?case
  proof (cases "n < 10")
    case True
    then show ?thesis
      by (subst nat_to_string.simps) (simp add: string_to_nat_def of_digit_char)
  next
    case False
    then have "string_to_nat (nat_to_string (n div 10)) = n div 10" by (rule "1.IH")
    then show ?thesis using False
      by (subst nat_to_string.simps) (simp add: string_to_nat_def of_digit_char)
  qed
qed

lemma nat_to_string_digits: "c \<in> set (nat_to_string n) \<Longrightarrow> \<exists>d<10. c = digit_char d"
proof (induction n rule: nat_to_string.induct)
  case (1 n)
  show ?case
  proof (cases "n < 10")
    case True
    then show ?thesis using "1.prems" by (auto simp: nat_to_string.simps [of n])
  next
    case False
    then consider "c \<in> set (nat_to_string (n div 10))" | "c = digit_char (n mod 10)"
      using "1.prems" by (auto simp: nat_to_string.simps [of n])
    then show ?thesis
    proof cases
      case 1
      then show ?thesis using "1.IH" False by blast
    next
      case 2
      then show ?thesis by (intro exI [of _ "n mod 10"]) simp
    qed
  qed
qed

lemma nat_to_string_not_INVALID: "nat_to_string n \<noteq> ''INVALID''"
proof
  assume "nat_to_string n = ''INVALID''"
  then have "CHR ''I'' \<in> set (nat_to_string n)" by simp
  then obtain d where d: "d < 10" "CHR ''I'' = digit_char d"
    using nat_to_string_digits by blast
  then have "of_char (CHR ''I'') = 48 + d" by (simp add: of_digit_char)
  then show False using d(1) by simp
qed

lemma nat_to_string_inj: "nat_to_string m = nat_to_string n \<Longrightarrow> m = n"
  by (metis string_to_nat_to_string)

lemma to_string_inj: "to_string v = to_string w \<Longrightarrow> v = w"
  unfolding to_string_def by (drule nat_to_string_inj) (simp add: word_unat_eq_iff)

lemma to_string_not_INVALID: "to_string w \<noteq> INVALID_str"
  by (simp add: to_string_def INVALID_str_def nat_to_string_not_INVALID)

text \<open>
  Printed order ids are unambiguous: two order ids print the same text only if they are the
  same id, and the sentinel is the only one that prints \<open>INVALID\<close>.
\<close>

theorem orderIdToString_inj:
  "(orderIdToString x = orderIdToString y) = (x = y) \<and>
   (orderIdToString x = INVALID_str) = (x = OrderId_INVALID)"
  using to_string_inj [of x y] to_string_not_INVALID [of x] to_string_not_INVALID [of y]
  by (auto simp: orderIdToString_def)

end
