(* ===== verification/MemPool.thy ===== *)
theory MemPool
  imports Prelude
begin

text \<open>
  common/mem_pool.h: the block allocator behind every order and price level. A pool is its
  vector of blocks (a function with the vector's size beside it), each block an object and its
  \<open>is_free\<close> flag, and the index the next allocation takes. Pointers to objects are block
  indices, and a freed block keeps its contents, as in the code.
\<close>

record 'a ObjectBlock =
  object :: 'a
  is_free :: bool

record 'a MemPool =
  store :: "nat \<Rightarrow> 'a ObjectBlock"
  pool_size :: nat
  next_free_index :: nat

definition MemPool_ctor :: "nat \<Rightarrow> 'a \<Rightarrow> 'a MemPool" where
  "MemPool_ctor num_elems T =
     \<lparr>store = (\<lambda>_. \<lparr>object = T, is_free = True\<rparr>), pool_size = num_elems, next_free_index = 0\<rparr>"

text \<open>
  The search loop of \<open>updateNextFreeIndex\<close>. At the end of the vector the code writes
  \<open>next_free_index == 0\<close>, a comparison whose value is dropped, so the index stays at the
  vector's size and the loop condition then reads one block past the end.
\<close>

function nextFree_loop :: "'a MemPool \<Rightarrow> nat \<Rightarrow> nat \<Rightarrow> nat res" where
  "nextFree_loop p init cur =
     (if cur < pool_size p then
        if is_free (store p cur) then Inr cur
        else ASSERT (init \<noteq> Suc cur) ''Memory Pool out of space'' (nextFree_loop p init (Suc cur))
      else Inl Out_of_bounds)"
  by pat_completeness auto
termination
  by (relation "measure (\<lambda>(p, init, cur). pool_size p - cur)") auto

declare nextFree_loop.simps [simp del]

definition updateNextFreeIndex :: "'a MemPool \<Rightarrow> 'a MemPool res" where
  "updateNextFreeIndex p =
     bindR (nextFree_loop p (next_free_index p) (next_free_index p))
       (\<lambda>i. Inr (p\<lparr>next_free_index := i\<rparr>))"

definition allocate :: "'a MemPool \<Rightarrow> 'a \<Rightarrow> ('a MemPool \<times> nat) res" where
  "allocate p x =
     bindR (arr_idx (pool_size p) (store p) (next_free_index p)) (\<lambda>obj_block.
       ASSERT (is_free obj_block) ''Expected free ObjectBlock at index:''
         (let i = next_free_index p;
              p' = p\<lparr>store := (store p)(i := \<lparr>object = x, is_free = False\<rparr>)\<rparr>
          in bindR (updateNextFreeIndex p') (\<lambda>p''. Inr (p'', i))))"

definition deallocate :: "'a MemPool \<Rightarrow> nat \<Rightarrow> 'a MemPool res" where
  "deallocate p i =
     ASSERT (i < pool_size p) ''Element being deallocated does not belong to this Memory pool.''
       (ASSERT (\<not> is_free (store p i)) ''Expected in-use ObjectBlock at index:''
          (Inr (p\<lparr>store := (store p)(i := (store p i)\<lparr>is_free := True\<rparr>)\<rparr>)))"

text \<open>Reading and writing an object through its pointer.\<close>

definition pool_get :: "'a MemPool \<Rightarrow> nat \<Rightarrow> 'a" where
  "pool_get p i = object (store p i)"

definition pool_put :: "'a MemPool \<Rightarrow> nat \<Rightarrow> 'a \<Rightarrow> 'a MemPool" where
  "pool_put p i x = p\<lparr>store := (store p)(i := (store p i)\<lparr>object := x\<rparr>)\<rparr>"

definition pool_live :: "'a MemPool \<Rightarrow> nat \<Rightarrow> bool" where
  "pool_live p i \<longleftrightarrow> i < pool_size p \<and> \<not> is_free (store p i)"

text \<open>Every block from the next index on is free.\<close>

definition pool_inv :: "'a MemPool \<Rightarrow> bool" where
  "pool_inv p \<longleftrightarrow> next_free_index p < pool_size p \<and>
     (\<forall>i. next_free_index p \<le> i \<longrightarrow> is_free (store p i))"

definition pool_alloc :: "'a MemPool \<Rightarrow> 'a \<Rightarrow> 'a MemPool" where
  "pool_alloc p x = p\<lparr>store := (store p)(next_free_index p := \<lparr>object = x, is_free = False\<rparr>),
     next_free_index := Suc (next_free_index p)\<rparr>"

definition pool_free :: "'a MemPool \<Rightarrow> nat \<Rightarrow> 'a MemPool" where
  "pool_free p i = p\<lparr>store := (store p)(i := (store p i)\<lparr>is_free := True\<rparr>)\<rparr>"

section \<open>What the operations do\<close>

lemma updateNextFreeIndex_taken:
  assumes "\<not> is_free (store p (next_free_index p))" and "next_free_index p < pool_size p"
    and "\<And>i. next_free_index p < i \<Longrightarrow> is_free (store p i)"
  shows "updateNextFreeIndex p =
    (if Suc (next_free_index p) < pool_size p
     then Inr (p\<lparr>next_free_index := Suc (next_free_index p)\<rparr>) else Inl Out_of_bounds)"
  using assms by (simp add: updateNextFreeIndex_def nextFree_loop.simps)

lemma allocate_eq:
  assumes "pool_inv p"
  shows "allocate p x =
    (if Suc (next_free_index p) < pool_size p
     then Inr (pool_alloc p x, next_free_index p) else Inl Out_of_bounds)"
proof -
  let ?p = "p\<lparr>store := (store p)(next_free_index p := \<lparr>object = x, is_free = False\<rparr>)\<rparr>"
  have "updateNextFreeIndex ?p = (if Suc (next_free_index ?p) < pool_size ?p
     then Inr (?p\<lparr>next_free_index := Suc (next_free_index ?p)\<rparr>) else Inl Out_of_bounds)"
    using assms by (intro updateNextFreeIndex_taken) (auto simp: pool_inv_def)
  then show ?thesis
    using assms by (simp add: allocate_def pool_inv_def Let_def pool_alloc_def)
qed

lemma deallocate_eq: "pool_live p i \<Longrightarrow> deallocate p i = Inr (pool_free p i)"
  by (simp add: deallocate_def pool_live_def pool_free_def)

lemma deallocate_eq_Inr: "deallocate p i = Inr p' \<longleftrightarrow> pool_live p i \<and> p' = pool_free p i"
  by (auto simp: deallocate_def pool_live_def pool_free_def ASSERT_eq_Inr)

lemma allocate_eq_Inr:
  "pool_inv p \<Longrightarrow> allocate p x = Inr (p', i) \<longleftrightarrow>
     Suc (next_free_index p) < pool_size p \<and> p' = pool_alloc p x \<and> i = next_free_index p"
  by (auto simp: allocate_eq)

lemma pool_inv_ctor [simp]: "pool_inv (MemPool_ctor n T) \<longleftrightarrow> 0 < n"
  by (auto simp: pool_inv_def MemPool_ctor_def)

lemma pool_inv_alloc:
  "pool_inv p \<Longrightarrow> Suc (next_free_index p) < pool_size p \<Longrightarrow> pool_inv (pool_alloc p x)"
  by (simp add: pool_inv_def pool_alloc_def)

lemma pool_inv_free: "pool_inv p \<Longrightarrow> pool_inv (pool_free p i)"
  by (simp add: pool_inv_def pool_free_def)

lemma pool_inv_put [simp]: "pool_inv (pool_put p i x) = pool_inv p"
  by (auto simp: pool_inv_def pool_put_def)

lemma pool_get_put [simp]: "pool_get (pool_put p i x) j = (if j = i then x else pool_get p j)"
  and pool_get_free [simp]: "pool_get (pool_free p i) j = pool_get p j"
  and pool_get_alloc [simp]:
    "pool_get (pool_alloc p x) j = (if j = next_free_index p then x else pool_get p j)"
  by (simp_all add: pool_get_def pool_put_def pool_free_def pool_alloc_def)

lemma pool_live_put [simp]: "pool_live (pool_put p i x) j = pool_live p j"
  and pool_live_free [simp]: "pool_live (pool_free p i) j = (pool_live p j \<and> j \<noteq> i)"
  and pool_live_alloc: "next_free_index p < pool_size p \<Longrightarrow>
    pool_live (pool_alloc p x) j = (pool_live p j \<or> j = next_free_index p)"
  by (auto simp: pool_live_def pool_put_def pool_free_def pool_alloc_def)

lemma pool_live_ctor [simp]: "\<not> pool_live (MemPool_ctor n T) i"
  by (simp add: pool_live_def MemPool_ctor_def)

lemma pool_size_simps [simp]:
  "pool_size (MemPool_ctor n T) = n" "pool_size (pool_put p i x) = pool_size p"
  "pool_size (pool_free p i) = pool_size p" "pool_size (pool_alloc p x) = pool_size p"
  by (simp_all add: MemPool_ctor_def pool_put_def pool_free_def pool_alloc_def)

lemma next_free_simps [simp]:
  "next_free_index (MemPool_ctor n T) = 0"
  "next_free_index (pool_put p i x) = next_free_index p"
  "next_free_index (pool_free p i) = next_free_index p"
  "next_free_index (pool_alloc p x) = Suc (next_free_index p)"
  by (simp_all add: MemPool_ctor_def pool_put_def pool_free_def pool_alloc_def)

lemma pool_live_less: "pool_inv p \<Longrightarrow> pool_live p i \<Longrightarrow> i < next_free_index p"
  by (rule ccontr) (simp add: pool_inv_def pool_live_def)

lemma pool_next_not_live: "pool_inv p \<Longrightarrow> \<not> pool_live p (next_free_index p)"
  by (simp add: pool_inv_def pool_live_def)

section \<open>The interface of an object pool\<close>

text \<open>
  What a client of the pool may rely on: an allocation returns a pointer that is not in use,
  leaves every object in use as it was, and a deallocation touches no other object.
\<close>

locale object_pool =
  fixes alloc :: "'p \<Rightarrow> 'a \<Rightarrow> ('p \<times> nat) res"
    and dealloc :: "'p \<Rightarrow> nat \<Rightarrow> 'p res"
    and get :: "'p \<Rightarrow> nat \<Rightarrow> 'a"
    and live :: "'p \<Rightarrow> nat \<Rightarrow> bool"
    and inv :: "'p \<Rightarrow> bool"
  assumes alloc_fresh: "inv p \<Longrightarrow> alloc p x = Inr (p', i) \<Longrightarrow> \<not> live p i"
    and alloc_live: "inv p \<Longrightarrow> alloc p x = Inr (p', i) \<Longrightarrow> live p' j = (live p j \<or> j = i)"
    and alloc_get: "inv p \<Longrightarrow> alloc p x = Inr (p', i) \<Longrightarrow>
      get p' j = (if j = i then x else get p j)"
    and alloc_inv: "inv p \<Longrightarrow> alloc p x = Inr (p', i) \<Longrightarrow> inv p'"
    and dealloc_live: "inv p \<Longrightarrow> dealloc p i = Inr p' \<Longrightarrow>
      live p i \<and> (\<forall>j. live p' j = (live p j \<and> j \<noteq> i))"
    and dealloc_get: "inv p \<Longrightarrow> dealloc p i = Inr p' \<Longrightarrow> get p' j = get p j"
    and dealloc_inv: "inv p \<Longrightarrow> dealloc p i = Inr p' \<Longrightarrow> inv p'"
begin

text \<open>An object in use survives any allocation unchanged and at its own address.\<close>

lemma alloc_preserves:
  assumes "inv p" and "alloc p x = Inr (p', i)" and "live p j"
  shows "live p' j \<and> get p' j = get p j \<and> j \<noteq> i"
proof -
  have "j \<noteq> i" using alloc_fresh [OF assms(1,2)] assms(3) by metis
  then show ?thesis
    using alloc_live [OF assms(1,2)] alloc_get [OF assms(1,2)] assms(3) by simp
qed

text \<open>Freeing twice is refused.\<close>

lemma no_double_free:
  assumes "inv p" and "dealloc p i = Inr p'"
  shows "\<exists>e. dealloc p' i = Inl e"
proof (cases "dealloc p' i")
  case (Inr p'')
  have "inv p'" using assms by (rule dealloc_inv)
  then have "live p' i" using dealloc_live Inr by blast
  moreover have "\<not> live p' i" using dealloc_live [OF assms] by simp
  ultimately show ?thesis by simp
qed auto

end

interpretation mempool: object_pool allocate deallocate pool_get pool_live pool_inv
proof
  fix p :: "'a MemPool" and x p' i j
  assume inv: "pool_inv p"
  show "allocate p x = Inr (p', i) \<Longrightarrow> \<not> pool_live p i"
    using inv by (auto simp: allocate_eq_Inr pool_next_not_live)
  show "allocate p x = Inr (p', i) \<Longrightarrow> pool_live p' j = (pool_live p j \<or> j = i)"
    using inv by (auto simp: allocate_eq_Inr pool_live_alloc)
  show "allocate p x = Inr (p', i) \<Longrightarrow> pool_get p' j = (if j = i then x else pool_get p j)"
    using inv by (auto simp: allocate_eq_Inr)
  show "allocate p x = Inr (p', i) \<Longrightarrow> pool_inv p'"
    using inv by (auto simp: allocate_eq_Inr pool_inv_alloc)
next
  fix p :: "'a MemPool" and p' i j
  assume inv: "pool_inv p"
  show "deallocate p i = Inr p' \<Longrightarrow> pool_live p i \<and> (\<forall>j. pool_live p' j = (pool_live p j \<and> j \<noteq> i))"
    by (auto simp: deallocate_eq_Inr)
  show "deallocate p i = Inr p' \<Longrightarrow> pool_get p' j = pool_get p j"
    by (auto simp: deallocate_eq_Inr)
  show "deallocate p i = Inr p' \<Longrightarrow> pool_inv p'"
    using inv by (auto simp: deallocate_eq_Inr pool_inv_free)
qed

section \<open>Runs of a pool\<close>

text \<open>A client's use of a pool: the pointers it was given are collected in order.\<close>

datatype 'a pool_op = Alloc 'a | Free nat

fun pool_step :: "'a pool_op \<Rightarrow> 'a MemPool \<times> nat list \<Rightarrow> ('a MemPool \<times> nat list) res" where
  "pool_step (Alloc x) (p, ps) = bindR (allocate p x) (\<lambda>(p', i). Inr (p', ps @ [i]))"
| "pool_step (Free i) (p, ps) = bindR (deallocate p i) (\<lambda>p'. Inr (p', ps))"

definition pool_run :: "nat \<Rightarrow> 'a \<Rightarrow> 'a pool_op list \<Rightarrow> ('a MemPool \<times> nat list) res" where
  "pool_run n T ops = foldR pool_step ops (MemPool_ctor n T, [])"

fun is_Alloc :: "'a pool_op \<Rightarrow> bool" where
  "is_Alloc (Alloc x) = True"
| "is_Alloc (Free i) = False"

definition allocs :: "'a pool_op list \<Rightarrow> nat" where
  "allocs ops = length (filter is_Alloc ops)"

lemma pool_step_Inr:
  assumes "pool_step op (p, ps) = Inr (p', ps')" and "pool_inv p"
    and "ps = [0..<next_free_index p]"
  shows "pool_inv p' \<and> ps' = [0..<next_free_index p'] \<and> pool_size p' = pool_size p \<and>
    next_free_index p' = next_free_index p + (if is_Alloc op then 1 else 0)"
  using assms
  by (cases op) (fastforce simp: bindR_eq_Inr allocate_eq_Inr deallocate_eq_Inr
      pool_inv_alloc pool_inv_free)+

lemma pool_run_from:
  assumes "foldR pool_step ops (p, ps) = Inr (p', ps')" and "pool_inv p"
    and "ps = [0..<next_free_index p]"
  shows "pool_inv p' \<and> ps' = [0..<next_free_index p'] \<and> pool_size p' = pool_size p \<and>
    next_free_index p' = next_free_index p + allocs ops"
  using assms
proof (induction ops arbitrary: p ps)
  case Nil
  then show ?case by (auto simp: allocs_def)
next
  case (Cons op ops)
  then obtain q qs where step: "pool_step op (p, ps) = Inr (q, qs)"
    and run: "foldR pool_step ops (q, qs) = Inr (p', ps')"
    by (auto simp: bindR_eq_Inr)
  note q = pool_step_Inr [OF step Cons.prems(2,3)]
  show ?case using Cons.IH [OF run] q by (auto simp: allocs_def)
qed

lemma pool_run_facts:
  assumes "pool_run n T ops = Inr (p, ps)" and "0 < n"
  shows "pool_inv p" and "ps = [0..<allocs ops]" and "pool_size p = n"
    and "next_free_index p = allocs ops"
  using pool_run_from [of ops "MemPool_ctor n T" "[]" p ps] assms by (auto simp: pool_run_def)

text \<open>
  C26. A pool never hands out the same block twice: in any run of allocations and deallocations
  that does not fail, the k-th allocation returns block k, whatever was freed in between, so
  pointers returned by different allocations never alias.
\<close>

theorem pool_never_reuses:
  assumes "pool_run n T ops = Inr (p, ps)" and "0 < n"
  shows "ps = [0..<allocs ops] \<and> distinct ps \<and> allocs ops < n"
  using pool_run_facts [OF assms] by (auto simp: pool_inv_def)

theorem pool_never_reuses_witness:
  "\<exists>p. pool_run 4 (0::int) [Alloc 7, Free 0, Alloc 8] = Inr (p, [0, 1]) \<and> distinct [0::nat, 1]"
proof -
  obtain p where run: "pool_run 4 (0::int) [Alloc 7, Free 0, Alloc 8] = Inr (p, [0, 1])"
    by (simp add: pool_run_def MemPool_ctor_def allocate_eq pool_inv_def pool_alloc_def
        deallocate_eq pool_live_def pool_free_def)
  then show ?thesis using pool_never_reuses [OF run] by auto
qed

text \<open>
  The capacity of a pool is spent for ever: after \<open>n - 1\<close> allocations the next one reads
  past the end of a pool of \<open>n\<close> blocks, even if every block has been freed, because the search
  for a free block does not return to the start of the vector.
\<close>

theorem pool_capacity_is_spent:
  assumes "pool_run n T ops = Inr (p, ps)" and "0 < n" and "allocs ops = n - 1"
  shows "allocate p x = Inl Out_of_bounds"
  using pool_run_facts [OF assms(1,2)] assms(2,3) by (simp add: allocate_eq)

theorem pool_capacity_is_spent_witness:
  "\<exists>p. pool_run 3 (0::int) [Alloc 7, Free 0, Alloc 8, Free 1] = Inr (p, [0, 1]) \<and>
       (\<forall>i. \<not> pool_live p i) \<and> allocate p 9 = Inl Out_of_bounds"
proof -
  let ?ops = "[Alloc 7, Free 0, Alloc 8, Free 1]"
  obtain p where run: "pool_run 3 (0::int) ?ops = Inr (p, [0, 1])" and free: "\<forall>i. \<not> pool_live p i"
    by (simp add: pool_run_def MemPool_ctor_def allocate_eq pool_inv_def pool_alloc_def
        deallocate_eq pool_live_def pool_free_def)
  have "allocate p 9 = Inl Out_of_bounds"
    by (rule pool_capacity_is_spent [OF run]) (simp_all add: allocs_def)
  then show ?thesis using run free by blast
qed

end
