(* ===== verification/MEOrder.thy ===== *)
theory MEOrder
  imports CommonTypes MemPool
begin

text \<open>
  exchange/matcher/me_order.h and me_order.cpp: an order resting in the exchange's book and a
  price level. Their pointers are indices into the book's pools, which the printing functions
  take as an argument where the code follows a pointer.
\<close>

record MEOrder =
  ord_tickerId :: TickerId
  ord_clientId :: ClientId
  ord_client_orderId :: OrderId
  ord_market_orderId :: OrderId
  ord_side :: Side
  ord_price :: Price
  ord_qty :: Qty
  ord_priority :: Priority
  ord_prev :: ptr
  ord_next :: ptr

definition MEOrder_default :: MEOrder where
  "MEOrder_default = \<lparr>ord_tickerId = TickerId_INVALID, ord_clientId = ClientId_INVALID,
     ord_client_orderId = OrderId_INVALID, ord_market_orderId = OrderId_INVALID,
     ord_side = Side_INVALID, ord_price = Price_INVALID, ord_qty = Qty_INVALID,
     ord_priority = Priority_INVALID, ord_prev = None, ord_next = None\<rparr>"

record MEOrderAtPriceLevel =
  lvl_side :: Side
  lvl_price :: Price
  lvl_first_order :: ptr
  lvl_prev :: ptr
  lvl_next :: ptr

definition MEOrderAtPriceLevel_default :: MEOrderAtPriceLevel where
  "MEOrderAtPriceLevel_default = \<lparr>lvl_side = Side_INVALID, lvl_price = Price_INVALID,
     lvl_first_order = None, lvl_prev = None, lvl_next = None\<rparr>"

text \<open>The market id of the order behind a pointer, \<open>OrderId_INVALID\<close> for \<open>nullptr\<close>.\<close>

definition linked_market_id :: "MEOrder MemPool \<Rightarrow> ptr \<Rightarrow> OrderId" where
  "linked_market_id orders p =
     (case p of None \<Rightarrow> OrderId_INVALID | Some i \<Rightarrow> ord_market_orderId (pool_get orders i))"

definition MEOrder_toString :: "MEOrder MemPool \<Rightarrow> MEOrder \<Rightarrow> string" where
  "MEOrder_toString orders ord =
     ''MEOrder ['' @
     ''tickerId:'' @ tickerIdToString (ord_tickerId ord) @
     ''clientId:'' @ clientIdToString (ord_clientId ord) @
     ''client oId:'' @ orderIdToString (ord_client_orderId ord) @
     ''market oId:'' @ orderIdToString (ord_market_orderId ord) @
     ''side:'' @ sideToString (ord_side ord) @
     ''price:'' @ priceToString (ord_price ord) @
     ''qty:'' @ qtyToString (ord_qty ord) @
     ''priority:'' @ priorityToString (ord_priority ord) @
     ''prev:'' @ orderIdToString (linked_market_id orders (ord_prev ord)) @
     ''next:'' @ orderIdToString (linked_market_id orders (ord_next ord)) @ '' ]''"

text \<open>
  The text after \<open>next lvl\<close> tests the next level but reads the previous one, so a level with a
  next and no previous level dereferences \<open>nullptr\<close>.
\<close>

definition MEOrderAtPriceLevel_toString ::
    "MEOrderAtPriceLevel MemPool \<Rightarrow> MEOrder MemPool \<Rightarrow> MEOrderAtPriceLevel \<Rightarrow> string res" where
  "MEOrderAtPriceLevel_toString levels orders lvl =
     bindR (case lvl_next lvl of None \<Rightarrow> Inr Price_INVALID
            | Some n \<Rightarrow> bindR (deref (lvl_prev lvl)) (\<lambda>p. Inr (lvl_price (pool_get levels p))))
       (\<lambda>next_text. Inr (''MEOrder ['' @
          ''side:'' @ sideToString (lvl_side lvl) @
          ''price:'' @ priceToString (lvl_price lvl) @
          ''first_order:'' @ (case lvl_first_order lvl of None \<Rightarrow> ''null''
             | Some f \<Rightarrow> MEOrder_toString orders (pool_get orders f)) @
          ''prev lvl:'' @ priceToString (case lvl_prev lvl of None \<Rightarrow> Price_INVALID
             | Some p \<Rightarrow> lvl_price (pool_get levels p)) @
          ''next lvl'' @ priceToString next_text @ '' ]''))"

end
