(* ===== verification/Messages.thy ===== *)
theory Messages
  imports CommonTypes
begin

text \<open>
  The messages of the exchange: client requests (exchange/order_server/client_request.h), client
  responses (client_response.h) and market updates (exchange/market_data/market_update.h), their
  type enumerations and their \<open>toString\<close> functions. The enumerations have a fixed 8 bit
  underlying type and are filled from received bytes, so each keeps the bytes that name no
  enumerator under an \<open>_other\<close> constructor.
\<close>

section \<open>Client requests\<close>

datatype ClientRequestType = Request_INVALID | Request_NEW | Request_CANCEL | Request_other u8

fun request_type_byte :: "ClientRequestType \<Rightarrow> u8" where
  "request_type_byte Request_INVALID = 0"
| "request_type_byte Request_NEW = 1"
| "request_type_byte Request_CANCEL = 2"
| "request_type_byte (Request_other b) = b"

definition request_type_of_byte :: "u8 \<Rightarrow> ClientRequestType" where
  "request_type_of_byte b = (if b = 0 then Request_INVALID else if b = 1 then Request_NEW
     else if b = 2 then Request_CANCEL else Request_other b)"

fun clientRequestTypeToString :: "ClientRequestType \<Rightarrow> string" where
  "clientRequestTypeToString Request_INVALID = ''INVALID''"
| "clientRequestTypeToString Request_NEW = ''NEW''"
| "clientRequestTypeToString Request_CANCEL = ''CANCEL''"
| "clientRequestTypeToString (Request_other b) = ''UNKNOWN''"

record MEClientRequest =
  rq_requestType :: ClientRequestType
  rq_clientId :: ClientId
  rq_tickerId :: TickerId
  rq_orderId :: OrderId
  rq_price :: Price
  rq_qty :: Qty
  rq_side :: Side

definition MEClientRequest_default :: MEClientRequest where
  "MEClientRequest_default = \<lparr>rq_requestType = Request_INVALID, rq_clientId = ClientId_INVALID,
     rq_tickerId = TickerId_INVALID, rq_orderId = OrderId_INVALID, rq_price = Price_INVALID,
     rq_qty = Qty_INVALID, rq_side = Side_INVALID\<rparr>"

definition MEClientRequest_toString :: "MEClientRequest \<Rightarrow> string" where
  "MEClientRequest_toString r =
     ''MEClientRequest'' @ '' ['' @
     ''type:'' @ clientRequestTypeToString (rq_requestType r) @
     '' client: '' @ clientIdToString (rq_clientId r) @
     '' ticker: '' @ tickerIdToString (rq_tickerId r) @
     '' oid: '' @ orderIdToString (rq_orderId r) @
     '' side: '' @ sideToString (rq_side r) @
     '' qty: '' @ qtyToString (rq_qty r) @
     '' price: '' @ priceToString (rq_price r) @ '']''"

record OMClientRequest =
  omrq_seq_num :: u64
  omrq_request :: MEClientRequest

definition OMClientRequest_toString :: "OMClientRequest \<Rightarrow> string" where
  "OMClientRequest_toString r = ''OMClientRequest: '' @ ''[ '' @ ''sequence number: '' @
     to_string (omrq_seq_num r) @ MEClientRequest_toString (omrq_request r) @ '']''"

section \<open>Client responses\<close>

datatype ClientResponseType = Response_INVALID | ACCEPTED | CANCELED | FILLED | PARTIAL_FILL
  | CANCEL_REJECTED | Response_other u8

fun response_type_byte :: "ClientResponseType \<Rightarrow> u8" where
  "response_type_byte Response_INVALID = 0"
| "response_type_byte ACCEPTED = 1"
| "response_type_byte CANCELED = 2"
| "response_type_byte FILLED = 3"
| "response_type_byte PARTIAL_FILL = 4"
| "response_type_byte CANCEL_REJECTED = 5"
| "response_type_byte (Response_other b) = b"

definition response_type_of_byte :: "u8 \<Rightarrow> ClientResponseType" where
  "response_type_of_byte b = (if b = 0 then Response_INVALID else if b = 1 then ACCEPTED
     else if b = 2 then CANCELED else if b = 3 then FILLED else if b = 4 then PARTIAL_FILL
     else if b = 5 then CANCEL_REJECTED else Response_other b)"

fun clientResponseTypeToString :: "ClientResponseType \<Rightarrow> string" where
  "clientResponseTypeToString ACCEPTED = ''ACCEPTED''"
| "clientResponseTypeToString CANCELED = ''CANCELED''"
| "clientResponseTypeToString FILLED = ''FILLED''"
| "clientResponseTypeToString PARTIAL_FILL = ''PARTIAL_FILL''"
| "clientResponseTypeToString CANCEL_REJECTED = ''CANCEL_REJECTED''"
| "clientResponseTypeToString Response_INVALID = ''INVALID''"
| "clientResponseTypeToString (Response_other b) = ''UNKNOWN''"

record MEClientResponse =
  rs_type :: ClientResponseType
  rs_clientId :: ClientId
  rs_tickerId :: TickerId
  rs_client_order_id :: OrderId
  rs_marker_order_id :: OrderId
  rs_side :: Side
  rs_price :: Price
  rs_exec_qty :: Qty
  rs_left_qty :: Qty

definition MEClientResponse_default :: MEClientResponse where
  "MEClientResponse_default = \<lparr>rs_type = Response_INVALID, rs_clientId = ClientId_INVALID,
     rs_tickerId = TickerId_INVALID, rs_client_order_id = OrderId_INVALID,
     rs_marker_order_id = OrderId_INVALID, rs_side = Side_INVALID, rs_price = Price_INVALID,
     rs_exec_qty = Qty_INVALID, rs_left_qty = Qty_INVALID\<rparr>"

definition MEClientResponse_toString :: "MEClientResponse \<Rightarrow> string" where
  "MEClientResponse_toString r =
     ''MEClientResponse'' @ '' ['' @
     ''type:'' @ clientResponseTypeToString (rs_type r) @
     '' client: '' @ clientIdToString (rs_clientId r) @
     '' ticker: '' @ tickerIdToString (rs_tickerId r) @
     '' client_oid: '' @ orderIdToString (rs_client_order_id r) @
     '' market_oid: '' @ orderIdToString (rs_marker_order_id r) @
     '' side: '' @ sideToString (rs_side r) @
     '' price: '' @ priceToString (rs_price r) @
     '' executed_qty: '' @ qtyToString (rs_exec_qty r) @
     '' left_qty: '' @ qtyToString (rs_left_qty r) @ '']''"

record OMClientResponse =
  omrs_seq_num :: u64
  omrs_response :: MEClientResponse

definition OMClientResponse_toString :: "OMClientResponse \<Rightarrow> string" where
  "OMClientResponse_toString r = ''OMClientResponse: '' @ ''[ '' @ ''sequence number: '' @
     to_string (omrs_seq_num r) @ MEClientResponse_toString (omrs_response r) @ '']''"

section \<open>Market updates\<close>

datatype MarketUpdateType = Update_INVALID | ADD | MODIFY | CANCEL | TRADE | CLEAR
  | SNAPSHOT_START | SNAPSHOT_END | Update_other u8

fun update_type_byte :: "MarketUpdateType \<Rightarrow> u8" where
  "update_type_byte Update_INVALID = 0"
| "update_type_byte ADD = 1"
| "update_type_byte MODIFY = 2"
| "update_type_byte CANCEL = 3"
| "update_type_byte TRADE = 4"
| "update_type_byte CLEAR = 5"
| "update_type_byte SNAPSHOT_START = 6"
| "update_type_byte SNAPSHOT_END = 7"
| "update_type_byte (Update_other b) = b"

definition update_type_of_byte :: "u8 \<Rightarrow> MarketUpdateType" where
  "update_type_of_byte b = (if b = 0 then Update_INVALID else if b = 1 then ADD
     else if b = 2 then MODIFY else if b = 3 then CANCEL else if b = 4 then TRADE
     else if b = 5 then CLEAR else if b = 6 then SNAPSHOT_START else if b = 7 then SNAPSHOT_END
     else Update_other b)"

text \<open>The switch has no case for \<open>CLEAR\<close> and the two snapshot markers.\<close>

fun marketUpdateTypeToString :: "MarketUpdateType \<Rightarrow> string" where
  "marketUpdateTypeToString ADD = ''ADD''"
| "marketUpdateTypeToString MODIFY = ''MODIFY''"
| "marketUpdateTypeToString CANCEL = ''CANCEL''"
| "marketUpdateTypeToString TRADE = ''TRADE''"
| "marketUpdateTypeToString Update_INVALID = ''INVALID''"
| "marketUpdateTypeToString _ = ''UNKNOWN''"

record MEMarketUpdate =
  mu_type :: MarketUpdateType
  mu_orderId :: OrderId
  mu_tickerId :: TickerId
  mu_side :: Side
  mu_price :: Price
  mu_qty :: Qty
  mu_priority :: Priority

definition MEMarketUpdate_default :: MEMarketUpdate where
  "MEMarketUpdate_default = \<lparr>mu_type = Update_INVALID, mu_orderId = OrderId_INVALID,
     mu_tickerId = TickerId_INVALID, mu_side = Side_INVALID, mu_price = Price_INVALID,
     mu_qty = Qty_INVALID, mu_priority = Priority_INVALID\<rparr>"

definition MEMarketUpdate_toString :: "MEMarketUpdate \<Rightarrow> string" where
  "MEMarketUpdate_toString u =
     ''MEMarketUpdate'' @ '' ['' @
     ''type:'' @ marketUpdateTypeToString (mu_type u) @
     '' oid:'' @ orderIdToString (mu_orderId u) @
     '' ticker:'' @ tickerIdToString (mu_tickerId u) @
     '' side:'' @ sideToString (mu_side u) @
     '' price:'' @ priceToString (mu_price u) @
     '' qty:'' @ qtyToString (mu_qty u) @
     '' priority:'' @ priorityToString (mu_priority u) @ '']''"

record MDPMarketUpdate =
  mdp_seq_num :: u64
  mdp_update :: MEMarketUpdate

definition MDPMarketUpdate_toString :: "MDPMarketUpdate \<Rightarrow> string" where
  "MDPMarketUpdate_toString u = ''MDPMarketUpdate: '' @ ''[ '' @ ''sequence number: '' @
     to_string (mdp_seq_num u) @ MEMarketUpdate_toString (mdp_update u) @ '']''"

section \<open>Bytes and enumerators\<close>

lemma type_byte_of_byte [simp]:
  "request_type_byte (request_type_of_byte b) = b"
  "response_type_byte (response_type_of_byte b) = b"
  "update_type_byte (update_type_of_byte b) = b"
  by (simp_all add: request_type_of_byte_def response_type_of_byte_def update_type_of_byte_def)

lemma type_of_byte_enumerators [simp]:
  "request_type_of_byte 0 = Request_INVALID" "request_type_of_byte 1 = Request_NEW"
  "request_type_of_byte 2 = Request_CANCEL"
  "response_type_of_byte 1 = ACCEPTED" "response_type_of_byte 2 = CANCELED"
  "update_type_of_byte 1 = ADD" "update_type_of_byte 3 = CANCEL"
  by (simp_all add: request_type_of_byte_def response_type_of_byte_def update_type_of_byte_def)

text \<open>A message a received byte sequence can hold: every enumeration byte is kept canonically.\<close>

definition request_canonical :: "MEClientRequest \<Rightarrow> bool" where
  "request_canonical r \<longleftrightarrow>
     request_type_of_byte (request_type_byte (rq_requestType r)) = rq_requestType r \<and>
     side_canonical (rq_side r)"

definition response_canonical :: "MEClientResponse \<Rightarrow> bool" where
  "response_canonical r \<longleftrightarrow> response_type_of_byte (response_type_byte (rs_type r)) = rs_type r \<and>
     side_canonical (rs_side r)"

definition update_canonical :: "MEMarketUpdate \<Rightarrow> bool" where
  "update_canonical u \<longleftrightarrow> update_type_of_byte (update_type_byte (mu_type u)) = mu_type u \<and>
     side_canonical (mu_side u)"

text \<open>
  The printed form of a market update is the one the repository's unit test expects, and the
  printed sequence wrapper contains it unchanged.
\<close>

theorem MEMarketUpdate_toString_example:
  "MEMarketUpdate_toString \<lparr>mu_type = ADD, mu_orderId = 1, mu_tickerId = 1, mu_side = BUY,
     mu_price = 1, mu_qty = 1, mu_priority = 1\<rparr> =
   ''MEMarketUpdate [type:ADD oid:1 ticker:1 side:BUY price:1 qty:1 priority:1]''"
  by (simp add: MEMarketUpdate_toString_def toString_defs invalid_defs nat_to_string.simps)

end
