(* ===== verification/LFQueue.thy ===== *)
theory LFQueue
  imports Prelude
begin

text \<open>
  common/lf_queue.h: the single producer, single consumer ring buffer that connects every pair
  of threads of the exchange. A queue is its vector (a function with the size beside it), the
  two indices and the element counter. The counter is a 64 bit word in the code, so its
  increment is written with the wrap-around.
\<close>

record 'a LFQueue =
  slots :: "nat \<Rightarrow> 'a"
  ring_size :: nat
  next_write_index :: nat
  next_read_index :: nat
  store_count :: nat

definition LFQueue_ctor :: "nat \<Rightarrow> 'a \<Rightarrow> 'a LFQueue" where
  "LFQueue_ctor num_elems T = \<lparr>slots = (\<lambda>_. T), ring_size = num_elems,
     next_write_index = 0, next_read_index = 0, store_count = 0\<rparr>"

text \<open>Writing through the pointer \<open>getNextToWriteTo\<close> returns.\<close>

definition writeNext :: "'a LFQueue \<Rightarrow> 'a \<Rightarrow> 'a LFQueue" where
  "writeNext q x = q\<lparr>slots := (slots q)(next_write_index q := x)\<rparr>"

definition updateNextToWriteTo :: "'a LFQueue \<Rightarrow> 'a LFQueue" where
  "updateNextToWriteTo q = q\<lparr>next_write_index := (next_write_index q + 1) mod ring_size q,
     store_count := (store_count q + 1) mod 2 ^ 64\<rparr>"

definition getNextToRead :: "'a LFQueue \<Rightarrow> 'a option" where
  "getNextToRead q = (if next_read_index q = next_write_index q then None
     else Some (slots q (next_read_index q)))"

definition updateReadIndex :: "'a LFQueue \<Rightarrow> 'a LFQueue res" where
  "updateReadIndex q =
     (let q1 = q\<lparr>next_read_index := (next_read_index q + 1) mod ring_size q\<rparr> in
      ASSERT (store_count q1 \<noteq> 0) ''Invalid store size:''
        (Inr (q1\<lparr>store_count := store_count q1 - 1\<rparr>)))"

definition lfq_size :: "'a LFQueue \<Rightarrow> nat" where
  "lfq_size q = store_count q"

text \<open>The three lines every producer of the code writes: take the slot, fill it, advance.\<close>

definition lfq_push :: "'a LFQueue \<Rightarrow> 'a \<Rightarrow> 'a LFQueue" where
  "lfq_push q x = updateNextToWriteTo (writeNext q x)"

definition lfq_push_all :: "'a LFQueue \<Rightarrow> 'a list \<Rightarrow> 'a LFQueue" where
  "lfq_push_all q xs = foldl lfq_push q xs"

text \<open>
  The loop every consumer of the code writes: while the queue holds an element, process it and
  advance the read index. It stops at the first fault of the body.
\<close>

function lfq_drain :: "('a \<Rightarrow> 's \<Rightarrow> 's res) \<Rightarrow> 'a LFQueue \<Rightarrow> 's \<Rightarrow> ('a LFQueue \<times> 's) res" where
  "lfq_drain body q s =
     (case getNextToRead q of
        None \<Rightarrow> Inr (q, s)
      | Some x \<Rightarrow>
          if lfq_size q = 0 then Inr (q, s)
          else bindR (body x s) (\<lambda>s'. bindR (updateReadIndex q) (\<lambda>q'. lfq_drain body q' s')))"
  by pat_completeness auto
termination
  by (relation "measure (\<lambda>(body, q, s). store_count q)")
     (auto simp: updateReadIndex_def Let_def ASSERT_eq_Inr lfq_size_def)

declare lfq_drain.simps [simp del]

text \<open>The same loop without the test of the counter, as the order gateway writes it.\<close>

function lfq_drain_unchecked :: "('a \<Rightarrow> 's \<Rightarrow> 's res) \<Rightarrow> 'a LFQueue \<Rightarrow> 's \<Rightarrow> ('a LFQueue \<times> 's) res" where
  "lfq_drain_unchecked body q s =
     (case getNextToRead q of
        None \<Rightarrow> Inr (q, s)
      | Some x \<Rightarrow>
          bindR (body x s) (\<lambda>s'. bindR (updateReadIndex q) (\<lambda>q'. lfq_drain_unchecked body q' s')))"
  by pat_completeness auto
termination
  by (relation "measure (\<lambda>(body, q, s). store_count q)")
     (auto simp: updateReadIndex_def Let_def ASSERT_eq_Inr)

declare lfq_drain_unchecked.simps [simp del]

section \<open>The queue as a list\<close>

definition lfq_list :: "'a LFQueue \<Rightarrow> 'a list" where
  "lfq_list q = map (\<lambda>k. slots q ((next_read_index q + k) mod ring_size q)) [0..<store_count q]"

text \<open>
  A usable queue keeps one slot empty: the code distinguishes an empty from a non-empty queue by
  the two indices alone.
\<close>

definition lfq_inv :: "'a LFQueue \<Rightarrow> bool" where
  "lfq_inv q \<longleftrightarrow> next_read_index q < ring_size q \<and> store_count q < ring_size q \<and>
     ring_size q < 2 ^ 64 \<and> next_write_index q = (next_read_index q + store_count q) mod ring_size q"

lemma length_lfq_list [simp]: "length (lfq_list q) = store_count q"
  by (simp add: lfq_list_def)

lemma lfq_inv_ctor [simp]: "0 < n \<Longrightarrow> n < 2 ^ 64 \<Longrightarrow> lfq_inv (LFQueue_ctor n T)"
  by (simp add: lfq_inv_def LFQueue_ctor_def)

lemma lfq_list_ctor [simp]: "lfq_list (LFQueue_ctor n T) = []"
  by (simp add: lfq_list_def LFQueue_ctor_def)

lemma lfq_ctor_fields [simp]: "store_count (LFQueue_ctor n T) = 0" "ring_size (LFQueue_ctor n T) = n"
  by (simp_all add: LFQueue_ctor_def)

lemma mod_add_cases: "r < n \<Longrightarrow> k < n \<Longrightarrow> (r + k) mod n = (if r + k < n then r + k else r + k - (n::nat))"
  by (simp add: mod_if)

lemma mod_add_neq: "k < n \<Longrightarrow> 0 < k \<Longrightarrow> r < n \<Longrightarrow> (r + k) mod n \<noteq> (r::nat)"
  by (auto simp: mod_add_cases split: if_splits)

lemma mod_add_inj:
  "(r + i) mod n = (r + j) mod n \<Longrightarrow> r < n \<Longrightarrow> i < n \<Longrightarrow> j < (n::nat) \<Longrightarrow> i = j"
  by (auto simp: mod_add_cases split: if_splits)

lemma next_read_eq_write: "lfq_inv q \<Longrightarrow> next_read_index q = next_write_index q \<longleftrightarrow> store_count q = 0"
  using mod_add_neq [of "store_count q" "ring_size q" "next_read_index q"]
  by (cases "store_count q = 0") (auto simp: lfq_inv_def)

lemma getNextToRead_list:
  "lfq_inv q \<Longrightarrow> getNextToRead q = (case lfq_list q of [] \<Rightarrow> None | x # _ \<Rightarrow> Some x)"
proof -
  assume inv: "lfq_inv q"
  show ?thesis
  proof (cases "store_count q")
    case 0
    then show ?thesis using next_read_eq_write [OF inv] by (simp add: getNextToRead_def lfq_list_def)
  next
    case (Suc n)
    then have "next_read_index q \<noteq> next_write_index q" using next_read_eq_write [OF inv] by simp
    moreover have "next_read_index q mod ring_size q = next_read_index q"
      using inv by (simp add: lfq_inv_def)
    ultimately show ?thesis
      by (simp add: getNextToRead_def lfq_list_def Suc upt_conv_Cons del: upt_Suc)
  qed
qed

text \<open>Pushing appends, as long as one slot stays empty.\<close>

lemma lfq_push_list:
  assumes "lfq_inv q" and "Suc (store_count q) < ring_size q"
  shows "lfq_list (lfq_push q x) = lfq_list q @ [x]" and "lfq_inv (lfq_push q x)"
    and "store_count (lfq_push q x) = Suc (store_count q)"
proof -
  let ?c = "store_count q" and ?n = "ring_size q" and ?r = "next_read_index q"
  have w: "next_write_index q = (?r + ?c) mod ?n" and r: "?r < ?n" and n: "?n < 2 ^ 64"
    using assms(1) by (auto simp: lfq_inv_def)
  have count: "(?c + 1) mod 2 ^ 64 = Suc ?c" using assms(2) n by simp
  then show c: "store_count (lfq_push q x) = Suc ?c"
    by (simp add: lfq_push_def updateNextToWriteTo_def writeNext_def)
  have other: "(?r + k) mod ?n \<noteq> (?r + ?c) mod ?n" if "k < ?c" for k
    using mod_add_inj [of ?r k ?n ?c] that r assms(2) by auto
  have "lfq_list (lfq_push q x) =
    map (\<lambda>k. if (?r + k) mod ?n = (?r + ?c) mod ?n then x else slots q ((?r + k) mod ?n)) [0..<Suc ?c]"
    unfolding lfq_list_def c by (simp add: lfq_push_def updateNextToWriteTo_def writeNext_def w)
  also have "\<dots> = lfq_list q @ [x]"
    using other by (auto simp: lfq_list_def)
  finally show "lfq_list (lfq_push q x) = lfq_list q @ [x]" .
  have "((?r + ?c) mod ?n + 1) mod ?n = (?r + Suc ?c) mod ?n" by (simp add: mod_simps)
  then show "lfq_inv (lfq_push q x)"
    using assms r n c
    by (simp add: lfq_inv_def lfq_push_def updateNextToWriteTo_def writeNext_def w)
qed

lemma lfq_push_ring_size [simp]: "ring_size (lfq_push q x) = ring_size q"
  by (simp add: lfq_push_def updateNextToWriteTo_def writeNext_def)

lemma lfq_push_all_ring_size [simp]: "ring_size (lfq_push_all q xs) = ring_size q"
  by (induction xs arbitrary: q) (auto simp: lfq_push_all_def)

lemma lfq_push_all_simps [simp]:
  "lfq_push_all q [] = q" "lfq_push_all q (x # xs) = lfq_push_all (lfq_push q x) xs"
  "lfq_push_all q (xs @ ys) = lfq_push_all (lfq_push_all q xs) ys"
  by (simp_all add: lfq_push_all_def)

lemma lfq_push_all_list:
  assumes "lfq_inv q" and "store_count q + length xs < ring_size q"
  shows "lfq_list (lfq_push_all q xs) = lfq_list q @ xs \<and> lfq_inv (lfq_push_all q xs) \<and>
    store_count (lfq_push_all q xs) = store_count q + length xs"
  using assms
proof (induction xs arbitrary: q)
  case (Cons x xs)
  then have "Suc (store_count q) < ring_size q" by simp
  note push = lfq_push_list [OF Cons.prems(1) this, of x]
  show ?case using Cons.IH [of "lfq_push q x"] Cons.prems push by simp
qed simp

text \<open>Reading removes the oldest element.\<close>

definition lfq_pop :: "'a LFQueue \<Rightarrow> 'a LFQueue" where
  "lfq_pop q = q\<lparr>next_read_index := (next_read_index q + 1) mod ring_size q,
     store_count := store_count q - 1\<rparr>"

lemma updateReadIndex_eq:
  "updateReadIndex q = (if store_count q \<noteq> 0 then Inr (lfq_pop q)
     else Inl (Assert_failed ''Invalid store size:''))"
  by (simp add: updateReadIndex_def lfq_pop_def ASSERT_def Let_def)

lemma lfq_pop_list:
  assumes "lfq_inv q" and "store_count q \<noteq> 0"
  shows "lfq_list (lfq_pop q) = tl (lfq_list q)" and "lfq_inv (lfq_pop q)"
proof -
  let ?c = "store_count q" and ?n = "ring_size q" and ?r = "next_read_index q"
  obtain m where m: "?c = Suc m" using assms(2) by (cases ?c) auto
  have shift: "((?r + 1) mod ?n + k) mod ?n = (?r + Suc k) mod ?n" for k
    by (simp add: mod_simps)
  have "tl (lfq_list q) = map (\<lambda>k. slots q ((?r + k) mod ?n)) [1..<Suc m]"
    by (simp add: lfq_list_def m upt_conv_Cons del: upt_Suc)
  also have "\<dots> = map (\<lambda>k. slots q ((?r + Suc k) mod ?n)) [0..<m]"
    unfolding One_nat_def map_Suc_upt [symmetric] by (simp add: comp_def)
  also have "\<dots> = lfq_list (lfq_pop q)"
    using shift by (simp add: lfq_list_def lfq_pop_def m)
  finally show "lfq_list (lfq_pop q) = tl (lfq_list q)" by simp
  show "lfq_inv (lfq_pop q)"
    using assms(1) m shift [of m] by (simp add: lfq_inv_def lfq_pop_def)
qed

section \<open>The interface of a bounded queue\<close>

locale bounded_queue =
  fixes push :: "'q \<Rightarrow> 'a \<Rightarrow> 'q"
    and peek :: "'q \<Rightarrow> 'a option"
    and pop :: "'q \<Rightarrow> 'q res"
    and contents :: "'q \<Rightarrow> 'a list"
    and room :: "'q \<Rightarrow> nat"
    and inv :: "'q \<Rightarrow> bool"
  assumes push_contents: "inv q \<Longrightarrow> 0 < room q \<Longrightarrow> contents (push q x) = contents q @ [x]"
    and push_inv: "inv q \<Longrightarrow> 0 < room q \<Longrightarrow> inv (push q x)"
    and push_room: "inv q \<Longrightarrow> 0 < room q \<Longrightarrow> Suc (room (push q x)) = room q"
    and peek_contents: "inv q \<Longrightarrow> peek q = (case contents q of [] \<Rightarrow> None | x # _ \<Rightarrow> Some x)"
    and pop_contents: "inv q \<Longrightarrow> contents q = x # xs \<Longrightarrow>
      \<exists>q'. pop q = Inr q' \<and> inv q' \<and> contents q' = xs \<and> room q' = Suc (room q)"
begin

text \<open>Pushing a list keeps what was there and appends the list in order.\<close>

lemma push_list:
  assumes "inv q" and "length xs \<le> room q"
  shows "inv (foldl push q xs) \<and> contents (foldl push q xs) = contents q @ xs"
  using assms
proof (induction xs arbitrary: q)
  case (Cons x xs)
  then have room: "0 < room q" by auto
  then have "length xs \<le> room (push q x)" using Cons.prems push_room [of q x] by simp
  then show ?case
    using Cons.IH [of "push q x"] Cons.prems room push_inv push_contents by simp
qed simp

lemma peek_after_push:
  assumes "inv q" and "0 < room q" and "contents q = []"
  shows "peek (push q x) = Some x"
  using assms by (simp add: peek_contents push_inv push_contents)

end

definition lfq_room :: "'a LFQueue \<Rightarrow> nat" where
  "lfq_room q = ring_size q - Suc (store_count q)"

interpretation lfq: bounded_queue lfq_push getNextToRead updateReadIndex lfq_list lfq_room lfq_inv
proof
  fix q :: "'a LFQueue" and x :: 'a and xs
  assume inv: "lfq_inv q"
  show "getNextToRead q = (case lfq_list q of [] \<Rightarrow> None | x # _ \<Rightarrow> Some x)"
    by (rule getNextToRead_list [OF inv])
  { assume "0 < lfq_room q"
    then have c: "Suc (store_count q) < ring_size q" by (simp add: lfq_room_def)
    note p = lfq_push_list [OF inv c]
    show "lfq_list (lfq_push q x) = lfq_list q @ [x]" and "lfq_inv (lfq_push q x)" by (rule p)+
    show "Suc (lfq_room (lfq_push q x)) = lfq_room q"
      using p(3) [of x] c by (simp add: lfq_room_def) }
  { assume c: "lfq_list q = x # xs"
    then have ne: "store_count q \<noteq> 0" using length_lfq_list [of q] by auto
    then show "\<exists>q'. updateReadIndex q = Inr q' \<and> lfq_inv q' \<and> lfq_list q' = xs \<and>
      lfq_room q' = Suc (lfq_room q)"
      using lfq_pop_list [OF inv ne] c inv
      by (auto simp: updateReadIndex_eq lfq_room_def lfq_pop_def lfq_inv_def) }
qed

text \<open>
  Nothing stops a producer from filling the last slot, and doing so loses everything: when a
  queue of \<open>n\<close> slots holds \<open>n - 1\<close> elements and one more is pushed, the write index meets the
  read index, so the consumer sees an empty queue although the counter says it holds \<open>n\<close>.
\<close>

theorem lfq_overflow_hides_all:
  assumes "lfq_inv q" and "Suc (store_count q) = ring_size q"
  shows "getNextToRead (lfq_push q x) = None \<and> lfq_size (lfq_push q x) = ring_size q"
proof -
  have w: "next_write_index q = (next_read_index q + store_count q) mod ring_size q"
    and r: "next_read_index q < ring_size q" and n: "ring_size q < 2 ^ 64"
    using assms(1) by (auto simp: lfq_inv_def)
  have "(next_write_index q + 1) mod ring_size q = (next_read_index q + Suc (store_count q)) mod ring_size q"
    by (simp add: w mod_simps)
  also have "\<dots> = next_read_index q" using assms(2) r by simp
  finally show ?thesis
    using assms(2) n
    by (simp add: getNextToRead_def lfq_push_def updateNextToWriteTo_def writeNext_def lfq_size_def)
qed

theorem lfq_overflow_hides_all_witness:
  "getNextToRead (lfq_push_all (LFQueue_ctor 2 (0::int)) [5, 6]) = None \<and>
   lfq_size (lfq_push_all (LFQueue_ctor 2 (0::int)) [5, 6]) = 2"
proof -
  let ?q = "lfq_push (LFQueue_ctor 2 (0::int)) 5"
  have "lfq_inv ?q" and "Suc (store_count ?q) = ring_size ?q"
    by (simp_all add: lfq_inv_def lfq_push_def updateNextToWriteTo_def writeNext_def LFQueue_ctor_def)
  from lfq_overflow_hides_all [OF this, of 6] show ?thesis
    by (simp add: LFQueue_ctor_def)
qed

section \<open>Draining\<close>

text \<open>After the consumer loop, the read index has caught up with the write index.\<close>

definition lfq_emptied :: "'a LFQueue \<Rightarrow> 'a LFQueue" where
  "lfq_emptied q = q\<lparr>next_read_index := next_write_index q, store_count := 0\<rparr>"

lemma lfq_emptied_facts [simp]:
  "lfq_inv q \<Longrightarrow> lfq_inv (lfq_emptied q)" "lfq_list (lfq_emptied q) = []"
  "ring_size (lfq_emptied q) = ring_size q"
  by (auto simp: lfq_emptied_def lfq_inv_def lfq_list_def)

lemma lfq_emptied_pop: "lfq_emptied (lfq_pop q) = lfq_emptied q"
  by (simp add: lfq_emptied_def lfq_pop_def)

theorem lfq_drain_eq:
  "lfq_inv q \<Longrightarrow> lfq_drain body q s = bindR (foldR body (lfq_list q) s) (\<lambda>s'. Inr (lfq_emptied q, s'))"
proof (induction body q s rule: lfq_drain.induct)
  case (1 body q s)
  show ?case
  proof (cases "lfq_list q")
    case Nil
    then have "store_count q = 0" using length_lfq_list [of q] by simp
    moreover have "next_read_index q = next_write_index q"
      using next_read_eq_write [OF "1.prems"] calculation by simp
    ultimately have "lfq_emptied q = q" by (simp add: lfq_emptied_def)
    then show ?thesis
      using Nil getNextToRead_list [OF "1.prems"] by (subst lfq_drain.simps) simp
  next
    case (Cons x xs)
    then have ne: "store_count q \<noteq> 0" using length_lfq_list [of q] by auto
    have peek: "getNextToRead q = Some x" using getNextToRead_list [OF "1.prems"] Cons by simp
    have IH: "lfq_drain body (lfq_pop q) s' =
      bindR (foldR body xs s') (\<lambda>s''. Inr (lfq_emptied q, s''))" if "body x s = Inr s'" for s'
      using "1.IH" [OF peek _ that] ne lfq_pop_list [OF "1.prems" ne] Cons
      by (simp add: updateReadIndex_eq lfq_size_def lfq_emptied_pop)
    show ?thesis
    proof (cases "body x s")
      case (Inl e)
      then show ?thesis using Cons peek ne by (subst lfq_drain.simps) (simp add: lfq_size_def)
    next
      case (Inr s')
      then show ?thesis using Cons peek ne IH [OF Inr]
        by (subst lfq_drain.simps) (simp add: lfq_size_def updateReadIndex_eq)
    qed
  qed
qed

text \<open>On a usable queue the two loops are one.\<close>

lemma lfq_drain_unchecked_eq:
  "lfq_inv q \<Longrightarrow> lfq_drain_unchecked body q s = lfq_drain body q s"
proof (induction body q s rule: lfq_drain.induct)
  case (1 body q s)
  show ?case
  proof (cases "getNextToRead q")
    case None
    then show ?thesis by (simp add: lfq_drain.simps [of body q] lfq_drain_unchecked.simps [of body q])
  next
    case (Some x)
    then have "lfq_list q \<noteq> []" using getNextToRead_list [OF "1.prems"] by (auto split: list.splits)
    then have ne: "store_count q \<noteq> 0" by (simp add: lfq_list_def)
    have "lfq_drain_unchecked body (lfq_pop q) s' = lfq_drain body (lfq_pop q) s'" if "body x s = Inr s'" for s'
      using "1.IH" [OF Some _ that] ne lfq_pop_list [OF "1.prems" ne]
      by (simp add: updateReadIndex_eq lfq_size_def)
    then show ?thesis
      using Some ne
      by (cases "body x s")
        (simp_all add: lfq_drain.simps [of body q] lfq_drain_unchecked.simps [of body q] lfq_size_def updateReadIndex_eq)
  qed
qed

lemma foldR_collect: "foldR (\<lambda>x acc. Inr (acc @ [x])) xs acc = Inr (acc @ xs)"
  by (induction xs arbitrary: acc) auto

text \<open>
  C25. The ring buffer is a first in, first out queue: whatever was in it, after the elements
  \<open>xs\<close> are pushed (with a slot to spare for each) the consumer loop reads the old contents and
  then \<open>xs\<close>, in order and each once, and leaves the queue empty and usable.
\<close>

theorem lfq_is_fifo:
  assumes "lfq_inv q" and "store_count q + length xs < ring_size q"
  shows "\<exists>q'. lfq_drain (\<lambda>x acc. Inr (acc @ [x])) (lfq_push_all q xs) [] = Inr (q', lfq_list q @ xs) \<and>
    lfq_list q' = [] \<and> lfq_inv q'"
proof -
  have "length xs \<le> lfq_room q" using assms by (simp add: lfq_room_def)
  then have "lfq_inv (lfq_push_all q xs) \<and> lfq_list (lfq_push_all q xs) = lfq_list q @ xs"
    unfolding lfq_push_all_def by (rule lfq.push_list [OF assms(1)])
  then show ?thesis by (simp add: lfq_drain_eq foldR_collect)
qed

theorem lfq_is_fifo_witness:
  "\<exists>q'. lfq_drain (\<lambda>x acc. Inr (acc @ [x])) (lfq_push_all (LFQueue_ctor 4 (0::int)) [5, 6]) [] =
    Inr (q', [5, 6])"
  using lfq_is_fifo [of "LFQueue_ctor 4 (0::int)" "[5, 6]"]
  by (auto simp: LFQueue_ctor_def lfq_list_def lfq_inv_def)

end
