(* ===== verification/MEOrderBook.thy ===== *)
theory MEOrderBook
  imports MEOrder Messages LFQueue
begin

text \<open>
  exchange/matcher/me_order_book.h and me_order_book.cpp: the exchange's book of one instrument,
  statement by statement. The book is a record of the class's fields; a \<open>MEOrder*\<close> or
  \<open>MEOrderAtPriceLevel*\<close> is an index into the pool that owns the object, a store through a
  pointer is an update of that pool. The two message members \<open>client_response_\<close> and
  \<open>market_update_\<close> are written in full immediately before each send, so the model passes the
  value. The engine's two outgoing queues, which the book writes through its back pointer, are
  the record \<open>me_io\<close>.
\<close>

record me_io =
  outgoing_responses :: "MEClientResponse LFQueue"
  outgoing_market_updates :: "MEMarketUpdate LFQueue"

definition sendClientResponse :: "me_io \<Rightarrow> MEClientResponse \<Rightarrow> me_io" where
  "sendClientResponse io client_response =
     io\<lparr>outgoing_responses := lfq_push (outgoing_responses io) client_response\<rparr>"

definition sendMarketUpdate :: "me_io \<Rightarrow> MEMarketUpdate \<Rightarrow> me_io" where
  "sendMarketUpdate io market_update =
     io\<lparr>outgoing_market_updates := lfq_push (outgoing_market_updates io) market_update\<rparr>"

record MEOrderBook =
  bk_tickerId :: TickerId
  client_orders :: "nat \<Rightarrow> nat \<Rightarrow> ptr"
  bid_levels_head :: ptr
  ask_levels_head :: ptr
  price_levels :: "nat \<Rightarrow> ptr"
  price_levels_pool :: "MEOrderAtPriceLevel MemPool"
  order_pool :: "MEOrder MemPool"
  next_market_order_id :: OrderId

text \<open>
  The constructor leaves the two pointer arrays without an initializer, so they start with
  whatever the memory holds: \<open>mem_orders\<close> and \<open>mem_levels\<close>.
\<close>

definition MEOrderBook_ctor :: "(nat \<Rightarrow> nat \<Rightarrow> ptr) \<Rightarrow> (nat \<Rightarrow> ptr) \<Rightarrow> TickerId \<Rightarrow> MEOrderBook" where
  "MEOrderBook_ctor mem_orders mem_levels tickerId =
     \<lparr>bk_tickerId = tickerId, client_orders = mem_orders, bid_levels_head = None,
      ask_levels_head = None, price_levels = mem_levels,
      price_levels_pool = MemPool_ctor ME_MAX_PRICE_LEVELS MEOrderAtPriceLevel_default,
      order_pool = MemPool_ctor ME_MAX_ORDER_IDS MEOrder_default, next_market_order_id = 1\<rparr>"

text \<open>
  The same in fresh, zero filled pages, where every pointer of the arrays reads as \<open>nullptr\<close>.
\<close>

definition MEOrderBook_zeroed :: "TickerId \<Rightarrow> MEOrderBook" where
  "MEOrderBook_zeroed = MEOrderBook_ctor (\<lambda>_ _. None) (\<lambda>_. None)"

section \<open>Access through pointers\<close>

definition ord :: "MEOrderBook \<Rightarrow> nat \<Rightarrow> MEOrder" where
  "ord b p = pool_get (order_pool b) p"

definition lvl :: "MEOrderBook \<Rightarrow> nat \<Rightarrow> MEOrderAtPriceLevel" where
  "lvl b p = pool_get (price_levels_pool b) p"

definition upd_ord :: "MEOrderBook \<Rightarrow> nat \<Rightarrow> (MEOrder \<Rightarrow> MEOrder) \<Rightarrow> MEOrderBook" where
  "upd_ord b p f = b\<lparr>order_pool := pool_put (order_pool b) p (f (ord b p))\<rparr>"

definition upd_lvl :: "MEOrderBook \<Rightarrow> nat \<Rightarrow> (MEOrderAtPriceLevel \<Rightarrow> MEOrderAtPriceLevel) \<Rightarrow> MEOrderBook" where
  "upd_lvl b p f = b\<lparr>price_levels_pool := pool_put (price_levels_pool b) p (f (lvl b p))\<rparr>"

section \<open>Private operations\<close>

definition generateNewMarketOrderId :: "MEOrderBook \<Rightarrow> OrderId \<times> MEOrderBook" where
  "generateNewMarketOrderId b =
     (next_market_order_id b, b\<lparr>next_market_order_id := next_market_order_id b + 1\<rparr>)"

definition priceToIndex :: "Price \<Rightarrow> nat" where
  "priceToIndex price = unat price mod ME_MAX_PRICE_LEVELS"

definition getPriceLevel :: "MEOrderBook \<Rightarrow> Price \<Rightarrow> ptr" where
  "getPriceLevel b price = price_levels b (priceToIndex price)"

text \<open>The two walks of \<open>addOrdersAtPrice\<close> along a side's levels, from its head.\<close>

definition walk_bid_step :: "MEOrderBook \<Rightarrow> Price \<Rightarrow> nat \<Rightarrow> ptr \<Rightarrow> (ptr, nat) flow" where
  "walk_bid_step b price head current =
     (case current of
        None \<Rightarrow> Return (Inl Null_deref)
      | Some c \<Rightarrow>
          if lvl_price (lvl b c) < price \<and> lvl_next (lvl b c) \<noteq> Some head
          then Continue (lvl_next (lvl b c)) else Return (Inr c))"

definition walk_ask_step :: "MEOrderBook \<Rightarrow> Price \<Rightarrow> nat \<Rightarrow> ptr \<Rightarrow> (ptr, nat) flow" where
  "walk_ask_step b price head current =
     (case current of
        None \<Rightarrow> Return (Inl Null_deref)
      | Some c \<Rightarrow>
          if price < lvl_price (lvl b c) \<and> lvl_next (lvl b c) \<noteq> Some head
          then Continue (lvl_next (lvl b c)) else Return (Inr c))"

text \<open>The four stores that link a new level in front of \<open>current\<close>.\<close>

definition link_level :: "MEOrderBook \<Rightarrow> nat \<Rightarrow> nat \<Rightarrow> MEOrderBook res" where
  "link_level b new current =
     (let b1 = upd_lvl b new (lvl_next_update (\<lambda>_. Some current));
          b2 = upd_lvl b1 new (lvl_prev_update (\<lambda>_. lvl_prev (lvl b1 current)))
      in bindR (deref (lvl_prev (lvl b2 current))) (\<lambda>before.
           let b3 = upd_lvl b2 before (lvl_next_update (\<lambda>_. Some new))
           in Inr (upd_lvl b3 current (lvl_prev_update (\<lambda>_. Some new)))))"

text \<open>
  \<open>side_orders_by_price_head\<close> is a copy of the head pointer: in the empty case the code assigns
  the new level to the copy only, and the book's own head keeps its value.
\<close>

definition addOrdersAtPrice :: "MEOrderBook \<Rightarrow> nat \<Rightarrow> MEOrderBook res" where
  "addOrdersAtPrice b new =
     (let price = lvl_price (lvl b new); side = lvl_side (lvl b new);
          b0 = b\<lparr>price_levels := (price_levels b)(priceToIndex price := Some new)\<rparr>
      in case (if side = BUY then bid_levels_head b0 else ask_levels_head b0) of
        None \<Rightarrow>
          (let b1 = upd_lvl b0 new (lvl_prev_update (\<lambda>_. Some new))
           in Inr (upd_lvl b1 new (lvl_next_update (\<lambda>_. Some new))))
      | Some head \<Rightarrow>
          if side = BUY then
            bindR (loopR (walk_bid_step b0 price head) (Some head)) (\<lambda>current.
            bindR (link_level b0 new current) (\<lambda>b1.
              Inr (if lvl_price (lvl b1 head) < price then b1\<lparr>bid_levels_head := Some new\<rparr> else b1)))
          else
            bindR (loopR (walk_ask_step b0 price head) (Some head)) (\<lambda>current.
            bindR (link_level b0 new current) (\<lambda>b1.
              Inr (if price < lvl_price (lvl b1 head) then b1\<lparr>ask_levels_head := Some new\<rparr> else b1))))"

definition getNextPriority :: "MEOrderBook \<Rightarrow> Price \<Rightarrow> Priority res" where
  "getNextPriority b price =
     (case getPriceLevel b price of
        None \<Rightarrow> Inr 1
      | Some l \<Rightarrow>
          bindR (deref (lvl_first_order (lvl b l))) (\<lambda>first.
          bindR (deref (ord_prev (ord b first))) (\<lambda>last.
            Inr (ord_priority (ord b last) + 1))))"

text \<open>Storing a pointer in \<open>client_orders_.at(clientId).at(client_orderId)\<close>.\<close>

definition put_client_order :: "MEOrderBook \<Rightarrow> ClientId \<Rightarrow> OrderId \<Rightarrow> ptr \<Rightarrow> MEOrderBook res" where
  "put_client_order b clientId client_orderId p =
     bindR (arr_at ME_MAX_NUM_CLIENTS (client_orders b) (unat clientId)) (\<lambda>orders.
     bindR (arr_put ME_MAX_ORDER_IDS orders (unat client_orderId) p) (\<lambda>orders'.
       Inr (b\<lparr>client_orders := (client_orders b)(unat clientId := orders')\<rparr>)))"

definition addOrder :: "MEOrderBook \<Rightarrow> nat \<Rightarrow> MEOrderBook res" where
  "addOrder b order =
     bindR (case getPriceLevel b (ord_price (ord b order)) of
        None \<Rightarrow>
          (let b1 = upd_ord b order (ord_prev_update (\<lambda>_. Some order));
               b2 = upd_ord b1 order (ord_next_update (\<lambda>_. Some order));
               o2 = ord b2 order
           in bindR (allocate (price_levels_pool b2)
                \<lparr>lvl_side = ord_side o2, lvl_price = ord_price o2, lvl_first_order = Some order,
                 lvl_prev = None, lvl_next = None\<rparr>) (\<lambda>(pool', new_price_level).
              addOrdersAtPrice (b2\<lparr>price_levels_pool := pool'\<rparr>) new_price_level))
      | Some price_level \<Rightarrow>
          bindR (deref (lvl_first_order (lvl b price_level))) (\<lambda>first_order.
          bindR (deref (ord_prev (ord b first_order))) (\<lambda>last_order.
            let b1 = upd_ord b last_order (ord_next_update (\<lambda>_. Some order));
                b2 = upd_ord b1 order (ord_prev_update (\<lambda>_. ord_prev (ord b1 first_order)));
                b3 = upd_ord b2 order (ord_next_update (\<lambda>_. Some first_order))
            in Inr (upd_ord b3 first_order (ord_prev_update (\<lambda>_. Some order))))))
     (\<lambda>b'. put_client_order b' (ord_clientId (ord b' order)) (ord_client_orderId (ord b' order))
             (Some order))"

text \<open>
  \<open>orders_head\<close> is again a copy, so neither assignment to it changes the book.
\<close>

definition removePriceLevel :: "MEOrderBook \<Rightarrow> Side \<Rightarrow> Price \<Rightarrow> MEOrderBook res" where
  "removePriceLevel b side price =
     bindR (deref (getPriceLevel b price)) (\<lambda>price_level.
     bindR
       (if lvl_next (lvl b price_level) = Some price_level then Inr b
        else
          bindR (deref (lvl_prev (lvl b price_level))) (\<lambda>before.
            let b1 = upd_lvl b before (lvl_next_update (\<lambda>_. lvl_next (lvl b price_level)))
            in bindR (deref (lvl_next (lvl b1 price_level))) (\<lambda>after.
                 Inr (upd_lvl b1 after (lvl_prev_update (\<lambda>_. lvl_prev (lvl b1 price_level)))))))
     (\<lambda>b'.
        let b2 = b'\<lparr>price_levels := (price_levels b')(priceToIndex price := None)\<rparr>
        in bindR (deallocate (price_levels_pool b2) price_level) (\<lambda>pool'.
             Inr (b2\<lparr>price_levels_pool := pool'\<rparr>))))"

definition removeOrder :: "MEOrderBook \<Rightarrow> nat \<Rightarrow> MEOrderBook res" where
  "removeOrder b order =
     (let price_level = getPriceLevel b (ord_price (ord b order)) in
      bindR
       (if ord_prev (ord b order) = Some order then
          removePriceLevel b (ord_side (ord b order)) (ord_price (ord b order))
        else
          let prev_order = ord_prev (ord b order); next_order = ord_next (ord b order) in
          bindR (deref prev_order) (\<lambda>prev.
            let b1 = upd_ord b prev (ord_next_update (\<lambda>_. next_order))
            in bindR (deref next_order) (\<lambda>next.
                 let b2 = upd_ord b1 next (ord_prev_update (\<lambda>_. prev_order))
                 in bindR (deref price_level) (\<lambda>l.
                      Inr (if lvl_first_order (lvl b2 l) = Some order
                           then upd_lvl b2 l (lvl_first_order_update (\<lambda>_. next_order)) else b2)))))
      (\<lambda>b'.
        bindR (put_client_order b' (ord_clientId (ord b' order)) (ord_client_orderId (ord b' order)) None)
          (\<lambda>b''. bindR (deallocate (order_pool b'') order) (\<lambda>pool'. Inr (b''\<lparr>order_pool := pool'\<rparr>)))))"

section \<open>Matching\<close>

text \<open>\<open>match\<close>: the incoming order against the resting order \<open>itr\<close>; the last component is \<open>*left_qty\<close>.\<close>

definition me_match ::
    "me_io \<Rightarrow> MEOrderBook \<Rightarrow> TickerId \<Rightarrow> ClientId \<Rightarrow> Side \<Rightarrow> OrderId \<Rightarrow> OrderId \<Rightarrow> nat \<Rightarrow> Qty \<Rightarrow>
     (me_io \<times> MEOrderBook \<times> Qty) res" where
  "me_match io b tickerId clientId side client_orderId market_orderId itr left_qty =
     (let order_qty = ord_qty (ord b itr);
          fill_qty = min left_qty order_qty;
          left' = left_qty - fill_qty;
          b1 = upd_ord b itr (ord_qty_update (\<lambda>q. q - fill_qty));
          order = ord b1 itr;
          io1 = sendClientResponse io
            \<lparr>rs_type = FILLED, rs_clientId = clientId, rs_tickerId = tickerId,
             rs_client_order_id = client_orderId, rs_marker_order_id = market_orderId,
             rs_side = side, rs_price = ord_price order, rs_exec_qty = fill_qty, rs_left_qty = left'\<rparr>;
          io2 = sendClientResponse io1
            \<lparr>rs_type = FILLED, rs_clientId = ord_clientId order, rs_tickerId = ord_tickerId order,
             rs_client_order_id = ord_client_orderId order,
             rs_marker_order_id = ord_market_orderId order, rs_side = ord_side order,
             rs_price = ord_price order, rs_exec_qty = fill_qty, rs_left_qty = ord_qty order\<rparr>;
          io3 = sendMarketUpdate io2
            \<lparr>mu_type = TRADE, mu_orderId = OrderId_INVALID, mu_tickerId = tickerId, mu_side = side,
             mu_price = ord_price order, mu_qty = fill_qty, mu_priority = Priority_INVALID\<rparr>
      in if ord_qty order = 0 then
           let io4 = sendMarketUpdate io3
             \<lparr>mu_type = CANCEL, mu_orderId = ord_market_orderId order, mu_tickerId = tickerId,
              mu_side = ord_side order, mu_price = ord_price order, mu_qty = order_qty,
              mu_priority = Priority_INVALID\<rparr>
           in bindR (removeOrder b1 itr) (\<lambda>b2. Inr (io4, b2, left'))
         else
           let io4 = sendMarketUpdate io3
             \<lparr>mu_type = MODIFY, mu_orderId = ord_market_orderId order, mu_tickerId = tickerId,
              mu_side = ord_side order, mu_price = ord_price order, mu_qty = ord_qty order,
              mu_priority = ord_priority order\<rparr>
           in Inr (io4, b1, left'))"

text \<open>
  The bodies of the two matching loops of \<open>checkForMatch\<close>. Their state is what the loop changes:
  the queues, the book and \<open>left_qty\<close>.
\<close>

definition match_asks_step ::
    "TickerId \<Rightarrow> ClientId \<Rightarrow> OrderId \<Rightarrow> OrderId \<Rightarrow> Price \<Rightarrow> me_io \<times> MEOrderBook \<times> Qty \<Rightarrow>
     (me_io \<times> MEOrderBook \<times> Qty, me_io \<times> MEOrderBook \<times> Qty) flow" where
  "match_asks_step tickerId clientId client_orderId market_orderId price = (\<lambda>(io, b, left_qty).
     if left_qty = 0 then Return (Inr (io, b, left_qty))
     else case ask_levels_head b of
        None \<Rightarrow> Return (Inr (io, b, left_qty))
      | Some l \<Rightarrow> (case lvl_first_order (lvl b l) of
          None \<Rightarrow> Return (Inl Null_deref)
        | Some itr \<Rightarrow>
            if price < ord_price (ord b itr) then Return (Inr (io, b, left_qty))
            else (case me_match io b tickerId clientId BUY client_orderId market_orderId itr left_qty of
              Inl e \<Rightarrow> Return (Inl e) | Inr s' \<Rightarrow> Continue s')))"

definition match_bids_step ::
    "TickerId \<Rightarrow> ClientId \<Rightarrow> OrderId \<Rightarrow> OrderId \<Rightarrow> Price \<Rightarrow> me_io \<times> MEOrderBook \<times> Qty \<Rightarrow>
     (me_io \<times> MEOrderBook \<times> Qty, me_io \<times> MEOrderBook \<times> Qty) flow" where
  "match_bids_step tickerId clientId client_orderId market_orderId price = (\<lambda>(io, b, left_qty).
     if left_qty = 0 then Return (Inr (io, b, left_qty))
     else case bid_levels_head b of
        None \<Rightarrow> Return (Inr (io, b, left_qty))
      | Some l \<Rightarrow> (case lvl_first_order (lvl b l) of
          None \<Rightarrow> Return (Inl Null_deref)
        | Some itr \<Rightarrow>
            if ord_price (ord b itr) < price then Return (Inr (io, b, left_qty))
            else (case me_match io b tickerId clientId SELL client_orderId market_orderId itr left_qty of
              Inl e \<Rightarrow> Return (Inl e) | Inr s' \<Rightarrow> Continue s')))"

definition checkForMatch ::
    "me_io \<Rightarrow> MEOrderBook \<Rightarrow> ClientId \<Rightarrow> OrderId \<Rightarrow> TickerId \<Rightarrow> Side \<Rightarrow> Price \<Rightarrow> Qty \<Rightarrow> OrderId \<Rightarrow>
     (me_io \<times> MEOrderBook \<times> Qty) res" where
  "checkForMatch io b clientId client_orderId tickerId side price qty market_orderId =
     bindR (if side = BUY
            then loopR (match_asks_step tickerId clientId client_orderId market_orderId price) (io, b, qty)
            else Inr (io, b, qty)) (\<lambda>(io1, b1, left1).
       if side = SELL
       then loopR (match_bids_step tickerId clientId client_orderId market_orderId price) (io1, b1, left1)
       else Inr (io1, b1, left1))"

section \<open>Public operations\<close>

definition add ::
    "me_io \<Rightarrow> MEOrderBook \<Rightarrow> ClientId \<Rightarrow> OrderId \<Rightarrow> TickerId \<Rightarrow> Side \<Rightarrow> Price \<Rightarrow> Qty \<Rightarrow>
     (me_io \<times> MEOrderBook) res" where
  "add io b clientId client_orderId tickerId side price qty =
     (let (new_market_orderId, b0) = generateNewMarketOrderId b;
          io0 = sendClientResponse io
            \<lparr>rs_type = ACCEPTED, rs_clientId = clientId, rs_tickerId = tickerId,
             rs_client_order_id = client_orderId, rs_marker_order_id = new_market_orderId,
             rs_side = side, rs_price = price, rs_exec_qty = 0, rs_left_qty = qty\<rparr>
      in bindR (checkForMatch io0 b0 clientId client_orderId tickerId side price qty new_market_orderId)
           (\<lambda>(io1, b1, left_qty).
              if left_qty \<noteq> 0 then
                bindR (getNextPriority b1 price) (\<lambda>priority.
                bindR (allocate (order_pool b1)
                  \<lparr>ord_tickerId = tickerId, ord_clientId = clientId,
                   ord_client_orderId = client_orderId, ord_market_orderId = new_market_orderId,
                   ord_side = side, ord_price = price, ord_qty = left_qty, ord_priority = priority,
                   ord_prev = None, ord_next = None\<rparr>) (\<lambda>(pool', order).
                bindR (addOrder (b1\<lparr>order_pool := pool'\<rparr>) order) (\<lambda>b2.
                  Inr (sendMarketUpdate io1
                    \<lparr>mu_type = ADD, mu_orderId = new_market_orderId, mu_tickerId = tickerId,
                     mu_side = side, mu_price = price, mu_qty = left_qty, mu_priority = priority\<rparr>,
                    b2))))
              else Inr (io1, b1)))"

definition cancel ::
    "me_io \<Rightarrow> MEOrderBook \<Rightarrow> ClientId \<Rightarrow> OrderId \<Rightarrow> TickerId \<Rightarrow> (me_io \<times> MEOrderBook) res" where
  "cancel io b clientId client_orderId tickerId =
     (if unat clientId < ME_MAX_NUM_CLIENTS then
        bindR (arr_at ME_MAX_NUM_CLIENTS (client_orders b) (unat clientId)) (\<lambda>client_orders_itr.
        bindR (arr_at ME_MAX_ORDER_IDS client_orders_itr (unat client_orderId)) (\<lambda>order_to_cancel.
          case order_to_cancel of
            None \<Rightarrow>
              Inr (sendClientResponse io
                \<lparr>rs_type = CANCEL_REJECTED, rs_clientId = clientId, rs_tickerId = tickerId,
                 rs_client_order_id = client_orderId, rs_marker_order_id = OrderId_INVALID,
                 rs_side = Side_INVALID, rs_price = Price_INVALID, rs_exec_qty = Qty_INVALID,
                 rs_left_qty = Qty_INVALID\<rparr>, b)
          | Some p \<Rightarrow>
              (let order = ord b p;
                   client_response =
                     \<lparr>rs_type = CANCELED, rs_clientId = clientId, rs_tickerId = tickerId,
                      rs_client_order_id = client_orderId,
                      rs_marker_order_id = ord_market_orderId order, rs_side = ord_side order,
                      rs_price = ord_price order, rs_exec_qty = Qty_INVALID,
                      rs_left_qty = ord_qty order\<rparr>;
                   market_update =
                     \<lparr>mu_type = CANCEL, mu_orderId = client_orderId, mu_tickerId = tickerId,
                      mu_side = ord_side order, mu_price = ord_price order, mu_qty = ord_qty order,
                      mu_priority = ord_priority order\<rparr>
               in bindR (removeOrder b p) (\<lambda>b'.
                    Inr (sendClientResponse (sendMarketUpdate io market_update) client_response, b')))))
      else Inr (io, b))"

end
