(* ===== verification/MEBookInv.thy ===== *)
theory MEBookInv
  imports MEOrderBook
begin

text \<open>
  What every reachable state of the exchange's order book satisfies, and that each operation
  keeps it: the orders resting at one index of the price ladder form one circular doubly linked
  list in arrival order, no two lists share a node, and the lookup table of client orders points
  at live orders of that client.
\<close>

section \<open>Reading a book after a store\<close>

lemma ord_upd_ord [simp]: "ord (upd_ord b p f) q = (if q = p then f (ord b p) else ord b q)"
  and lvl_upd_ord [simp]: "lvl (upd_ord b p f) q = lvl b q"
  and ord_upd_lvl [simp]: "ord (upd_lvl b p g) q = ord b q"
  and lvl_upd_lvl [simp]: "lvl (upd_lvl b p g) q = (if q = p then g (lvl b p) else lvl b q)"
  by (simp_all add: ord_def lvl_def upd_ord_def upd_lvl_def)

lemma upd_ord_fields [simp]:
  "client_orders (upd_ord b p f) = client_orders b"
  "bid_levels_head (upd_ord b p f) = bid_levels_head b"
  "ask_levels_head (upd_ord b p f) = ask_levels_head b"
  "price_levels (upd_ord b p f) = price_levels b"
  "price_levels_pool (upd_ord b p f) = price_levels_pool b"
  "next_market_order_id (upd_ord b p f) = next_market_order_id b"
  "bk_tickerId (upd_ord b p f) = bk_tickerId b"
  "getPriceLevel (upd_ord b p f) = getPriceLevel b"
  "pool_live (order_pool (upd_ord b p f)) = pool_live (order_pool b)"
  "pool_inv (order_pool (upd_ord b p f)) = pool_inv (order_pool b)"
  "pool_size (order_pool (upd_ord b p f)) = pool_size (order_pool b)"
  "next_free_index (order_pool (upd_ord b p f)) = next_free_index (order_pool b)"
  by (simp_all add: upd_ord_def getPriceLevel_def fun_eq_iff)

lemma upd_lvl_fields [simp]:
  "client_orders (upd_lvl b p g) = client_orders b"
  "bid_levels_head (upd_lvl b p g) = bid_levels_head b"
  "ask_levels_head (upd_lvl b p g) = ask_levels_head b"
  "price_levels (upd_lvl b p g) = price_levels b"
  "order_pool (upd_lvl b p g) = order_pool b"
  "next_market_order_id (upd_lvl b p g) = next_market_order_id b"
  "bk_tickerId (upd_lvl b p g) = bk_tickerId b"
  "getPriceLevel (upd_lvl b p g) = getPriceLevel b"
  "pool_live (price_levels_pool (upd_lvl b p g)) = pool_live (price_levels_pool b)"
  "pool_inv (price_levels_pool (upd_lvl b p g)) = pool_inv (price_levels_pool b)"
  "pool_size (price_levels_pool (upd_lvl b p g)) = pool_size (price_levels_pool b)"
  "next_free_index (price_levels_pool (upd_lvl b p g)) = next_free_index (price_levels_pool b)"
  by (simp_all add: upd_lvl_def getPriceLevel_def fun_eq_iff)

lemma ord_other_fields [simp]:
  "ord (b\<lparr>price_levels := x1\<rparr>) = ord b" "ord (b\<lparr>price_levels_pool := x2\<rparr>) = ord b"
  "ord (b\<lparr>client_orders := x3\<rparr>) = ord b" "ord (b\<lparr>next_market_order_id := x4\<rparr>) = ord b"
  "ord (b\<lparr>order_pool := pl\<rparr>) q = pool_get pl q"
  by (simp_all add: ord_def fun_eq_iff)

lemma lvl_other_fields [simp]:
  "lvl (b\<lparr>price_levels := x1\<rparr>) = lvl b" "lvl (b\<lparr>order_pool := x2\<rparr>) = lvl b"
  "lvl (b\<lparr>client_orders := x3\<rparr>) = lvl b" "lvl (b\<lparr>next_market_order_id := x4\<rparr>) = lvl b"
  "lvl (b\<lparr>price_levels_pool := lp\<rparr>) q = pool_get lp q"
  by (simp_all add: lvl_def fun_eq_iff)

lemma pool_get_ord_lvl [simp]:
  "pool_get (order_pool b) p = ord b p" "pool_get (price_levels_pool b) l = lvl b l"
  by (simp_all add: ord_def lvl_def)

lemma priceToIndex_less [simp]: "priceToIndex price < ME_MAX_PRICE_LEVELS"
  by (simp add: priceToIndex_def)

section \<open>The invariant\<close>

text \<open>The live orders at one index of the ladder, oldest first.\<close>

definition at_index :: "MEOrderBook \<Rightarrow> nat \<Rightarrow> nat \<Rightarrow> bool" where
  "at_index b i p \<longleftrightarrow> pool_live (order_pool b) p \<and> priceToIndex (ord_price (ord b p)) = i"

definition resting :: "MEOrderBook \<Rightarrow> nat \<Rightarrow> nat list" where
  "resting b i = filter (at_index b i) [0..<next_free_index (order_pool b)]"

text \<open>An order without its links.\<close>

definition ord_data :: "MEOrder \<Rightarrow> MEOrder" where
  "ord_data r = r\<lparr>ord_prev := None, ord_next := None\<rparr>"

definition order_ok :: "nat \<Rightarrow> MEOrder \<Rightarrow> bool" where
  "order_ok p r \<longleftrightarrow> unat (ord_clientId r) < ME_MAX_NUM_CLIENTS \<and>
     unat (ord_client_orderId r) < ME_MAX_ORDER_IDS \<and> ord_qty r \<noteq> 0 \<and>
     1 \<le> unat (ord_priority r) \<and> unat (ord_priority r) \<le> Suc p"

definition ring_ok :: "MEOrderBook \<Rightarrow> nat list \<Rightarrow> bool" where
  "ring_ok b os \<longleftrightarrow> cring (\<lambda>p. ord_next (ord b p)) (\<lambda>p. ord_prev (ord b p)) os \<and>
     sorted_wrt (\<lambda>p q. ord_priority (ord b p) < ord_priority (ord b q)) os"

definition level_ok :: "MEOrderBook \<Rightarrow> nat \<Rightarrow> bool" where
  "level_ok b i \<longleftrightarrow> (case price_levels b i of
     None \<Rightarrow> resting b i = []
   | Some l \<Rightarrow> pool_live (price_levels_pool b) l \<and> priceToIndex (lvl_price (lvl b l)) = i \<and>
       lvl_prev (lvl b l) = Some l \<and> lvl_next (lvl b l) = Some l \<and>
       lvl_first_order (lvl b l) = Some (hd (resting b i)) \<and> ring_ok b (resting b i))"

definition clients_ok :: "MEOrderBook \<Rightarrow> bool" where
  "clients_ok b \<longleftrightarrow> (\<forall>c i p. c < ME_MAX_NUM_CLIENTS \<longrightarrow> i < ME_MAX_ORDER_IDS \<longrightarrow>
     client_orders b c i = Some p \<longrightarrow> pool_live (order_pool b) p \<and>
       unat (ord_clientId (ord b p)) = c \<and> unat (ord_client_orderId (ord b p)) = i)"

definition pools_ok :: "MEOrderBook \<Rightarrow> bool" where
  "pools_ok b \<longleftrightarrow> pool_inv (order_pool b) \<and> pool_size (order_pool b) = ME_MAX_ORDER_IDS \<and>
     pool_inv (price_levels_pool b) \<and> pool_size (price_levels_pool b) = ME_MAX_PRICE_LEVELS"

definition book_inv :: "MEOrderBook \<Rightarrow> bool" where
  "book_inv b \<longleftrightarrow> bid_levels_head b = None \<and> ask_levels_head b = None \<and> pools_ok b \<and>
     (\<forall>i < ME_MAX_PRICE_LEVELS. level_ok b i) \<and>
     (\<forall>p. pool_live (order_pool b) p \<longrightarrow> order_ok p (ord b p)) \<and> clients_ok b"

lemma ord_data_fields [simp]:
  "ord_clientId (ord_data r) = ord_clientId r" "ord_tickerId (ord_data r) = ord_tickerId r"
  "ord_client_orderId (ord_data r) = ord_client_orderId r"
  "ord_market_orderId (ord_data r) = ord_market_orderId r"
  "ord_side (ord_data r) = ord_side r" "ord_price (ord_data r) = ord_price r"
  "ord_qty (ord_data r) = ord_qty r" "ord_priority (ord_data r) = ord_priority r"
  by (simp_all add: ord_data_def)

lemma ord_data_eqD:
  assumes "ord_data r = ord_data s"
  shows "ord_clientId r = ord_clientId s" "ord_tickerId r = ord_tickerId s"
    "ord_client_orderId r = ord_client_orderId s" "ord_market_orderId r = ord_market_orderId s"
    "ord_side r = ord_side s" "ord_price r = ord_price s" "ord_qty r = ord_qty s"
    "ord_priority r = ord_priority s"
  using assms by (metis ord_data_fields)+

lemma ord_data_links [simp]:
  "ord_data (r\<lparr>ord_prev := x\<rparr>) = ord_data r" "ord_data (r\<lparr>ord_next := x\<rparr>) = ord_data r"
  by (simp_all add: ord_data_def)

lemma order_ok_data: "ord_data r = ord_data s \<Longrightarrow> order_ok p r = order_ok p s"
  using ord_data_eqD [of r s] by (simp add: order_ok_def)

text \<open>Elementary facts about the lists of resting orders.\<close>

lemma resting_sorted: "sorted_wrt (<) (resting b i)"
  by (simp add: resting_def sorted_wrt_filter)

lemma resting_distinct [simp]: "distinct (resting b i)"
  by (simp add: resting_def)

lemma set_resting:
  "pool_inv (order_pool b) \<Longrightarrow> p \<in> set (resting b i) \<longleftrightarrow> at_index b i p"
  by (auto simp: resting_def at_index_def dest: pool_live_less)

lemma resting_disjoint:
  "p \<in> set (resting b i) \<Longrightarrow> p \<in> set (resting b j) \<Longrightarrow> i = j"
  by (simp add: resting_def at_index_def)

text \<open>A store that keeps liveness and prices keeps the lists.\<close>

lemma resting_cong:
  assumes "next_free_index (order_pool b') = next_free_index (order_pool b)"
    and "\<And>p. p < next_free_index (order_pool b) \<Longrightarrow> at_index b' i p = at_index b i p"
  shows "resting b' i = resting b i"
  unfolding resting_def assms(1) using assms(2) by (intro filter_cong) auto

lemma ring_ok_cong:
  assumes "\<And>p. p \<in> set os \<Longrightarrow> ord b' p = ord b p"
  shows "ring_ok b' os = ring_ok b os"
proof -
  have "cring (\<lambda>p. ord_next (ord b' p)) (\<lambda>p. ord_prev (ord b' p)) os =
    cring (\<lambda>p. ord_next (ord b p)) (\<lambda>p. ord_prev (ord b p)) os"
    using assms by (intro cring_cong) auto
  moreover have "sorted_wrt (\<lambda>p q. ord_priority (ord b' p) < ord_priority (ord b' q)) os =
    sorted_wrt (\<lambda>p q. ord_priority (ord b p) < ord_priority (ord b q)) os"
    using assms by (auto intro: sorted_wrt_mono_rel [rotated])
  ultimately show ?thesis by (simp add: ring_ok_def)
qed

lemma level_ok_cong:
  assumes "price_levels b' i = price_levels b i"
    and "\<And>l. price_levels b i = Some l \<Longrightarrow> lvl b' l = lvl b l \<and>
      pool_live (price_levels_pool b') l = pool_live (price_levels_pool b) l"
    and "resting b' i = resting b i" and "\<And>p. p \<in> set (resting b i) \<Longrightarrow> ord b' p = ord b p"
  shows "level_ok b' i = level_ok b i"
  using assms ring_ok_cong [of "resting b i" b' b]
  by (auto simp: level_ok_def split: option.splits)

section \<open>A new book\<close>

lemma book_inv_init: "book_inv (MEOrderBook_zeroed t)"
proof -
  let ?b = "MEOrderBook_zeroed t"
  have fields: "order_pool ?b = MemPool_ctor ME_MAX_ORDER_IDS MEOrder_default"
    "price_levels_pool ?b = MemPool_ctor ME_MAX_PRICE_LEVELS MEOrderAtPriceLevel_default"
    "price_levels ?b = (\<lambda>_. None)" "client_orders ?b = (\<lambda>_ _. None)"
    "bid_levels_head ?b = None" "ask_levels_head ?b = None"
    by (simp_all add: MEOrderBook_zeroed_def MEOrderBook_ctor_def)
  have "level_ok ?b i" for i by (simp add: level_ok_def fields resting_def)
  then show ?thesis by (simp add: book_inv_def pools_ok_def fields clients_ok_def)
qed

section \<open>Adding an order\<close>

text \<open>What every path of \<open>addOrder\<close> leaves as it was.\<close>

definition same_orders :: "MEOrderBook \<Rightarrow> MEOrderBook \<Rightarrow> bool" where
  "same_orders b b' \<longleftrightarrow> (\<forall>q. ord_data (ord b' q) = ord_data (ord b q)) \<and>
     pool_live (order_pool b') = pool_live (order_pool b) \<and>
     (pool_inv (order_pool b') \<longleftrightarrow> pool_inv (order_pool b)) \<and>
     pool_size (order_pool b') = pool_size (order_pool b) \<and>
     next_free_index (order_pool b') = next_free_index (order_pool b) \<and>
     bid_levels_head b' = bid_levels_head b \<and> ask_levels_head b' = ask_levels_head b \<and>
     next_market_order_id b' = next_market_order_id b"

lemma put_client_order_eq:
  assumes "unat c < ME_MAX_NUM_CLIENTS" and "unat oid < ME_MAX_ORDER_IDS"
  shows "put_client_order b c oid p = Inr (b\<lparr>client_orders :=
    (client_orders b)(unat c := (client_orders b (unat c))(unat oid := p))\<rparr>)"
  using assms by (simp add: put_client_order_def)

lemma addOrdersAtPrice_no_head:
  assumes "bid_levels_head b = None" and "ask_levels_head b = None"
  shows "addOrdersAtPrice b new = Inr (upd_lvl (upd_lvl
    (b\<lparr>price_levels := (price_levels b)(priceToIndex (lvl_price (lvl b new)) := Some new)\<rparr>)
    new (lvl_prev_update (\<lambda>_. Some new))) new (lvl_next_update (\<lambda>_. Some new)))"
  using assms by (simp add: addOrdersAtPrice_def Let_def)

lemma addOrder_append:
  assumes level: "getPriceLevel b (ord_price (ord b p)) = Some l"
    and first: "lvl_first_order (lvl b l) = Some f" and last: "ord_prev (ord b f) = Some e"
    and ne: "p \<noteq> f"
    and bounds: "unat (ord_clientId (ord b p)) < ME_MAX_NUM_CLIENTS"
      "unat (ord_client_orderId (ord b p)) < ME_MAX_ORDER_IDS"
  obtains b' where "addOrder b p = Inr b'" and "same_orders b b'"
    and "(\<lambda>q. ord_next (ord b' q)) = (\<lambda>q. ord_next (ord b q))(e := Some p, p := Some f)"
    and "(\<lambda>q. ord_prev (ord b' q)) = (\<lambda>q. ord_prev (ord b q))(p := Some e, f := Some p)"
    and "price_levels b' = price_levels b" and "price_levels_pool b' = price_levels_pool b"
    and "client_orders b' = (client_orders b)(unat (ord_clientId (ord b p)) :=
      (client_orders b (unat (ord_clientId (ord b p))))(unat (ord_client_orderId (ord b p)) := Some p))"
proof -
  let ?b1 = "upd_ord b e (ord_next_update (\<lambda>_. Some p))"
  let ?b2 = "upd_ord ?b1 p (ord_prev_update (\<lambda>_. ord_prev (ord ?b1 f)))"
  let ?b3 = "upd_ord ?b2 p (ord_next_update (\<lambda>_. Some f))"
  let ?b4 = "upd_ord ?b3 f (ord_prev_update (\<lambda>_. Some p))"
  have prev1: "ord_prev (ord ?b1 f) = Some e" using last by auto
  have data: "ord_data (ord ?b4 q) = ord_data (ord b q)" for q by simp
  have bounds4: "unat (ord_clientId (ord ?b4 p)) < ME_MAX_NUM_CLIENTS"
    "unat (ord_client_orderId (ord ?b4 p)) < ME_MAX_ORDER_IDS"
    and same4: "ord_clientId (ord ?b4 p) = ord_clientId (ord b p)"
    "ord_client_orderId (ord ?b4 p) = ord_client_orderId (ord b p)"
    using bounds ord_data_eqD [OF data, of p] by simp_all
  let ?b5 = "?b4\<lparr>client_orders := (client_orders b)(unat (ord_clientId (ord b p)) :=
      (client_orders b (unat (ord_clientId (ord b p))))(unat (ord_client_orderId (ord b p)) := Some p))\<rparr>"
  have "addOrder b p = put_client_order ?b4 (ord_clientId (ord ?b4 p)) (ord_client_orderId (ord ?b4 p)) (Some p)"
    unfolding addOrder_def using level first last by (simp add: Let_def)
  also have "\<dots> = Inr ?b5" using put_client_order_eq [OF bounds4] by (simp add: same4)
  finally have "addOrder b p = Inr ?b5" .
  moreover have "same_orders b ?b5" using data by (simp add: same_orders_def)
  moreover have "(\<lambda>q. ord_next (ord ?b5 q)) = (\<lambda>q. ord_next (ord b q))(e := Some p, p := Some f)"
    and "(\<lambda>q. ord_prev (ord ?b5 q)) = (\<lambda>q. ord_prev (ord b q))(p := Some e, f := Some p)"
    using prev1 ne by (auto simp: fun_eq_iff)
  moreover have "price_levels ?b5 = price_levels b" "price_levels_pool ?b5 = price_levels_pool b"
    by simp_all
  ultimately show thesis by (rule that) simp
qed

lemma addOrder_new_level:
  assumes level: "getPriceLevel b (ord_price (ord b p)) = None"
    and heads: "bid_levels_head b = None" "ask_levels_head b = None"
    and pool: "pool_inv (price_levels_pool b)"
      "Suc (next_free_index (price_levels_pool b)) < pool_size (price_levels_pool b)"
    and bounds: "unat (ord_clientId (ord b p)) < ME_MAX_NUM_CLIENTS"
      "unat (ord_client_orderId (ord b p)) < ME_MAX_ORDER_IDS"
    and l: "l = next_free_index (price_levels_pool b)"
  obtains b' where "addOrder b p = Inr b'" and "same_orders b b'"
    and "(\<lambda>q. ord_next (ord b' q)) = (\<lambda>q. ord_next (ord b q))(p := Some p)"
    and "(\<lambda>q. ord_prev (ord b' q)) = (\<lambda>q. ord_prev (ord b q))(p := Some p)"
    and "price_levels b' = (price_levels b)(priceToIndex (ord_price (ord b p)) := Some l)"
    and "lvl b' = (lvl b)(l := \<lparr>lvl_side = ord_side (ord b p), lvl_price = ord_price (ord b p),
        lvl_first_order = Some p, lvl_prev = Some l, lvl_next = Some l\<rparr>)"
    and "\<And>x. pool_live (price_levels_pool b') x = (pool_live (price_levels_pool b) x \<or> x = l)"
    and "pool_inv (price_levels_pool b')"
    and "pool_size (price_levels_pool b') = pool_size (price_levels_pool b)"
    and "next_free_index (price_levels_pool b') = Suc l"
    and "client_orders b' = (client_orders b)(unat (ord_clientId (ord b p)) :=
      (client_orders b (unat (ord_clientId (ord b p))))(unat (ord_client_orderId (ord b p)) := Some p))"
proof -
  let ?l = "next_free_index (price_levels_pool b)"
  let ?lev = "\<lparr>lvl_side = ord_side (ord b p), lvl_price = ord_price (ord b p),
    lvl_first_order = Some p, lvl_prev = None, lvl_next = None\<rparr>"
  let ?b2 = "upd_ord (upd_ord b p (ord_prev_update (\<lambda>_. Some p))) p (ord_next_update (\<lambda>_. Some p))"
  let ?b3 = "?b2\<lparr>price_levels_pool := pool_alloc (price_levels_pool b) ?lev\<rparr>"
  let ?b4 = "upd_lvl (upd_lvl (?b3\<lparr>price_levels := (price_levels b)(priceToIndex (ord_price (ord b p)) := Some ?l)\<rparr>)
    ?l (lvl_prev_update (\<lambda>_. Some ?l))) ?l (lvl_next_update (\<lambda>_. Some ?l))"
  let ?b5 = "?b4\<lparr>client_orders := (client_orders b)(unat (ord_clientId (ord b p)) :=
      (client_orders b (unat (ord_clientId (ord b p))))(unat (ord_client_orderId (ord b p)) := Some p))\<rparr>"
  have free: "?l < pool_size (price_levels_pool b)" using pool(2) by simp
  have "addOrdersAtPrice ?b3 ?l = Inr ?b4"
    by (subst addOrdersAtPrice_no_head) (simp_all add: heads)
  then have "addOrder b p =
    put_client_order ?b4 (ord_clientId (ord ?b4 p)) (ord_client_orderId (ord ?b4 p)) (Some p)"
    unfolding addOrder_def using level pool by (simp add: Let_def allocate_eq)
  also have "\<dots> = Inr ?b5"
    using bounds by (subst put_client_order_eq) simp_all
  finally have eq: "addOrder b p = Inr ?b5" .
  have "same_orders b ?b5" by (simp add: same_orders_def)
  moreover have "(\<lambda>q. ord_next (ord ?b5 q)) = (\<lambda>q. ord_next (ord b q))(p := Some p)"
    and "(\<lambda>q. ord_prev (ord ?b5 q)) = (\<lambda>q. ord_prev (ord b q))(p := Some p)"
    by (auto simp: fun_eq_iff)
  moreover have "lvl ?b5 = (lvl b)(?l := \<lparr>lvl_side = ord_side (ord b p), lvl_price = ord_price (ord b p),
        lvl_first_order = Some p, lvl_prev = Some ?l, lvl_next = Some ?l\<rparr>)"
    by (auto simp: fun_eq_iff)
  ultimately show thesis
    using eq pool free by (intro that [of ?b5]) (simp_all add: l pool_live_alloc pool_inv_alloc)
qed

section \<open>Removing an order\<close>

definition orders_without :: "nat \<Rightarrow> MEOrderBook \<Rightarrow> MEOrderBook \<Rightarrow> bool" where
  "orders_without p b b' \<longleftrightarrow> (\<forall>q. ord_data (ord b' q) = ord_data (ord b q)) \<and>
     (\<forall>q. pool_live (order_pool b') q = (pool_live (order_pool b) q \<and> q \<noteq> p)) \<and>
     (pool_inv (order_pool b) \<longrightarrow> pool_inv (order_pool b')) \<and>
     pool_size (order_pool b') = pool_size (order_pool b) \<and>
     next_free_index (order_pool b') = next_free_index (order_pool b) \<and>
     bid_levels_head b' = bid_levels_head b \<and> ask_levels_head b' = ask_levels_head b \<and>
     next_market_order_id b' = next_market_order_id b \<and>
     pool_size (price_levels_pool b') = pool_size (price_levels_pool b) \<and>
     next_free_index (price_levels_pool b') = next_free_index (price_levels_pool b) \<and>
     (pool_inv (price_levels_pool b) \<longrightarrow> pool_inv (price_levels_pool b')) \<and>
     client_orders b' = (client_orders b)(unat (ord_clientId (ord b p)) :=
       (client_orders b (unat (ord_clientId (ord b p))))(unat (ord_client_orderId (ord b p)) := None))"

lemma removeOrder_last:
  assumes self: "ord_prev (ord b p) = Some p"
    and level: "getPriceLevel b (ord_price (ord b p)) = Some l" and alone: "lvl_next (lvl b l) = Some l"
    and live: "pool_live (price_levels_pool b) l" "pool_live (order_pool b) p"
    and bounds: "unat (ord_clientId (ord b p)) < ME_MAX_NUM_CLIENTS"
      "unat (ord_client_orderId (ord b p)) < ME_MAX_ORDER_IDS"
  shows "\<exists>b'. removeOrder b p = Inr b' \<and> orders_without p b b' \<and>
    (\<forall>q. ord b' q = ord b q) \<and> lvl b' = lvl b \<and>
    price_levels b' = (price_levels b)(priceToIndex (ord_price (ord b p)) := None) \<and>
    (\<forall>x. pool_live (price_levels_pool b') x = (pool_live (price_levels_pool b) x \<and> x \<noteq> l))"
proof -
  let ?b1 = "b\<lparr>price_levels := (price_levels b)(priceToIndex (ord_price (ord b p)) := None),
    price_levels_pool := pool_free (price_levels_pool b) l\<rparr>"
  let ?b2 = "?b1\<lparr>client_orders := (client_orders b)(unat (ord_clientId (ord b p)) :=
      (client_orders b (unat (ord_clientId (ord b p))))(unat (ord_client_orderId (ord b p)) := None))\<rparr>"
  let ?b3 = "?b2\<lparr>order_pool := pool_free (order_pool b) p\<rparr>"
  have "removePriceLevel b (ord_side (ord b p)) (ord_price (ord b p)) = Inr ?b1"
    using level alone live by (simp add: removePriceLevel_def Let_def deallocate_eq)
  then have "removeOrder b p = Inr ?b3"
    using self bounds live by (simp add: removeOrder_def Let_def put_client_order_eq deallocate_eq)
  moreover have "orders_without p b ?b3"
    by (auto simp: orders_without_def pool_inv_free)
  moreover have "\<forall>q. ord ?b3 q = ord b q" and "lvl ?b3 = lvl b"
    by (auto simp: fun_eq_iff)
  ultimately show ?thesis by (intro exI [of _ ?b3]) simp
qed

lemma removeOrder_unlink:
  assumes links: "ord_prev (ord b p) = Some a" "a \<noteq> p" "ord_next (ord b p) = Some r" "r \<noteq> p"
    and level: "getPriceLevel b (ord_price (ord b p)) = Some l"
    and live: "pool_live (order_pool b) p"
    and bounds: "unat (ord_clientId (ord b p)) < ME_MAX_NUM_CLIENTS"
      "unat (ord_client_orderId (ord b p)) < ME_MAX_ORDER_IDS"
  shows "\<exists>b'. removeOrder b p = Inr b' \<and> orders_without p b b' \<and>
    (\<lambda>q. ord_next (ord b' q)) = (\<lambda>q. ord_next (ord b q))(a := Some r) \<and>
    (\<lambda>q. ord_prev (ord b' q)) = (\<lambda>q. ord_prev (ord b q))(r := Some a) \<and>
    lvl b' = (if lvl_first_order (lvl b l) = Some p
      then (lvl b)(l := (lvl b l)\<lparr>lvl_first_order := Some r\<rparr>) else lvl b) \<and>
    price_levels b' = price_levels b \<and>
    pool_live (price_levels_pool b') = pool_live (price_levels_pool b)"
proof -
  let ?b1 = "upd_ord b a (ord_next_update (\<lambda>_. Some r))"
  let ?b2 = "upd_ord ?b1 r (ord_prev_update (\<lambda>_. Some a))"
  let ?b3 = "if lvl_first_order (lvl ?b2 l) = Some p
    then upd_lvl ?b2 l (lvl_first_order_update (\<lambda>_. Some r)) else ?b2"
  let ?b4 = "?b3\<lparr>client_orders := (client_orders b)(unat (ord_clientId (ord b p)) :=
      (client_orders b (unat (ord_clientId (ord b p))))(unat (ord_client_orderId (ord b p)) := None))\<rparr>"
  let ?b5 = "?b4\<lparr>order_pool := pool_free (order_pool ?b4) p\<rparr>"
  have fields: "client_orders ?b3 = client_orders b" "price_levels ?b3 = price_levels b"
    "pool_live (order_pool ?b3) = pool_live (order_pool b)"
    "pool_inv (order_pool ?b3) = pool_inv (order_pool b)"
    "pool_live (price_levels_pool ?b3) = pool_live (price_levels_pool b)" by simp_all
  have data: "ord_data (ord ?b3 q) = ord_data (ord b q)" for q by simp
  have same: "ord_clientId (ord ?b3 p) = ord_clientId (ord b p)"
    "ord_client_orderId (ord ?b3 p) = ord_client_orderId (ord b p)"
    using ord_data_eqD [OF data, of p] by simp_all
  have "removeOrder b p =
    bindR (put_client_order ?b3 (ord_clientId (ord ?b3 p)) (ord_client_orderId (ord ?b3 p)) None)
          (\<lambda>b''. bindR (deallocate (order_pool b'') p) (\<lambda>pool'. Inr (b''\<lparr>order_pool := pool'\<rparr>)))"
    unfolding removeOrder_def using links level by (simp add: Let_def)
  also have "\<dots> = Inr ?b5"
    using bounds live unfolding same
    by (subst put_client_order_eq) (simp_all add: deallocate_eq)
  finally have "removeOrder b p = Inr ?b5" .
  moreover have "orders_without p b ?b5"
    using data by (auto simp: orders_without_def pool_inv_free)
  moreover have "(\<lambda>q. ord_next (ord ?b5 q)) = (\<lambda>q. ord_next (ord b q))(a := Some r)"
    and "(\<lambda>q. ord_prev (ord ?b5 q)) = (\<lambda>q. ord_prev (ord b q))(r := Some a)"
    by (auto simp: fun_eq_iff)
  moreover have "lvl ?b5 = (if lvl_first_order (lvl b l) = Some p
      then (lvl b)(l := (lvl b l)\<lparr>lvl_first_order := Some r\<rparr>) else lvl b)"
    by (auto simp: fun_eq_iff)
  moreover have "price_levels ?b5 = price_levels b"
    "pool_live (price_levels_pool ?b5) = pool_live (price_levels_pool b)" using fields by simp_all
  ultimately show ?thesis by (intro exI [of _ ?b5] conjI)
qed

section \<open>Insertion keeps the invariant\<close>

lemma ord_eqI:
  "ord_data r = ord_data s \<Longrightarrow> ord_next r = ord_next s \<Longrightarrow> ord_prev r = ord_prev s \<Longrightarrow> r = s"
  by (cases r; cases s) (simp add: ord_data_def)

lemma book_invD:
  assumes "book_inv b"
  shows "bid_levels_head b = None" "ask_levels_head b = None"
    "pool_inv (order_pool b)" "pool_size (order_pool b) = ME_MAX_ORDER_IDS"
    "pool_inv (price_levels_pool b)" "pool_size (price_levels_pool b) = ME_MAX_PRICE_LEVELS"
    "i < ME_MAX_PRICE_LEVELS \<Longrightarrow> level_ok b i"
    "pool_live (order_pool b) p \<Longrightarrow> order_ok p (ord b p)" "clients_ok b"
  using assms by (simp_all add: book_inv_def pools_ok_def)

lemma level_some_ring:
  "level_ok b i \<Longrightarrow> resting b i \<noteq> [] \<Longrightarrow>
   (\<exists>l. price_levels b i = Some l) \<and> ring_ok b (resting b i)"
  by (auto simp: level_ok_def split: option.splits)

lemma level_none_iff: "level_ok b i \<Longrightarrow> price_levels b i = None \<longleftrightarrow> resting b i = []"
  by (auto simp: level_ok_def ring_ok_def split: option.splits)

text \<open>The priority the next order at an index gets.\<close>

definition next_priority :: "MEOrderBook \<Rightarrow> nat \<Rightarrow> Priority" where
  "next_priority b i = (if resting b i = [] then 1 else ord_priority (ord b (last (resting b i))) + 1)"

lemma getNextPriority_eq:
  assumes "book_inv b"
  shows "getNextPriority b price = Inr (next_priority b (priceToIndex price))"
proof -
  let ?i = "priceToIndex price"
  have ok: "level_ok b ?i" by (rule book_invD(7) [OF assms]) simp
  show ?thesis
  proof (cases "price_levels b ?i")
    case None
    then show ?thesis using level_none_iff [OF ok]
      by (simp add: getNextPriority_def getPriceLevel_def next_priority_def)
  next
    case (Some l)
    then have ne: "resting b ?i \<noteq> []" using level_none_iff [OF ok] by auto
    have "lvl_first_order (lvl b l) = Some (hd (resting b ?i))" and ring: "ring_ok b (resting b ?i)"
      using ok Some by (simp_all add: level_ok_def)
    moreover have "ord_prev (ord b (hd (resting b ?i))) = Some (last (resting b ?i))"
      using ring cring_hd_prev by (fastforce simp: ring_ok_def)
    ultimately show ?thesis using Some ne
      by (simp add: getNextPriority_def getPriceLevel_def next_priority_def)
  qed
qed

lemma next_priority_bounds:
  assumes inv: "book_inv b"
  shows "1 \<le> unat (next_priority b i)"
    and "unat (next_priority b i) \<le> Suc (next_free_index (order_pool b))"
    and "q \<in> set (resting b i) \<Longrightarrow> i < ME_MAX_PRICE_LEVELS \<Longrightarrow> ord_priority (ord b q) < next_priority b i"
proof -
  let ?os = "resting b i" and ?n = "next_free_index (order_pool b)"
  have pinv: "pool_inv (order_pool b)" and size: "pool_size (order_pool b) = ME_MAX_ORDER_IDS"
    using book_invD [OF inv] by simp_all
  have small: "?n < 2 ^ 20" using pinv size by (simp add: pool_inv_def limit_defs)
  have last: "unat (next_priority b i) = Suc (unat (ord_priority (ord b (last ?os))))"
    and last_le: "unat (ord_priority (ord b (last ?os))) \<le> ?n" if "?os \<noteq> []"
  proof -
    have "last ?os \<in> set ?os" using that by simp
    then have live: "pool_live (order_pool b) (last ?os)"
      using set_resting [OF pinv] by (simp add: at_index_def)
    then have ok: "order_ok (last ?os) (ord b (last ?os))" using book_invD(8) [OF inv] by blast
    moreover have "last ?os < ?n" by (rule pool_live_less [OF pinv live])
    ultimately show le: "unat (ord_priority (ord b (last ?os))) \<le> ?n" by (simp add: order_ok_def)
    have "unat (ord_priority (ord b (last ?os)) + 1) = Suc (unat (ord_priority (ord b (last ?os))))"
      using le small by (subst unat_word_ariths) simp
    then show "unat (next_priority b i) = Suc (unat (ord_priority (ord b (last ?os))))"
      using that by (simp add: next_priority_def)
  qed
  show "1 \<le> unat (next_priority b i)"
    using last by (cases "?os = []") (simp_all add: next_priority_def)
  show "unat (next_priority b i) \<le> Suc ?n"
    using last last_le by (cases "?os = []") (simp_all add: next_priority_def)
  assume q: "q \<in> set ?os" and i: "i < ME_MAX_PRICE_LEVELS"
  then have ne: "?os \<noteq> []" by auto
  have srt: "sorted_wrt (\<lambda>p q. ord_priority (ord b p) < ord_priority (ord b q)) ?os"
    using level_some_ring [OF book_invD(7) [OF inv i] ne] by (simp add: ring_ok_def)
  have "q = last ?os \<or> ord_priority (ord b q) < ord_priority (ord b (last ?os))"
    by (rule sorted_wrt_last [OF srt q])
  then have "unat (ord_priority (ord b q)) \<le> unat (ord_priority (ord b (last ?os)))"
    by (auto simp: word_less_nat_alt)
  then show "ord_priority (ord b q) < next_priority b i"
    using last [OF ne] by (simp add: word_less_nat_alt)
qed

text \<open>
  The state after \<open>addOrder\<close>, described field by field against the book \<open>b\<close> before the new
  order \<open>p\<close> with data \<open>x\<close> was allocated.
\<close>

lemma inserted_resting:
  assumes inv: "book_inv b" and p: "p = next_free_index (order_pool b)"
    and live: "\<And>q. pool_live (order_pool b') q = (pool_live (order_pool b) q \<or> q = p)"
    and next': "next_free_index (order_pool b') = Suc p"
    and data: "\<And>q. q \<noteq> p \<Longrightarrow> ord_data (ord b' q) = ord_data (ord b q)"
    and data_p: "ord_data (ord b' p) = ord_data x"
  shows "resting b' j = (if j = priceToIndex (ord_price x) then resting b j @ [p] else resting b j)"
proof -
  have "at_index b' j q = at_index b j q" if "q < p" for q
    using that live [of q] ord_data_eqD(6) [OF data, of q] by (simp add: at_index_def)
  then have old: "filter (at_index b' j) [0..<p] = resting b j"
    unfolding resting_def p by (intro filter_cong) (auto simp: p)
  have "at_index b' j p = (j = priceToIndex (ord_price x))"
    using live [of p] ord_data_eqD(6) [OF data_p] by (auto simp: at_index_def)
  then show ?thesis using old by (simp add: resting_def next')
qed

lemma book_inv_inserted:
  assumes inv: "book_inv b" and p: "p = next_free_index (order_pool b)"
    and i: "i = priceToIndex (ord_price x)" and x: "order_ok p x" and prio: "ord_priority x = next_priority b i"
    and live: "\<And>q. pool_live (order_pool b') q = (pool_live (order_pool b) q \<or> q = p)"
    and next': "next_free_index (order_pool b') = Suc p"
    and data: "\<And>q. q \<noteq> p \<Longrightarrow> ord_data (ord b' q) = ord_data (ord b q)"
    and data_p: "ord_data (ord b' p) = ord_data x"
    and links: "\<And>q. q \<notin> set (resting b i) \<Longrightarrow> q \<noteq> p \<Longrightarrow> ord b' q = ord b q"
    and ring: "cring (\<lambda>q. ord_next (ord b' q)) (\<lambda>q. ord_prev (ord b' q)) (resting b i @ [p])"
    and heads: "bid_levels_head b' = None" "ask_levels_head b' = None" and pools: "pools_ok b'"
    and others: "\<And>j. j \<noteq> i \<Longrightarrow> price_levels b' j = price_levels b j"
      "\<And>j l. j \<noteq> i \<Longrightarrow> j < ME_MAX_PRICE_LEVELS \<Longrightarrow> price_levels b j = Some l \<Longrightarrow> lvl b' l = lvl b l \<and>
        pool_live (price_levels_pool b') l = pool_live (price_levels_pool b) l"
    and level: "price_levels b' i = Some l" "pool_live (price_levels_pool b') l"
      "priceToIndex (lvl_price (lvl b' l)) = i" "lvl_prev (lvl b' l) = Some l"
      "lvl_next (lvl b' l) = Some l" "lvl_first_order (lvl b' l) = Some (hd (resting b i @ [p]))"
    and clients: "client_orders b' = (client_orders b)(unat (ord_clientId x) :=
      (client_orders b (unat (ord_clientId x)))(unat (ord_client_orderId x) := Some p))"
  shows "book_inv b'"
proof -
  have pinv: "pool_inv (order_pool b)" by (rule book_invD(3) [OF inv])
  have resting': "resting b' j = (if j = i then resting b j @ [p] else resting b j)" for j
    unfolding i by (rule inserted_resting [OF inv p live next' data data_p])
  have fresh: "\<not> pool_live (order_pool b) p" unfolding p by (rule pool_next_not_live [OF pinv])
  have p_notin: "p \<notin> set (resting b j)" for j
    using fresh set_resting [OF pinv] by (simp add: at_index_def)
  have "level_ok b' j" if j: "j < ME_MAX_PRICE_LEVELS" for j
  proof (cases "j = i")
    case False
    have "level_ok b' j = level_ok b j"
    proof (rule level_ok_cong)
      fix q assume q: "q \<in> set (resting b j)"
      then have "q \<noteq> p" using p_notin by blast
      moreover have "q \<notin> set (resting b i)" using q False resting_disjoint by blast
      ultimately show "ord b' q = ord b q" using links by blast
    qed (use False others resting' j in auto)
    then show ?thesis using book_invD(7) [OF inv j] by simp
  next
    case True
    have "sorted_wrt (\<lambda>q r. ord_priority (ord b' q) < ord_priority (ord b' r)) (resting b i @ [p])"
    proof -
      have prio': "ord_priority (ord b' q) = ord_priority (ord b q)" if "q \<in> set (resting b i)" for q
        using ord_data_eqD(8) [OF data, of q] that p_notin by blast
      have "sorted_wrt (\<lambda>q r. ord_priority (ord b q) < ord_priority (ord b r)) (resting b i)"
        using level_some_ring [OF book_invD(7) [OF inv j [unfolded True]]]
        by (cases "resting b i = []") (auto simp: ring_ok_def)
      then have "sorted_wrt (\<lambda>q r. ord_priority (ord b' q) < ord_priority (ord b' r)) (resting b i)"
        by (rule sorted_wrt_mono_rel [rotated]) (simp add: prio')
      moreover have "ord_priority (ord b' q) < ord_priority (ord b' p)" if "q \<in> set (resting b i)" for q
        using next_priority_bounds(3) [OF inv that] j True prio ord_data_eqD(8) [OF data_p] prio' [OF that]
        by simp
      ultimately show ?thesis by (simp add: sorted_wrt_append)
    qed
    then have "ring_ok b' (resting b' i)" using ring resting' by (simp add: ring_ok_def)
    then show ?thesis using level True resting' by (simp add: level_ok_def)
  qed
  moreover have "order_ok q (ord b' q)" if q: "pool_live (order_pool b') q" for q
  proof (cases "q = p")
    case True
    then show ?thesis using x order_ok_data [OF data_p, of p] by simp
  next
    case False
    then show ?thesis using q live order_ok_data [OF data, of q q] book_invD(8) [OF inv, of q] by simp
  qed
  moreover have "clients_ok b'"
    unfolding clients_ok_def
  proof (intro allI impI)
    fix c k q
    assume ck: "c < ME_MAX_NUM_CLIENTS" "k < ME_MAX_ORDER_IDS" and q: "client_orders b' c k = Some q"
    show "pool_live (order_pool b') q \<and> unat (ord_clientId (ord b' q)) = c \<and>
      unat (ord_client_orderId (ord b' q)) = k"
    proof (cases "c = unat (ord_clientId x) \<and> k = unat (ord_client_orderId x)")
      case True
      then show ?thesis using q live ord_data_eqD [OF data_p] by (simp add: clients)
    next
      case False
      then have "client_orders b c k = Some q" using q by (auto simp: clients split: if_splits)
      then have old: "pool_live (order_pool b) q" "unat (ord_clientId (ord b q)) = c"
        "unat (ord_client_orderId (ord b q)) = k"
        using book_invD(9) [OF inv] ck by (auto simp: clients_ok_def)
      then have "q \<noteq> p" using fresh by blast
      then show ?thesis using old live ord_data_eqD [OF data, of q] by simp
    qed
  qed
  ultimately show ?thesis using heads pools by (simp add: book_inv_def)
qed

text \<open>What inserting the order with data \<open>x\<close> as pointer \<open>p\<close> makes of the book.\<close>

definition inserted :: "MEOrderBook \<Rightarrow> MEOrder \<Rightarrow> MEOrderBook \<Rightarrow> bool" where
  "inserted b x b' \<longleftrightarrow> (let p = next_free_index (order_pool b); i = priceToIndex (ord_price x) in
     book_inv b' \<and> resting b' = (resting b)(i := resting b i @ [p]) \<and>
     ord_data (ord b' p) = ord_data x \<and> (\<forall>q. q \<noteq> p \<longrightarrow> ord_data (ord b' q) = ord_data (ord b q)) \<and>
     next_free_index (order_pool b') = Suc p \<and>
     next_free_index (price_levels_pool b') = (if resting b i = []
       then Suc (next_free_index (price_levels_pool b)) else next_free_index (price_levels_pool b)) \<and>
     next_market_order_id b' = next_market_order_id b \<and>
     client_orders b' = (client_orders b)(unat (ord_clientId x) :=
       (client_orders b (unat (ord_clientId x)))(unat (ord_client_orderId x) := Some p)))"

lemma addOrder_inserted:
  assumes inv: "book_inv b" and p: "p = next_free_index (order_pool b)"
    and room: "Suc p < ME_MAX_ORDER_IDS"
    and bounds: "unat (ord_clientId x) < ME_MAX_NUM_CLIENTS"
      "unat (ord_client_orderId x) < ME_MAX_ORDER_IDS" and qty: "ord_qty x \<noteq> 0"
    and prio: "ord_priority x = next_priority b (priceToIndex (ord_price x))"
    and lroom: "resting b (priceToIndex (ord_price x)) = [] \<Longrightarrow>
      Suc (next_free_index (price_levels_pool b)) < ME_MAX_PRICE_LEVELS"
  shows "\<exists>b'. addOrder (b\<lparr>order_pool := pool_alloc (order_pool b) x\<rparr>) p = Inr b' \<and> inserted b x b'"
proof -
  let ?i = "priceToIndex (ord_price x)" and ?b1 = "b\<lparr>order_pool := pool_alloc (order_pool b) x\<rparr>"
  let ?os = "resting b ?i"
  note I = book_invD [OF inv]
  have i: "?i < ME_MAX_PRICE_LEVELS" by simp
  have free: "next_free_index (order_pool b) < pool_size (order_pool b)" using I(3) by (simp add: pool_inv_def)
  have ord1: "ord ?b1 = (ord b)(p := x)" by (auto simp: fun_eq_iff p)
  have ordp: "ord ?b1 p = x" by (simp add: ord1)
  have b1_fields: "price_levels ?b1 = price_levels b" "price_levels_pool ?b1 = price_levels_pool b"
    "client_orders ?b1 = client_orders b" "lvl ?b1 = lvl b"
    "bid_levels_head ?b1 = bid_levels_head b" "ask_levels_head ?b1 = ask_levels_head b" by simp_all
  have live1: "pool_live (order_pool ?b1) q = (pool_live (order_pool b) q \<or> q = p)" for q
    using free by (simp add: pool_live_alloc p)
  have pools1: "pool_inv (order_pool ?b1)" "pool_size (order_pool ?b1) = ME_MAX_ORDER_IDS"
    "next_free_index (order_pool ?b1) = Suc p"
    using I(3,4) room by (simp_all add: pool_inv_alloc p)
  have x_ok: "order_ok p x"
    using bounds qty next_priority_bounds(1,2) [OF inv, of ?i] by (simp add: order_ok_def prio p)
  have level1: "getPriceLevel ?b1 (ord_price x) = price_levels b ?i"
    by (simp add: getPriceLevel_def)
  have p_notin: "p \<notin> set ?os"
    using set_resting [OF I(3)] pool_next_not_live [OF I(3)] by (simp add: at_index_def p)
  show ?thesis
  proof (cases "price_levels b ?i")
    case None
    then have nil: "?os = []" using level_none_iff [OF I(7) [OF i]] by simp
    let ?l = "next_free_index (price_levels_pool b)"
    have lroom': "Suc ?l < pool_size (price_levels_pool b)" using lroom [OF nil] I(6) by simp
    obtain b' where run: "addOrder ?b1 p = Inr b'" and same: "same_orders ?b1 b'"
      and nx: "(\<lambda>q. ord_next (ord b' q)) = (\<lambda>q. ord_next (ord ?b1 q))(p := Some p)"
      and pv: "(\<lambda>q. ord_prev (ord b' q)) = (\<lambda>q. ord_prev (ord ?b1 q))(p := Some p)"
      and pl: "price_levels b' = (price_levels b)(?i := Some ?l)"
      and lv: "lvl b' = (lvl b)(?l := \<lparr>lvl_side = ord_side x, lvl_price = ord_price x,
        lvl_first_order = Some p, lvl_prev = Some ?l, lvl_next = Some ?l\<rparr>)"
      and ll: "\<And>l. pool_live (price_levels_pool b') l = (pool_live (price_levels_pool b) l \<or> l = ?l)"
      and lp: "pool_inv (price_levels_pool b')"
        "pool_size (price_levels_pool b') = pool_size (price_levels_pool b)"
        "next_free_index (price_levels_pool b') = Suc ?l"
      and cl: "client_orders b' = (client_orders b)(unat (ord_clientId x) :=
        (client_orders b (unat (ord_clientId x)))(unat (ord_client_orderId x) := Some p))"
      by (rule addOrder_new_level [of ?b1 p ?l, unfolded ordp b1_fields,
            OF level1 [unfolded None] I(1,2,5) lroom' bounds refl]) (rule that)
    have data: "ord_data (ord b' q) = ord_data (ord ?b1 q)" for q
      using same by (simp add: same_orders_def)
    have "book_inv b'"
    proof (rule book_inv_inserted [OF inv p refl x_ok prio, where l = ?l and b' = b'])
      show "cring (\<lambda>q. ord_next (ord b' q)) (\<lambda>q. ord_prev (ord b' q)) (?os @ [p])"
        using fun_cong [OF nx, of p] fun_cong [OF pv, of p] by (simp add: nil)
      fix q assume "q \<noteq> p"
      then show "ord b' q = ord b q"
        using data [of q] fun_cong [OF nx, of q] fun_cong [OF pv, of q]
        by (rule_tac ord_eqI) (simp_all add: ord1)
    next
      fix j l assume "j \<noteq> ?i" and "j < ME_MAX_PRICE_LEVELS" and "price_levels b j = Some l"
      then have "l \<noteq> ?l"
        using I(7) [of j] pool_next_not_live [OF I(5)] by (auto simp: level_ok_def)
      then show "lvl b' l = lvl b l \<and> pool_live (price_levels_pool b') l = pool_live (price_levels_pool b) l"
        by (simp add: lv ll)
    qed (use data same pools1 live1 I lp in \<open>auto simp: same_orders_def pools_ok_def ord1 pl lv ll nil cl\<close>)
    moreover have "resting b' = (resting b)(?i := ?os @ [p])"
      using inserted_resting [OF inv p, of b' x] data same pools1 live1
      by (auto simp: fun_eq_iff same_orders_def ord1)
    ultimately have "inserted b x b'"
      using data same pools1 lp by (simp add: inserted_def Let_def same_orders_def ord1 p nil cl)
    with run show ?thesis by blast
  next
    case (Some l)
    then have ne: "?os \<noteq> []" using level_none_iff [OF I(7) [OF i]] by auto
    have lok: "pool_live (price_levels_pool b) l" "priceToIndex (lvl_price (lvl b l)) = ?i"
      "lvl_prev (lvl b l) = Some l" "lvl_next (lvl b l) = Some l"
      "lvl_first_order (lvl b l) = Some (hd ?os)" and ring: "ring_ok b ?os"
      using I(7) [OF i] Some by (simp_all add: level_ok_def)
    have cr: "cring (\<lambda>q. ord_next (ord b q)) (\<lambda>q. ord_prev (ord b q)) ?os" using ring by (simp add: ring_ok_def)
    have hd_p: "p \<noteq> hd ?os" and mem: "hd ?os \<in> set ?os" "last ?os \<in> set ?os"
      using ne p_notin by auto
    have last: "ord_prev (ord ?b1 (hd ?os)) = Some (last ?os)"
      using cring_hd_prev [OF cr] hd_p by (simp add: ord1)
    obtain b' where run: "addOrder ?b1 p = Inr b'" and same: "same_orders ?b1 b'"
      and nx: "(\<lambda>q. ord_next (ord b' q)) = (\<lambda>q. ord_next (ord ?b1 q))(last ?os := Some p, p := Some (hd ?os))"
      and pv: "(\<lambda>q. ord_prev (ord b' q)) = (\<lambda>q. ord_prev (ord ?b1 q))(p := Some (last ?os), hd ?os := Some p)"
      and pl: "price_levels b' = price_levels b" "price_levels_pool b' = price_levels_pool b"
      and cl: "client_orders b' = (client_orders b)(unat (ord_clientId x) :=
        (client_orders b (unat (ord_clientId x)))(unat (ord_client_orderId x) := Some p))"
      by (rule addOrder_append [of ?b1 p l "hd ?os" "last ?os", unfolded ordp b1_fields,
            OF level1 [unfolded Some] lok(5) last hd_p bounds]) (rule that)
    have data: "ord_data (ord b' q) = ord_data (ord ?b1 q)" for q
      using same by (simp add: same_orders_def)
    have lv: "lvl b' = lvl b" by (intro ext) (simp only: lvl_def pl)
    have "book_inv b'"
    proof (rule book_inv_inserted [OF inv p refl x_ok prio, where l = l and b' = b'])
      have old: "ord ?b1 q = ord b q" if "q \<in> set ?os" for q using that p_notin by (auto simp: ord1)
      have "cring (\<lambda>q. ord_next (ord ?b1 q)) (\<lambda>q. ord_prev (ord ?b1 q)) ?os =
        cring (\<lambda>q. ord_next (ord b q)) (\<lambda>q. ord_prev (ord b q)) ?os"
        by (rule cring_cong) (simp_all only: old)
      with cr have "cring (\<lambda>q. ord_next (ord ?b1 q)) (\<lambda>q. ord_prev (ord ?b1 q)) ?os" by (simp only:)
      from cring_append [OF this resting_distinct p_notin]
      show "cring (\<lambda>q. ord_next (ord b' q)) (\<lambda>q. ord_prev (ord b' q)) (?os @ [p])" by (simp add: nx pv)
      fix q assume q: "q \<notin> set ?os" "q \<noteq> p"
      then have "q \<noteq> hd ?os" "q \<noteq> last ?os" using mem by auto
      then show "ord b' q = ord b q"
        using q data [of q] fun_cong [OF nx, of q] fun_cong [OF pv, of q]
        by (rule_tac ord_eqI) (simp_all add: ord1)
    qed (use data same pools1 live1 I lok Some in \<open>auto simp: same_orders_def pools_ok_def ord1 pl lv ne cl\<close>)
    moreover have "resting b' = (resting b)(?i := ?os @ [p])"
      using inserted_resting [OF inv p, of b' x] data same pools1 live1
      by (auto simp: fun_eq_iff same_orders_def ord1)
    ultimately have "inserted b x b'"
      using data same pools1 by (simp add: inserted_def Let_def same_orders_def ord1 p ne pl cl)
    with run show ?thesis by blast
  qed
qed

section \<open>Removal keeps the invariant\<close>

definition removed :: "MEOrderBook \<Rightarrow> nat \<Rightarrow> MEOrderBook \<Rightarrow> bool" where
  "removed b p b' \<longleftrightarrow> book_inv b' \<and> (\<forall>j. resting b' j = filter (\<lambda>q. q \<noteq> p) (resting b j)) \<and>
     (\<forall>q. ord_data (ord b' q) = ord_data (ord b q)) \<and>
     next_free_index (order_pool b') = next_free_index (order_pool b) \<and>
     next_free_index (price_levels_pool b') = next_free_index (price_levels_pool b) \<and>
     next_market_order_id b' = next_market_order_id b \<and>
     client_orders b' = (client_orders b)(unat (ord_clientId (ord b p)) :=
       (client_orders b (unat (ord_clientId (ord b p))))(unat (ord_client_orderId (ord b p)) := None))"

lemma removed_resting:
  assumes "orders_without p b b'"
  shows "resting b' j = filter (\<lambda>q. q \<noteq> p) (resting b j)"
proof -
  have data: "ord_data (ord b' q) = ord_data (ord b q)"
    and live: "pool_live (order_pool b') q = (pool_live (order_pool b) q \<and> q \<noteq> p)" for q
    using assms by (simp_all add: orders_without_def)
  have "at_index b' j q = (q \<noteq> p \<and> at_index b j q)" for q
    using live [of q] ord_data_eqD(6) [OF data, of q] by (auto simp: at_index_def)
  then have "at_index b' j = (\<lambda>q. q \<noteq> p \<and> at_index b j q)" by blast
  moreover have "next_free_index (order_pool b') = next_free_index (order_pool b)"
    using assms by (simp add: orders_without_def)
  ultimately show ?thesis by (simp add: resting_def conj_commute)
qed

lemma book_inv_removed:
  assumes inv: "book_inv b" and without: "orders_without p b b'"
    and i: "i = priceToIndex (ord_price (ord b p))" and p: "pool_live (order_pool b) p"
    and links: "\<And>q. q \<notin> set (resting b i) \<Longrightarrow> ord b' q = ord b q"
    and others: "\<And>j. j \<noteq> i \<Longrightarrow> price_levels b' j = price_levels b j"
      "\<And>j l. j \<noteq> i \<Longrightarrow> j < ME_MAX_PRICE_LEVELS \<Longrightarrow> price_levels b j = Some l \<Longrightarrow> lvl b' l = lvl b l \<and>
        pool_live (price_levels_pool b') l = pool_live (price_levels_pool b) l"
    and level: "case price_levels b' i of None \<Rightarrow> resting b i = [p]
     | Some l \<Rightarrow> pool_live (price_levels_pool b') l \<and> priceToIndex (lvl_price (lvl b' l)) = i \<and>
       lvl_prev (lvl b' l) = Some l \<and> lvl_next (lvl b' l) = Some l \<and>
       lvl_first_order (lvl b' l) = Some (hd (filter (\<lambda>q. q \<noteq> p) (resting b i))) \<and>
       cring (\<lambda>q. ord_next (ord b' q)) (\<lambda>q. ord_prev (ord b' q)) (filter (\<lambda>q. q \<noteq> p) (resting b i))"
  shows "removed b p b'"
proof -
  note I = book_invD [OF inv]
  have resting': "resting b' j = filter (\<lambda>q. q \<noteq> p) (resting b j)" for j
    by (rule removed_resting [OF without])
  have data: "ord_data (ord b' q) = ord_data (ord b q)"
    and live: "pool_live (order_pool b') q = (pool_live (order_pool b) q \<and> q \<noteq> p)" for q
    using without by (simp_all add: orders_without_def)
  have p_in: "p \<in> set (resting b i)" using set_resting [OF I(3)] p by (simp add: at_index_def i)
  have "level_ok b' j" if j: "j < ME_MAX_PRICE_LEVELS" for j
  proof (cases "j = i")
    case False
    then have p_out: "p \<notin> set (resting b j)" using p_in resting_disjoint by blast
    have "level_ok b' j = level_ok b j"
    proof (rule level_ok_cong)
      show "resting b' j = resting b j" using p_out by (auto simp: resting' filter_id_conv)
      fix q assume "q \<in> set (resting b j)"
      then have "q \<notin> set (resting b i)" using False resting_disjoint by blast
      then show "ord b' q = ord b q" by (rule links)
    qed (use False others j in auto)
    then show ?thesis using I(7) [OF j] by simp
  next
    case True
    have "resting b i \<noteq> []" using p_in by auto
    then have "sorted_wrt (\<lambda>q r. ord_priority (ord b q) < ord_priority (ord b r)) (resting b i)"
      using level_some_ring [OF I(7) [OF j [unfolded True]]] by (simp add: ring_ok_def)
    then have "sorted_wrt (\<lambda>q r. ord_priority (ord b' q) < ord_priority (ord b' r)) (resting b' i)"
      unfolding resting' by (intro sorted_wrt_filter) (simp add: ord_data_eqD(8) [OF data])
    then show ?thesis using level True by (auto simp: level_ok_def ring_ok_def resting' split: option.splits)
  qed
  moreover have "order_ok q (ord b' q)" if "pool_live (order_pool b') q" for q
    using that live I(8) [of q] order_ok_data [OF data, of q q] by simp
  moreover have "clients_ok b'"
    unfolding clients_ok_def
  proof (intro allI impI)
    fix c k q
    assume ck: "c < ME_MAX_NUM_CLIENTS" "k < ME_MAX_ORDER_IDS" and q: "client_orders b' c k = Some q"
    have "client_orders b c k = Some q"
      and ne: "\<not> (c = unat (ord_clientId (ord b p)) \<and> k = unat (ord_client_orderId (ord b p)))"
      using q without by (auto simp: orders_without_def split: if_splits)
    then have old: "pool_live (order_pool b) q" "unat (ord_clientId (ord b q)) = c"
      "unat (ord_client_orderId (ord b q)) = k"
      using I(9) ck by (auto simp: clients_ok_def)
    then show "pool_live (order_pool b') q \<and> unat (ord_clientId (ord b' q)) = c \<and>
      unat (ord_client_orderId (ord b' q)) = k"
      using live ne ord_data_eqD [OF data, of q] by auto
  qed
  ultimately have "book_inv b'"
    using without I by (simp add: book_inv_def pools_ok_def orders_without_def)
  then show ?thesis using resting' data without by (simp add: removed_def orders_without_def)
qed

lemma removeOrder_removed:
  assumes inv: "book_inv b" and p: "pool_live (order_pool b) p"
  shows "\<exists>b'. removeOrder b p = Inr b' \<and> removed b p b'"
proof -
  note I = book_invD [OF inv]
  define i where "i = priceToIndex (ord_price (ord b p))"
  have i: "i < ME_MAX_PRICE_LEVELS" by (simp add: i_def)
  have p_in: "p \<in> set (resting b i)" using set_resting [OF I(3)] p by (simp add: at_index_def i_def)
  then have "resting b i \<noteq> []" by auto
  then obtain l where l: "price_levels b i = Some l" and ring: "ring_ok b (resting b i)"
    using level_some_ring [OF I(7) [OF i]] by blast
  have lok: "pool_live (price_levels_pool b) l" "priceToIndex (lvl_price (lvl b l)) = i"
    "lvl_prev (lvl b l) = Some l" "lvl_next (lvl b l) = Some l"
    "lvl_first_order (lvl b l) = Some (hd (resting b i))"
    using I(7) [OF i] l by (simp_all add: level_ok_def)
  have level: "getPriceLevel b (ord_price (ord b p)) = Some l" using l by (simp add: getPriceLevel_def i_def)
  have bounds: "unat (ord_clientId (ord b p)) < ME_MAX_NUM_CLIENTS"
    "unat (ord_client_orderId (ord b p)) < ME_MAX_ORDER_IDS" using I(8) [OF p] by (simp_all add: order_ok_def)
  obtain xs ys where os: "resting b i = xs @ p # ys" using p_in by (auto simp: in_set_conv_decomp)
  have dist: "distinct (xs @ p # ys)" using resting_distinct [of b i] by (simp add: os)
  have cr: "cring (\<lambda>q. ord_next (ord b q)) (\<lambda>q. ord_prev (ord b q)) (xs @ p # ys)"
    using ring by (simp add: ring_ok_def os)
  have rest: "filter (\<lambda>q. q \<noteq> p) (resting b i) = xs @ ys"
    unfolding os by (rule filter_neq_middle [OF dist])
  have other_level: "l' \<noteq> l" if "j \<noteq> i" "j < ME_MAX_PRICE_LEVELS" "price_levels b j = Some l'" for j l'
    using I(7) [OF that(2)] that lok by (auto simp: level_ok_def)
  show ?thesis
  proof (cases "xs @ ys = []")
    case True
    then have self: "ord_prev (ord b p) = Some p" using cring_self_loop [OF cr dist] by simp
    obtain b' where run: "removeOrder b p = Inr b'" and wo: "orders_without p b b'"
      and same: "\<forall>q. ord b' q = ord b q" "lvl b' = lvl b"
      and pl: "price_levels b' = (price_levels b)(i := None)"
      and ll: "\<forall>x. pool_live (price_levels_pool b') x = (pool_live (price_levels_pool b) x \<and> x \<noteq> l)"
      using removeOrder_last [OF self level lok(4,1) p bounds] unfolding i_def by blast
    have "removed b p b'"
      by (rule book_inv_removed [OF inv wo i_def p]) (use True other_level in \<open>auto simp: same pl ll os\<close>)
    with run show ?thesis by blast
  next
    case False
    then obtain a r where a: "ord_prev (ord b p) = Some a" and r: "ord_next (ord b p) = Some r"
      and mem: "a \<in> set (xs @ ys)" "r \<in> set (xs @ ys)"
      and cr': "cring ((\<lambda>q. ord_next (ord b q))(a := Some r)) ((\<lambda>q. ord_prev (ord b q))(r := Some a)) (xs @ ys)"
      and hd: "xs = [] \<Longrightarrow> r = hd ys"
      using cring_unlink [OF cr dist False] by metis
    have ap: "a \<noteq> p" and rp: "r \<noteq> p" using mem dist by auto
    obtain b' where run: "removeOrder b p = Inr b'" and wo: "orders_without p b b'"
      and nx: "(\<lambda>q. ord_next (ord b' q)) = (\<lambda>q. ord_next (ord b q))(a := Some r)"
      and pv: "(\<lambda>q. ord_prev (ord b' q)) = (\<lambda>q. ord_prev (ord b q))(r := Some a)"
      and lv: "lvl b' = (if lvl_first_order (lvl b l) = Some p
        then (lvl b)(l := (lvl b l)\<lparr>lvl_first_order := Some r\<rparr>) else lvl b)"
      and pl: "price_levels b' = price_levels b"
        "pool_live (price_levels_pool b') = pool_live (price_levels_pool b)"
      using removeOrder_unlink [OF a ap r rp level p bounds] by blast
    have first: "lvl_first_order (lvl b' l) = Some (hd (xs @ ys))"
      using lok(5) dist hd by (cases xs) (auto simp: lv os)
    have "removed b p b'"
    proof (rule book_inv_removed [OF inv wo i_def p])
      fix q assume "q \<notin> set (resting b i)"
      then have "q \<noteq> a" "q \<noteq> r" using mem by (auto simp: os)
      then show "ord b' q = ord b q"
        using wo fun_cong [OF nx, of q] fun_cong [OF pv, of q]
        by (rule_tac ord_eqI) (simp_all add: orders_without_def)
    next
      show "case price_levels b' i of None \<Rightarrow> resting b i = [p]
        | Some l \<Rightarrow> pool_live (price_levels_pool b') l \<and> priceToIndex (lvl_price (lvl b' l)) = i \<and>
          lvl_prev (lvl b' l) = Some l \<and> lvl_next (lvl b' l) = Some l \<and>
          lvl_first_order (lvl b' l) = Some (hd (filter (\<lambda>q. q \<noteq> p) (resting b i))) \<and>
          cring (\<lambda>q. ord_next (ord b' q)) (\<lambda>q. ord_prev (ord b' q)) (filter (\<lambda>q. q \<noteq> p) (resting b i))"
        using first cr' lok by (simp add: rest pl l nx pv) (simp add: lv)
    qed (use other_level in \<open>auto simp: pl lv\<close>)
    with run show ?thesis by blast
  qed
qed

end
