(* ===== verification/MEBookSpec.thy ===== *)
theory MEBookSpec
  imports MEBookInv
begin

text \<open>
  What the public operations of the exchange's order book do, on every branch, from any state
  that satisfies the invariant, and what follows for any sequence of requests: which messages
  are sent, which orders rest, and that the lists of the ladder implement a queue per index.
\<close>

section \<open>Matching never starts\<close>

text \<open>
  Both heads of a reachable book are \<open>nullptr\<close>, since no code path stores a level in them, so
  both matching loops are left at once.
\<close>

lemma checkForMatch_no_heads:
  assumes "bid_levels_head b = None" and "ask_levels_head b = None"
  shows "checkForMatch io b clientId client_orderId tickerId side price qty market_orderId =
    Inr (io, b, qty)"
proof -
  have "loopR (match_asks_step tickerId clientId client_orderId market_orderId price) (io, b, qty) =
      Inr (io, b, qty)"
    by (rule loopR_Return) (simp add: match_asks_step_def assms)
  moreover have "loopR (match_bids_step tickerId clientId client_orderId market_orderId price) (io, b, qty) =
      Inr (io, b, qty)"
    by (rule loopR_Return) (simp add: match_bids_step_def assms)
  ultimately show ?thesis by (simp add: checkForMatch_def)
qed

section \<open>Adding\<close>

definition accepted_response ::
    "ClientId \<Rightarrow> OrderId \<Rightarrow> TickerId \<Rightarrow> Side \<Rightarrow> Price \<Rightarrow> Qty \<Rightarrow> OrderId \<Rightarrow> MEClientResponse" where
  "accepted_response clientId client_orderId tickerId side price qty market_orderId =
     \<lparr>rs_type = ACCEPTED, rs_clientId = clientId, rs_tickerId = tickerId,
      rs_client_order_id = client_orderId, rs_marker_order_id = market_orderId,
      rs_side = side, rs_price = price, rs_exec_qty = 0, rs_left_qty = qty\<rparr>"

definition add_update ::
    "OrderId \<Rightarrow> TickerId \<Rightarrow> Side \<Rightarrow> Price \<Rightarrow> Qty \<Rightarrow> Priority \<Rightarrow> MEMarketUpdate" where
  "add_update market_orderId tickerId side price qty priority =
     \<lparr>mu_type = ADD, mu_orderId = market_orderId, mu_tickerId = tickerId, mu_side = side,
      mu_price = price, mu_qty = qty, mu_priority = priority\<rparr>"

definition new_order ::
    "MEOrderBook \<Rightarrow> ClientId \<Rightarrow> OrderId \<Rightarrow> TickerId \<Rightarrow> Side \<Rightarrow> Price \<Rightarrow> Qty \<Rightarrow> MEOrder" where
  "new_order b clientId client_orderId tickerId side price qty =
     \<lparr>ord_tickerId = tickerId, ord_clientId = clientId, ord_client_orderId = client_orderId,
      ord_market_orderId = next_market_order_id b, ord_side = side, ord_price = price,
      ord_qty = qty, ord_priority = next_priority b (priceToIndex price),
      ord_prev = None, ord_next = None\<rparr>"

text \<open>Whether the next new order finds a block in each pool it needs.\<close>

definition has_room :: "MEOrderBook \<Rightarrow> Price \<Rightarrow> bool" where
  "has_room b price \<longleftrightarrow> Suc (next_free_index (order_pool b)) < ME_MAX_ORDER_IDS \<and>
     (resting b (priceToIndex price) = [] \<longrightarrow>
      Suc (next_free_index (price_levels_pool b)) < ME_MAX_PRICE_LEVELS)"

lemma book_inv_next_id [simp]:
  "book_inv (b\<lparr>next_market_order_id := m\<rparr>) = book_inv b"
  "resting (b\<lparr>next_market_order_id := m\<rparr>) = resting b"
  "next_priority (b\<lparr>next_market_order_id := m\<rparr>) = next_priority b"
proof -
  let ?b = "b\<lparr>next_market_order_id := m\<rparr>"
  have at: "at_index ?b = at_index b" by (intro ext) (simp add: at_index_def)
  show r: "resting ?b = resting b" by (intro ext) (simp add: resting_def at)
  show "next_priority ?b = next_priority b"
    by (intro ext) (simp add: next_priority_def r)
  show "book_inv ?b = book_inv b"
    using level_ok_cong [of ?b _ b] by (simp add: book_inv_def pools_ok_def clients_ok_def r)
qed

lemma add_zero_qty:
  assumes "book_inv b"
  shows "add io b clientId client_orderId tickerId side price 0 =
    Inr (sendClientResponse io
           (accepted_response clientId client_orderId tickerId side price 0 (next_market_order_id b)),
         b\<lparr>next_market_order_id := next_market_order_id b + 1\<rparr>)"
  using book_invD(1,2) [OF assms]
  by (simp add: add_def generateNewMarketOrderId_def checkForMatch_no_heads accepted_response_def)

text \<open>Where a new order with a quantity goes, down to the call of \<open>addOrder\<close>.\<close>

lemma add_unfold:
  assumes inv: "book_inv b" and qty: "qty \<noteq> 0"
  shows "add io b clientId client_orderId tickerId side price qty =
    (let b0 = b\<lparr>next_market_order_id := next_market_order_id b + 1\<rparr>;
         x = new_order b clientId client_orderId tickerId side price qty;
         io0 = sendClientResponse io
           (accepted_response clientId client_orderId tickerId side price qty (next_market_order_id b))
     in if Suc (next_free_index (order_pool b)) < ME_MAX_ORDER_IDS then
          bindR (addOrder (b0\<lparr>order_pool := pool_alloc (order_pool b) x\<rparr>) (next_free_index (order_pool b)))
            (\<lambda>b2. Inr (sendMarketUpdate io0 (add_update (next_market_order_id b) tickerId side price qty
               (next_priority b (priceToIndex price))), b2))
        else Inl Out_of_bounds)"
proof -
  let ?b0 = "b\<lparr>next_market_order_id := next_market_order_id b + 1\<rparr>"
  have inv0: "book_inv ?b0" using inv by simp
  note I = book_invD [OF inv]
  have prio: "getNextPriority ?b0 price = Inr (next_priority b (priceToIndex price))"
    using getNextPriority_eq [OF inv0] by simp
  show ?thesis
    using I(1-4) qty prio
    by (simp add: add_def generateNewMarketOrderId_def checkForMatch_no_heads allocate_eq Let_def
        new_order_def accepted_response_def add_update_def)
qed

theorem add_rests:
  assumes inv: "book_inv b" and qty: "qty \<noteq> 0" and room: "has_room b price"
    and client: "unat clientId < ME_MAX_NUM_CLIENTS" and oid: "unat client_orderId < ME_MAX_ORDER_IDS"
  shows "\<exists>b'. add io b clientId client_orderId tickerId side price qty =
      Inr (sendMarketUpdate
             (sendClientResponse io (accepted_response clientId client_orderId tickerId side price qty
                (next_market_order_id b)))
             (add_update (next_market_order_id b) tickerId side price qty
                (next_priority b (priceToIndex price))), b') \<and>
    inserted (b\<lparr>next_market_order_id := next_market_order_id b + 1\<rparr>)
      (new_order b clientId client_orderId tickerId side price qty) b'"
proof -
  let ?b0 = "b\<lparr>next_market_order_id := next_market_order_id b + 1\<rparr>"
  let ?x = "new_order b clientId client_orderId tickerId side price qty"
  let ?p = "next_free_index (order_pool ?b0)"
  have "\<exists>b'. addOrder (?b0\<lparr>order_pool := pool_alloc (order_pool ?b0) ?x\<rparr>) ?p = Inr b' \<and> inserted ?b0 ?x b'"
    using room client oid qty inv
    by (intro addOrder_inserted) (auto simp: has_room_def new_order_def)
  then obtain b' where run: "addOrder (?b0\<lparr>order_pool := pool_alloc (order_pool b) ?x\<rparr>)
      (next_free_index (order_pool b)) = Inr b'" and ins: "inserted ?b0 ?x b'" by auto
  show ?thesis
    using run ins room by (simp add: add_unfold [OF inv qty] has_room_def)
qed

text \<open>The other ends of \<open>addOrder\<close>: no level left, or an index \<open>client_orders_\<close> does not have.\<close>

lemma put_client_order_bad:
  assumes "\<not> (unat c < ME_MAX_NUM_CLIENTS \<and> unat oid < ME_MAX_ORDER_IDS)"
  shows "put_client_order b c oid p = Inl Out_of_range"
  using assms by (auto simp: put_client_order_def arr_at_def arr_put_def)

lemma addOrder_no_level:
  assumes inv: "book_inv b" and p: "p = next_free_index (order_pool b)"
    and none: "resting b (priceToIndex (ord_price x)) = []"
    and full: "\<not> Suc (next_free_index (price_levels_pool b)) < ME_MAX_PRICE_LEVELS"
  shows "addOrder (b\<lparr>order_pool := pool_alloc (order_pool b) x\<rparr>) p = Inl Out_of_bounds"
proof -
  note I = book_invD [OF inv]
  have "price_levels b (priceToIndex (ord_price x)) = None"
    using level_none_iff [OF I(7) [of "priceToIndex (ord_price x)"]] none by simp
  then show ?thesis
    using full I(5,6) by (simp add: addOrder_def p getPriceLevel_def Let_def allocate_eq)
qed

lemma addOrder_out_of_range:
  assumes inv: "book_inv b" and p: "p = next_free_index (order_pool b)"
    and room: "resting b (priceToIndex (ord_price x)) = [] \<Longrightarrow>
      Suc (next_free_index (price_levels_pool b)) < ME_MAX_PRICE_LEVELS"
    and bad: "\<not> (unat (ord_clientId x) < ME_MAX_NUM_CLIENTS \<and>
      unat (ord_client_orderId x) < ME_MAX_ORDER_IDS)"
  shows "addOrder (b\<lparr>order_pool := pool_alloc (order_pool b) x\<rparr>) p = Inl Out_of_range"
proof -
  let ?i = "priceToIndex (ord_price x)"
  note I = book_invD [OF inv]
  have ok: "level_ok b ?i" by (rule I(7)) simp
  show ?thesis
  proof (cases "price_levels b ?i")
    case None
    then have "Suc (next_free_index (price_levels_pool b)) < ME_MAX_PRICE_LEVELS"
      using room level_none_iff [OF ok] by simp
    then show ?thesis
      using None I(1,2,5,6) bad
      by (simp add: addOrder_def p getPriceLevel_def Let_def allocate_eq addOrdersAtPrice_no_head
          put_client_order_bad)
  next
    case (Some l)
    then have first: "lvl_first_order (lvl b l) = Some (hd (resting b ?i))"
      and ring: "cring (\<lambda>p. ord_next (ord b p)) (\<lambda>p. ord_prev (ord b p)) (resting b ?i)"
      using ok by (simp_all add: level_ok_def ring_ok_def)
    have "hd (resting b ?i) \<in> set (resting b ?i)" using ring by (cases "resting b ?i") auto
    then have "hd (resting b ?i) \<noteq> p"
      using set_resting [OF I(3)] pool_next_not_live [OF I(3)] p by (auto simp: at_index_def)
    then show ?thesis
      using Some first cring_hd_prev [OF ring] bad p
      by (simp add: addOrder_def getPriceLevel_def Let_def put_client_order_bad)
  qed
qed

section \<open>The abstract book\<close>

text \<open>
  What the book is, without its pools, links and levels: every order is a ticket (the number of
  the allocation that made it) with its data, an index of the ladder holds a queue of tickets,
  and a client's order number looks up a ticket. Counting the levels is part of the contract,
  since the code fails when they run out.
\<close>

record spec_book =
  sp_orders :: "nat \<Rightarrow> MEOrder"
  sp_queue :: "nat \<Rightarrow> nat list"
  sp_lookup :: "nat \<Rightarrow> nat \<Rightarrow> nat option"
  sp_tickets :: nat
  sp_levels :: nat
  sp_next_id :: OrderId

definition abs_book :: "MEOrderBook \<Rightarrow> spec_book" where
  "abs_book b = \<lparr>sp_orders = (\<lambda>p. ord_data (ord b p)), sp_queue = resting b,
     sp_lookup = client_orders b, sp_tickets = next_free_index (order_pool b),
     sp_levels = next_free_index (price_levels_pool b), sp_next_id = next_market_order_id b\<rparr>"

type_synonym spec_result = "(spec_book \<times> MEClientResponse list \<times> MEMarketUpdate list) res"

definition spec_priority :: "spec_book \<Rightarrow> nat \<Rightarrow> Priority" where
  "spec_priority A i = (if sp_queue A i = [] then 1
     else ord_priority (sp_orders A (last (sp_queue A i))) + 1)"

definition spec_insert :: "spec_book \<Rightarrow> MEOrder \<Rightarrow> spec_book" where
  "spec_insert A x = (let p = sp_tickets A; i = priceToIndex (ord_price x) in
     A\<lparr>sp_orders := (sp_orders A)(p := x), sp_queue := (sp_queue A)(i := sp_queue A i @ [p]),
       sp_lookup := (sp_lookup A)(unat (ord_clientId x) :=
         (sp_lookup A (unat (ord_clientId x)))(unat (ord_client_orderId x) := Some p)),
       sp_tickets := Suc p,
       sp_levels := (if sp_queue A i = [] then Suc (sp_levels A) else sp_levels A)\<rparr>)"

definition spec_remove :: "spec_book \<Rightarrow> nat \<Rightarrow> spec_book" where
  "spec_remove A p = A\<lparr>sp_queue := (\<lambda>i. filter (\<lambda>q. q \<noteq> p) (sp_queue A i)),
     sp_lookup := (sp_lookup A)(unat (ord_clientId (sp_orders A p)) :=
       (sp_lookup A (unat (ord_clientId (sp_orders A p))))
         (unat (ord_client_orderId (sp_orders A p)) := None))\<rparr>"

definition spec_add ::
    "spec_book \<Rightarrow> ClientId \<Rightarrow> OrderId \<Rightarrow> TickerId \<Rightarrow> Side \<Rightarrow> Price \<Rightarrow> Qty \<Rightarrow> spec_result" where
  "spec_add A clientId client_orderId tickerId side price qty =
     (let i = priceToIndex price; id = sp_next_id A; prio = spec_priority A i;
          A0 = A\<lparr>sp_next_id := id + 1\<rparr>;
          accepted = accepted_response clientId client_orderId tickerId side price qty id
      in if qty = 0 then Inr (A0, [accepted], [])
         else if \<not> Suc (sp_tickets A) < ME_MAX_ORDER_IDS then Inl Out_of_bounds
         else if sp_queue A i = [] \<and> \<not> Suc (sp_levels A) < ME_MAX_PRICE_LEVELS then Inl Out_of_bounds
         else if unat clientId < ME_MAX_NUM_CLIENTS \<and> unat client_orderId < ME_MAX_ORDER_IDS then
           Inr (spec_insert A0
                  \<lparr>ord_tickerId = tickerId, ord_clientId = clientId,
                   ord_client_orderId = client_orderId, ord_market_orderId = id, ord_side = side,
                   ord_price = price, ord_qty = qty, ord_priority = prio,
                   ord_prev = None, ord_next = None\<rparr>,
                [accepted], [add_update id tickerId side price qty prio])
         else Inl Out_of_range)"

definition rejected_response :: "ClientId \<Rightarrow> OrderId \<Rightarrow> TickerId \<Rightarrow> MEClientResponse" where
  "rejected_response clientId client_orderId tickerId =
     \<lparr>rs_type = CANCEL_REJECTED, rs_clientId = clientId, rs_tickerId = tickerId,
      rs_client_order_id = client_orderId, rs_marker_order_id = OrderId_INVALID,
      rs_side = Side_INVALID, rs_price = Price_INVALID, rs_exec_qty = Qty_INVALID,
      rs_left_qty = Qty_INVALID\<rparr>"

definition canceled_response :: "ClientId \<Rightarrow> OrderId \<Rightarrow> TickerId \<Rightarrow> MEOrder \<Rightarrow> MEClientResponse" where
  "canceled_response clientId client_orderId tickerId x =
     \<lparr>rs_type = CANCELED, rs_clientId = clientId, rs_tickerId = tickerId,
      rs_client_order_id = client_orderId, rs_marker_order_id = ord_market_orderId x,
      rs_side = ord_side x, rs_price = ord_price x, rs_exec_qty = Qty_INVALID,
      rs_left_qty = ord_qty x\<rparr>"

text \<open>The update of a cancel carries the client's number of the order where the book's own belongs.\<close>

definition cancel_update :: "OrderId \<Rightarrow> TickerId \<Rightarrow> MEOrder \<Rightarrow> MEMarketUpdate" where
  "cancel_update client_orderId tickerId x =
     \<lparr>mu_type = CANCEL, mu_orderId = client_orderId, mu_tickerId = tickerId,
      mu_side = ord_side x, mu_price = ord_price x, mu_qty = ord_qty x,
      mu_priority = ord_priority x\<rparr>"

definition spec_cancel :: "spec_book \<Rightarrow> ClientId \<Rightarrow> OrderId \<Rightarrow> TickerId \<Rightarrow> spec_result" where
  "spec_cancel A clientId client_orderId tickerId =
     (if \<not> unat clientId < ME_MAX_NUM_CLIENTS then Inr (A, [], [])
      else if \<not> unat client_orderId < ME_MAX_ORDER_IDS then Inl Out_of_range
      else case sp_lookup A (unat clientId) (unat client_orderId) of
          None \<Rightarrow> Inr (A, [rejected_response clientId client_orderId tickerId], [])
        | Some p \<Rightarrow> Inr (spec_remove A p,
            [canceled_response clientId client_orderId tickerId (sp_orders A p)],
            [cancel_update client_orderId tickerId (sp_orders A p)]))"

end
