(* ===== verification/MEBookRefine.thy ===== *)
theory MEBookRefine
  imports MEBookSpec
begin

text \<open>
  The exchange's order book refines the abstract book: from every state of the invariant, each
  public operation sends exactly the messages the abstract operation names, ends in a state that
  abstracts to the abstract result, and fails exactly where and as the abstract operation fails.
  The properties of sequences of requests are then proved on the abstract book.
\<close>

section \<open>One operation\<close>

definition io_after :: "me_io \<Rightarrow> MEClientResponse list \<Rightarrow> MEMarketUpdate list \<Rightarrow> me_io" where
  "io_after io rs us = io\<lparr>outgoing_responses := lfq_push_all (outgoing_responses io) rs,
     outgoing_market_updates := lfq_push_all (outgoing_market_updates io) us\<rparr>"

lemma io_after_simps [simp]:
  "io_after io [] [] = io"
  "sendClientResponse io r = io_after io [r] []"
  "sendMarketUpdate io u = io_after io [] [u]"
  "io_after (io_after io rs us) rs' us' = io_after io (rs @ rs') (us @ us')"
  by (simp_all add: io_after_def sendClientResponse_def sendMarketUpdate_def)

definition implements ::
    "me_io \<Rightarrow> (me_io \<times> MEOrderBook) res \<Rightarrow> spec_result \<Rightarrow> bool" where
  "implements io r s \<longleftrightarrow> (case s of Inl e \<Rightarrow> r = Inl e
     | Inr (A, rs, us) \<Rightarrow> \<exists>b. r = Inr (io_after io rs us, b) \<and> abs_book b = A \<and> book_inv b)"

lemma abs_book_fields [simp]:
  "sp_orders (abs_book b) p = ord_data (ord b p)" "sp_queue (abs_book b) = resting b"
  "sp_lookup (abs_book b) = client_orders b"
  "sp_tickets (abs_book b) = next_free_index (order_pool b)"
  "sp_levels (abs_book b) = next_free_index (price_levels_pool b)"
  "sp_next_id (abs_book b) = next_market_order_id b"
  by (simp_all add: abs_book_def)

lemma spec_priority_abs [simp]: "spec_priority (abs_book b) i = next_priority b i"
  by (simp add: spec_priority_def next_priority_def)

lemma abs_book_next_id:
  "abs_book (b\<lparr>next_market_order_id := m\<rparr>) = (abs_book b)\<lparr>sp_next_id := m\<rparr>"
  by (simp add: abs_book_def)

lemma inserted_abs:
  assumes "inserted b x b'"
  shows "abs_book b' = spec_insert (abs_book b) (ord_data x)"
proof -
  have "(\<lambda>p. ord_data (ord b' p)) =
    (\<lambda>p. ord_data (ord b p))(next_free_index (order_pool b) := ord_data x)"
    using assms by (auto simp: inserted_def Let_def fun_eq_iff)
  then show ?thesis
    using assms by (simp add: inserted_def Let_def spec_insert_def abs_book_def)
qed

lemma removed_abs:
  assumes "removed b p b'"
  shows "abs_book b' = spec_remove (abs_book b) p"
proof -
  have "resting b' = (\<lambda>i. filter (\<lambda>q. q \<noteq> p) (resting b i))"
    and "(\<lambda>q. ord_data (ord b' q)) = (\<lambda>q. ord_data (ord b q))"
    using assms by (auto simp: removed_def fun_eq_iff)
  then show ?thesis
    using assms by (simp add: removed_def spec_remove_def abs_book_def)
qed

lemma add_implements:
  assumes inv: "book_inv b"
  shows "implements io (add io b clientId client_orderId tickerId side price qty)
    (spec_add (abs_book b) clientId client_orderId tickerId side price qty)"
proof -
  let ?i = "priceToIndex price" and ?id = "next_market_order_id b"
  let ?b0 = "b\<lparr>next_market_order_id := ?id + 1\<rparr>"
  let ?x = "new_order b clientId client_orderId tickerId side price qty"
  let ?p = "next_free_index (order_pool ?b0)"
  have inv0: "book_inv ?b0" using inv by simp
  have x: "ord_price ?x = price" "ord_clientId ?x = clientId" "ord_client_orderId ?x = client_orderId"
    "ord_data ?x = ?x" by (simp_all add: new_order_def ord_data_def)
  have room: "Suc (next_free_index (order_pool b)) < ME_MAX_ORDER_IDS \<Longrightarrow>
     resting b ?i = [] \<longrightarrow> Suc (next_free_index (price_levels_pool b)) < ME_MAX_PRICE_LEVELS \<Longrightarrow>
     has_room b price" by (simp add: has_room_def)
  consider (zero) "qty = 0"
    | (orders) "qty \<noteq> 0" "\<not> Suc (next_free_index (order_pool b)) < ME_MAX_ORDER_IDS"
    | (levels) "qty \<noteq> 0" "Suc (next_free_index (order_pool b)) < ME_MAX_ORDER_IDS" "resting b ?i = []"
        "\<not> Suc (next_free_index (price_levels_pool b)) < ME_MAX_PRICE_LEVELS"
    | (range) "qty \<noteq> 0" "Suc (next_free_index (order_pool b)) < ME_MAX_ORDER_IDS"
        "resting b ?i = [] \<longrightarrow> Suc (next_free_index (price_levels_pool b)) < ME_MAX_PRICE_LEVELS"
        "\<not> (unat clientId < ME_MAX_NUM_CLIENTS \<and> unat client_orderId < ME_MAX_ORDER_IDS)"
    | (rests) "qty \<noteq> 0" "has_room b price" "unat clientId < ME_MAX_NUM_CLIENTS"
        "unat client_orderId < ME_MAX_ORDER_IDS"
    using room by blast
  then show ?thesis
  proof cases
    case zero
    then show ?thesis
      using add_zero_qty [OF inv] inv by (simp add: implements_def spec_add_def Let_def abs_book_next_id)
  next
    case orders
    then show ?thesis
      using add_unfold [OF inv orders(1)] by (simp add: implements_def spec_add_def Let_def)
  next
    case levels
    then have "addOrder (?b0\<lparr>order_pool := pool_alloc (order_pool ?b0) ?x\<rparr>) ?p = Inl Out_of_bounds"
      by (intro addOrder_no_level [OF inv0]) (simp_all add: x)
    then show ?thesis
      using levels add_unfold [OF inv levels(1)] by (simp add: implements_def spec_add_def Let_def)
  next
    case range
    then have "addOrder (?b0\<lparr>order_pool := pool_alloc (order_pool ?b0) ?x\<rparr>) ?p = Inl Out_of_range"
      by (intro addOrder_out_of_range [OF inv0]) (simp_all add: x)
    then show ?thesis
      using range add_unfold [OF inv range(1)] by (simp add: implements_def spec_add_def Let_def)
  next
    case rests
    obtain b' where run: "add io b clientId client_orderId tickerId side price qty =
        Inr (io_after io [accepted_response clientId client_orderId tickerId side price qty ?id]
          [add_update ?id tickerId side price qty (next_priority b ?i)], b')"
      and ins: "inserted ?b0 ?x b'"
      using add_rests [OF inv rests] by fastforce
    have "book_inv b'" using ins by (simp add: inserted_def Let_def)
    then show ?thesis
      using run rests inserted_abs [OF ins]
      by (simp add: implements_def spec_add_def Let_def has_room_def abs_book_next_id new_order_def
          ord_data_def)
  qed
qed

lemma cancel_implements:
  assumes inv: "book_inv b"
  shows "implements io (cancel io b clientId client_orderId tickerId)
    (spec_cancel (abs_book b) clientId client_orderId tickerId)"
proof (cases "unat clientId < ME_MAX_NUM_CLIENTS \<and> unat client_orderId < ME_MAX_ORDER_IDS")
  case False
  then show ?thesis
    using inv by (auto simp: implements_def spec_cancel_def cancel_def)
next
  case True
  note I = book_invD [OF inv]
  show ?thesis
  proof (cases "client_orders b (unat clientId) (unat client_orderId)")
    case None
    then show ?thesis
      using True inv by (simp add: implements_def spec_cancel_def cancel_def rejected_response_def)
  next
    case (Some p)
    then have live: "pool_live (order_pool b) p" using I(9) True by (auto simp: clients_ok_def)
    obtain b' where run: "removeOrder b p = Inr b'" and rem: "removed b p b'"
      using removeOrder_removed [OF inv live] by blast
    have "book_inv b'" using rem by (simp add: removed_def)
    then show ?thesis
      using True Some run removed_abs [OF rem]
      by (simp add: implements_def spec_cancel_def cancel_def Let_def canceled_response_def
          cancel_update_def)
  qed
qed

end
