(* ===== verification/MatchingEngine.thy ===== *)
theory MatchingEngine
  imports MEBookRefine
begin

text \<open>
  exchange/matcher/matching_engine.h and matching_engine.cpp: the engine keeps one order book per
  instrument, takes client requests off its queue in order and hands each to the book its ticker
  names. The two send functions are \<open>sendClientResponse\<close> and \<open>sendMarketUpdate\<close> of the order
  book's theory, since the book is their only caller.
\<close>

record MatchingEngine =
  ticker_order_book :: "nat \<Rightarrow> MEOrderBook"
  incoming_requests :: "MEClientRequest LFQueue"
  engine_io :: me_io

definition MatchingEngine_ctor :: "MEClientRequest LFQueue \<Rightarrow> me_io \<Rightarrow> MatchingEngine" where
  "MatchingEngine_ctor client_requests io =
     \<lparr>ticker_order_book = (\<lambda>i. MEOrderBook_zeroed (of_nat i)), incoming_requests = client_requests,
      engine_io = io\<rparr>"

definition processClientRequest :: "MEClientRequest \<Rightarrow> MatchingEngine \<Rightarrow> MatchingEngine res" where
  "processClientRequest client_request e =
     (let ticker = unat (rq_tickerId client_request) in
      bindR (arr_idx ME_MAX_TICKERS (ticker_order_book e) ticker) (\<lambda>order_book.
      bindR (case rq_requestType client_request of
          Request_NEW \<Rightarrow>
            add (engine_io e) order_book (rq_clientId client_request) (rq_orderId client_request)
              (rq_tickerId client_request) (rq_side client_request) (rq_price client_request)
              (rq_qty client_request)
        | Request_CANCEL \<Rightarrow>
            cancel (engine_io e) order_book (rq_clientId client_request) (rq_orderId client_request)
              (rq_tickerId client_request)
        | _ \<Rightarrow> FATAL (''Recieved invalid requestType_: '' @
              clientRequestTypeToString (rq_requestType client_request)))
        (\<lambda>(io', order_book').
           Inr (e\<lparr>ticker_order_book := (ticker_order_book e)(ticker := order_book'),
                  engine_io := io'\<rparr>))))"

text \<open>
  One pass of the body of \<open>run\<close>, and \<open>n\<close> passes. The loop is left when another thread clears
  \<open>is_running_\<close>, that is, after some number of passes.
\<close>

definition engine_poll :: "MatchingEngine \<Rightarrow> MatchingEngine res" where
  "engine_poll e =
     (case getNextToRead (incoming_requests e) of
        None \<Rightarrow> Inr e
      | Some me_client_request \<Rightarrow>
          bindR (processClientRequest me_client_request e) (\<lambda>e'.
          bindR (updateReadIndex (incoming_requests e')) (\<lambda>q.
            Inr (e'\<lparr>incoming_requests := q\<rparr>))))"

fun engine_run :: "nat \<Rightarrow> MatchingEngine \<Rightarrow> MatchingEngine res" where
  "engine_run 0 e = Inr e"
| "engine_run (Suc n) e = bindR (engine_poll e) (engine_run n)"

section \<open>The abstract engine\<close>

type_synonym spec_books = "nat \<Rightarrow> spec_book"

definition spec_process :: "MEClientRequest \<Rightarrow> spec_books \<Rightarrow>
    (spec_books \<times> MEClientResponse list \<times> MEMarketUpdate list) res" where
  "spec_process r B =
     (let t = unat (rq_tickerId r) in
      if \<not> t < ME_MAX_TICKERS then Inl Out_of_bounds
      else bindR (case rq_requestType r of
          Request_NEW \<Rightarrow> spec_add (B t) (rq_clientId r) (rq_orderId r) (rq_tickerId r) (rq_side r)
            (rq_price r) (rq_qty r)
        | Request_CANCEL \<Rightarrow> spec_cancel (B t) (rq_clientId r) (rq_orderId r) (rq_tickerId r)
        | _ \<Rightarrow> FATAL (''Recieved invalid requestType_: '' @
              clientRequestTypeToString (rq_requestType r)))
        (\<lambda>(A, rs, us). Inr (B(t := A), rs, us)))"

text \<open>All requests of a list, with everything they send.\<close>

fun spec_requests :: "MEClientRequest list \<Rightarrow> spec_books \<Rightarrow>
    (spec_books \<times> MEClientResponse list \<times> MEMarketUpdate list) res" where
  "spec_requests [] B = Inr (B, [], [])"
| "spec_requests (r # rs) B = bindR (spec_process r B) (\<lambda>(B', ps, us).
     bindR (spec_requests rs B') (\<lambda>(B'', ps', us'). Inr (B'', ps @ ps', us @ us')))"

definition abs_engine :: "MatchingEngine \<Rightarrow> spec_books" where
  "abs_engine e = (\<lambda>i. abs_book (ticker_order_book e i))"

definition engine_inv :: "MatchingEngine \<Rightarrow> bool" where
  "engine_inv e \<longleftrightarrow> (\<forall>i. book_inv (ticker_order_book e i))"

definition engine_implements :: "MatchingEngine \<Rightarrow> MatchingEngine res \<Rightarrow>
    (spec_books \<times> MEClientResponse list \<times> MEMarketUpdate list) res \<Rightarrow> bool" where
  "engine_implements e r s \<longleftrightarrow> (case s of Inl f \<Rightarrow> r = Inl f
     | Inr (B, rs, us) \<Rightarrow> \<exists>e'. r = Inr e' \<and> abs_engine e' = B \<and> engine_inv e' \<and>
         engine_io e' = io_after (engine_io e) rs us \<and> incoming_requests e' = incoming_requests e)"

lemma engine_inv_ctor [simp]: "engine_inv (MatchingEngine_ctor q io)"
  by (simp add: engine_inv_def MatchingEngine_ctor_def book_inv_init)

lemma abs_engine_at: "abs_engine e i = abs_book (ticker_order_book e i)"
  by (simp add: abs_engine_def)

lemma abs_engine_upd:
  "abs_engine (e\<lparr>ticker_order_book := (ticker_order_book e)(t := b), engine_io := io\<rparr>) =
   (abs_engine e)(t := abs_book b)"
  by (auto simp: fun_eq_iff abs_engine_def)

lemma implements_cases:
  assumes "implements io r s"
  obtains (fault) f where "s = Inl f" "r = Inl f"
  | (ok) b rs us where "s = Inr (abs_book b, rs, us)" "r = Inr (io_after io rs us, b)" "book_inv b"
  using assms by (cases s) (fastforce simp: implements_def)+

lemma processClientRequest_implements:
  assumes inv: "engine_inv e"
  shows "engine_implements e (processClientRequest r e) (spec_process r (abs_engine e))"
proof (cases "unat (rq_tickerId r) < ME_MAX_TICKERS")
  case False
  then show ?thesis by (simp add: processClientRequest_def spec_process_def engine_implements_def)
next
  case True
  let ?t = "unat (rq_tickerId r)"
  have b: "book_inv (ticker_order_book e ?t)" using inv by (simp add: engine_inv_def)
  have lift: "engine_implements e
      (bindR m (\<lambda>(io', b'). Inr (e\<lparr>ticker_order_book := (ticker_order_book e)(?t := b'), engine_io := io'\<rparr>)))
      (bindR s (\<lambda>(A, rs, us). Inr ((abs_engine e)(?t := A), rs, us)))"
    if "implements (engine_io e) m s" for m s
    using that
  proof (cases rule: implements_cases)
    case (ok b' rs us)
    then show ?thesis
      using inv by (simp add: engine_implements_def abs_engine_upd engine_inv_def)
  qed (simp add: engine_implements_def)
  have abs: "abs_book (ticker_order_book e ?t) = abs_engine e ?t" by (simp add: abs_engine_at)
  have fatal: "engine_implements e (FATAL m) (FATAL m)" for m
    by (simp add: engine_implements_def FATAL_def)
  show ?thesis
    unfolding processClientRequest_def spec_process_def Let_def
    using True b
    by (cases "rq_requestType r")
       (simp_all add: lift fatal abs [symmetric] add_implements cancel_implements)
qed

lemma requests_implement:
  assumes "engine_inv e"
  shows "engine_implements e (foldR processClientRequest rqs e) (spec_requests rqs (abs_engine e))"
  using assms
proof (induction rqs arbitrary: e)
  case Nil
  then show ?case by (simp add: engine_implements_def fun_eq_iff)
next
  case (Cons r rqs)
  note step = processClientRequest_implements [OF Cons.prems, of r]
  show ?case
  proof (cases "spec_process r (abs_engine e)")
    case (Inl f)
    then show ?thesis using step by (simp add: engine_implements_def)
  next
    case (Inr res)
    obtain B ps us where res: "res = (B, ps, us)" by (cases res)
    obtain e' where e': "processClientRequest r e = Inr e'" "abs_engine e' = B" "engine_inv e'"
      "engine_io e' = io_after (engine_io e) ps us" "incoming_requests e' = incoming_requests e"
      using step Inr res by (auto simp: engine_implements_def)
    have "engine_implements e' (foldR processClientRequest rqs e') (spec_requests rqs B)"
      using Cons.IH [OF e'(3)] e'(2) by simp
    then show ?thesis
      using Inr res e' by (cases "spec_requests rqs B") (auto simp: engine_implements_def)
  qed
qed

section \<open>The loop of the engine's thread\<close>

lemma process_other_queue:
  "processClientRequest r (e\<lparr>incoming_requests := q\<rparr>) =
   bindR (processClientRequest r e) (\<lambda>e'. Inr (e'\<lparr>incoming_requests := q\<rparr>))"
  by (cases e; cases "rq_requestType r")
     (simp_all add: processClientRequest_def Let_def bindR_assoc case_prod_unfold FATAL_def)

lemma process_keeps_queue:
  assumes "processClientRequest r e = Inr e'"
  shows "incoming_requests e' = incoming_requests e"
  using assms by (auto simp: processClientRequest_def Let_def bindR_eq_Inr split: prod.splits)

lemma foldR_process_other_queue:
  "foldR processClientRequest rs (e\<lparr>incoming_requests := q\<rparr>) =
   bindR (foldR processClientRequest rs e) (\<lambda>e'. Inr (e'\<lparr>incoming_requests := q\<rparr>))"
  by (induction rs arbitrary: e) (simp_all add: process_other_queue bindR_assoc cong: bindR_cong)

lemma engine_poll_Nil:
  assumes "lfq_inv (incoming_requests e)" and "lfq_list (incoming_requests e) = []"
  shows "engine_poll e = Inr e"
  using assms by (simp add: engine_poll_def getNextToRead_list)

lemma engine_poll_Cons:
  assumes inv: "lfq_inv (incoming_requests e)" and list: "lfq_list (incoming_requests e) = x # xs"
  shows "engine_poll e = bindR (processClientRequest x e) (\<lambda>e'.
    Inr (e'\<lparr>incoming_requests := lfq_pop (incoming_requests e)\<rparr>))"
proof -
  have "store_count (incoming_requests e) \<noteq> 0"
    using length_lfq_list [of "incoming_requests e"] list by auto
  then show ?thesis
    using getNextToRead_list [OF inv] list process_keeps_queue [of x e]
    by (cases "processClientRequest x e") (simp_all add: engine_poll_def updateReadIndex_eq)
qed

lemma engine_run_idle:
  "lfq_inv (incoming_requests e) \<Longrightarrow> lfq_list (incoming_requests e) = [] \<Longrightarrow> engine_run n e = Inr e"
  by (induction n) (simp_all add: engine_poll_Nil)

lemma engine_run_drains:
  assumes "lfq_inv (incoming_requests e)" and "store_count (incoming_requests e) \<le> n"
  shows "engine_run n e = bindR (foldR processClientRequest (lfq_list (incoming_requests e)) e)
    (\<lambda>e'. Inr (e'\<lparr>incoming_requests := lfq_emptied (incoming_requests e)\<rparr>))"
  using assms
proof (induction n arbitrary: e)
  case 0
  let ?q = "incoming_requests e"
  have empty: "lfq_list ?q = []" using 0 by (simp add: lfq_list_def)
  have "lfq_emptied ?q = ?q" using 0 next_read_eq_write [of ?q] by (simp add: lfq_emptied_def)
  then show ?case using empty by simp
next
  case (Suc n)
  let ?q = "incoming_requests e"
  show ?case
  proof (cases "lfq_list ?q")
    case Nil
    then have "store_count ?q = 0" using length_lfq_list [of ?q] by simp
    then have "lfq_emptied ?q = ?q"
      using Suc.prems next_read_eq_write [of ?q] by (simp add: lfq_emptied_def)
    then show ?thesis using Nil engine_run_idle [OF Suc.prems(1) Nil, of "Suc n"] by simp
  next
    case (Cons x xs)
    then have ne: "store_count ?q \<noteq> 0" using length_lfq_list [of ?q] by auto
    note pop = lfq_pop_list [OF Suc.prems(1) ne]
    have le: "store_count (lfq_pop ?q) \<le> n" using Suc.prems(2) by (simp add: lfq_pop_def)
    have "engine_run n (e'\<lparr>incoming_requests := lfq_pop ?q\<rparr>) =
      bindR (foldR processClientRequest xs e')
        (\<lambda>e''. Inr (e''\<lparr>incoming_requests := lfq_emptied ?q\<rparr>))" for e'
      using Suc.IH [of "e'\<lparr>incoming_requests := lfq_pop ?q\<rparr>"] pop le Cons
      by (simp add: foldR_process_other_queue bindR_assoc lfq_emptied_pop)
    then show ?thesis
      using engine_poll_Cons [OF Suc.prems(1) Cons] Cons by (simp add: bindR_assoc)
  qed
qed

end
