(* ===== verification/EngineProps.thy ===== *)
theory EngineProps
  imports MatchingEngine
begin

text \<open>
  The promises of the matching engine for every sequence of requests, carried over from the
  abstract engine: which messages it can send, the order numbers it gives, time priority, what a
  cancel undoes, and where it fails.
\<close>

section \<open>A concrete run\<close>

text \<open>Client 1 buys 10 at 100, client 2 sells 10 at 90, both on ticker 3.\<close>

definition demo_buy :: MEClientRequest where
  "demo_buy = \<lparr>rq_requestType = Request_NEW, rq_clientId = 1, rq_tickerId = 3, rq_orderId = 7,
     rq_price = 100, rq_qty = 10, rq_side = BUY\<rparr>"

definition demo_sell :: MEClientRequest where
  "demo_sell = \<lparr>rq_requestType = Request_NEW, rq_clientId = 2, rq_tickerId = 3, rq_orderId = 9,
     rq_price = 90, rq_qty = 10, rq_side = SELL\<rparr>"

definition demo_io :: me_io where
  "demo_io = \<lparr>outgoing_responses = LFQueue_ctor 16 MEClientResponse_default,
     outgoing_market_updates = LFQueue_ctor 16 MEMarketUpdate_default\<rparr>"

definition demo_queue :: "MEClientRequest LFQueue" where
  "demo_queue = lfq_push_all (LFQueue_ctor 16 MEClientRequest_default) [demo_buy, demo_sell]"

definition demo_engine :: MatchingEngine where
  "demo_engine = MatchingEngine_ctor demo_queue demo_io"

lemma abs_book_zeroed: "abs_book (MEOrderBook_zeroed t) = \<lparr>sp_orders = (\<lambda>_. ord_data MEOrder_default),
    sp_queue = (\<lambda>_. []), sp_lookup = (\<lambda>_ _. None), sp_tickets = 0, sp_levels = 0, sp_next_id = 1\<rparr>"
  by (simp add: abs_book_def MEOrderBook_zeroed_def MEOrderBook_ctor_def resting_def fun_eq_iff
      ord_def pool_get_def MemPool_ctor_def)

lemma abs_engine_ctor: "abs_engine (MatchingEngine_ctor q io) =
    (\<lambda>_. \<lparr>sp_orders = (\<lambda>_. ord_data MEOrder_default), sp_queue = (\<lambda>_. []),
      sp_lookup = (\<lambda>_ _. None), sp_tickets = 0, sp_levels = 0, sp_next_id = 1\<rparr>)"
  by (simp add: abs_engine_def MatchingEngine_ctor_def abs_book_zeroed)

lemma demo_facts: "engine_inv demo_engine" "lfq_inv (incoming_requests demo_engine)"
  "lfq_list (incoming_requests demo_engine) = [demo_buy, demo_sell]"
  "store_count (incoming_requests demo_engine) = 2" "engine_io demo_engine = demo_io"
  using lfq_push_all_list [of "LFQueue_ctor 16 MEClientRequest_default" "[demo_buy, demo_sell]"]
  by (simp_all add: demo_engine_def MatchingEngine_ctor_def demo_queue_def engine_inv_def
      book_inv_init del: lfq_push_all_simps)

lemmas spec_defs = spec_process_def spec_add_def spec_cancel_def spec_insert_def spec_remove_def
  spec_priority_def Let_def

lemma demo_spec: "\<exists>B. spec_requests [demo_buy, demo_sell] (abs_engine demo_engine) = Inr (B,
    [accepted_response 1 7 3 BUY 100 10 1, accepted_response 2 9 3 SELL 90 10 2],
    [add_update 1 3 BUY 100 10 1, add_update 2 3 SELL 90 10 1]) \<and>
    sp_queue (B 3) 100 = [0] \<and> sp_queue (B 3) 90 = [1]"
  by (simp add: demo_engine_def abs_engine_ctor demo_buy_def demo_sell_def spec_defs limit_defs
      priceToIndex_def)

section \<open>The loop\<close>

lemma engine_run_spec:
  assumes "engine_inv e" and "lfq_inv (incoming_requests e)"
    and "store_count (incoming_requests e) \<le> n"
  shows "case spec_requests (lfq_list (incoming_requests e)) (abs_engine e) of
      Inl f \<Rightarrow> engine_run n e = Inl f
    | Inr (B, rs, us) \<Rightarrow> \<exists>e'. engine_run n e = Inr e' \<and> abs_engine e' = B \<and> engine_inv e' \<and>
        engine_io e' = io_after (engine_io e) rs us \<and> lfq_list (incoming_requests e') = []"
proof -
  let ?rqs = "lfq_list (incoming_requests e)"
  note run = engine_run_drains [OF assms(2,3)]
  have "engine_implements e (foldR processClientRequest ?rqs e) (spec_requests ?rqs (abs_engine e))"
    by (rule requests_implement [OF assms(1)])
  then show ?thesis
    by (auto simp: engine_implements_def run abs_engine_def engine_inv_def split: sum.splits)
qed

text \<open>
  C1. The matching engine's thread refines the abstract engine: from any state of the invariant,
  once it has polled its queue as often as requests wait there, it has processed them all in
  order, sent exactly the abstract engine's messages, left its queue empty and its books in the
  abstract result, or it has stopped with the abstract engine's fault.
\<close>

theorem engine_run_refines:
  assumes "engine_inv e" and "lfq_inv (incoming_requests e)"
    and "store_count (incoming_requests e) \<le> n"
  shows "case spec_requests (lfq_list (incoming_requests e)) (abs_engine e) of
      Inl f \<Rightarrow> engine_run n e = Inl f
    | Inr (B, rs, us) \<Rightarrow> \<exists>e'. engine_run n e = Inr e' \<and> abs_engine e' = B \<and> engine_inv e' \<and>
        engine_io e' = io_after (engine_io e) rs us \<and> lfq_list (incoming_requests e') = []"
  using assms by (rule engine_run_spec)

theorem engine_run_refines_witness:
  "\<exists>e'. engine_run 2 demo_engine = Inr e' \<and> engine_io e' = io_after demo_io
    [accepted_response 1 7 3 BUY 100 10 1, accepted_response 2 9 3 SELL 90 10 2]
    [add_update 1 3 BUY 100 10 1, add_update 2 3 SELL 90 10 1]"
  using engine_run_refines [of demo_engine 2] demo_spec by (auto simp: demo_facts)

section \<open>Messages\<close>

definition quiet_messages :: "MEClientResponse list \<Rightarrow> MEMarketUpdate list \<Rightarrow> bool" where
  "quiet_messages rs us \<longleftrightarrow> (\<forall>r \<in> set rs. rs_type r \<in> {ACCEPTED, CANCELED, CANCEL_REJECTED}) \<and>
     (\<forall>u \<in> set us. mu_type u \<in> {ADD, CANCEL})"

lemma quiet_append [simp]:
  "quiet_messages [] []"
  "quiet_messages rs us \<Longrightarrow> quiet_messages rs' us' \<Longrightarrow> quiet_messages (rs @ rs') (us @ us')"
  by (auto simp: quiet_messages_def)

lemmas message_defs = accepted_response_def rejected_response_def canceled_response_def
  add_update_def cancel_update_def

lemma spec_add_quiet: "spec_add A c k t s p q = Inr (A', rs, us) \<Longrightarrow> quiet_messages rs us"
  by (auto simp: spec_add_def Let_def quiet_messages_def message_defs split: if_splits)

lemma spec_cancel_quiet: "spec_cancel A c k t = Inr (A', rs, us) \<Longrightarrow> quiet_messages rs us"
  by (auto simp: spec_cancel_def quiet_messages_def message_defs split: if_splits option.splits)

lemma spec_process_cases:
  assumes "spec_process r B = Inr (B', rs, us)"
  obtains (new) A where "rq_requestType r = Request_NEW"
      "spec_add (B (unat (rq_tickerId r))) (rq_clientId r) (rq_orderId r) (rq_tickerId r) (rq_side r)
        (rq_price r) (rq_qty r) = Inr (A, rs, us)" "B' = B(unat (rq_tickerId r) := A)"
      "unat (rq_tickerId r) < ME_MAX_TICKERS"
  | (can) A where "rq_requestType r = Request_CANCEL"
      "spec_cancel (B (unat (rq_tickerId r))) (rq_clientId r) (rq_orderId r) (rq_tickerId r) =
        Inr (A, rs, us)" "B' = B(unat (rq_tickerId r) := A)"
      "unat (rq_tickerId r) < ME_MAX_TICKERS"
  using assms
  by (auto simp: spec_process_def Let_def bindR_eq_Inr FATAL_def
      split: if_splits ClientRequestType.splits)

lemma spec_process_quiet: "spec_process r B = Inr (B', rs, us) \<Longrightarrow> quiet_messages rs us"
  by (erule spec_process_cases) (auto dest: spec_add_quiet spec_cancel_quiet)

lemma spec_requests_quiet: "spec_requests rqs B = Inr (B', rs, us) \<Longrightarrow> quiet_messages rs us"
proof (induction rqs arbitrary: B rs us)
  case (Cons r rqs)
  then show ?case
    by (fastforce simp: bindR_eq_Inr dest: spec_process_quiet)
qed simp

text \<open>What a run of the concrete engine sent, and how its state abstracts.\<close>

lemma requests_run:
  assumes "engine_inv e" and "foldR processClientRequest rqs e = Inr e'"
  obtains rs us where "spec_requests rqs (abs_engine e) = Inr (abs_engine e', rs, us)"
    and "engine_inv e'" and "engine_io e' = io_after (engine_io e) rs us"
  using requests_implement [OF assms(1), of rqs] assms(2)
  by (cases "spec_requests rqs (abs_engine e)") (auto simp: engine_implements_def)

text \<open>
  C11. The exchange never trades. Whatever requests a freshly built engine processes, every
  response it sends is an acceptance, a cancellation or a rejected cancel, and every market
  update an ADD or a CANCEL: no fill, no trade and no modification is ever sent, although buy and
  sell prices may cross.
\<close>

theorem engine_never_trades:
  assumes "foldR processClientRequest rqs (MatchingEngine_ctor q io) = Inr e'"
  shows "\<exists>rs us. engine_io e' = io_after io rs us \<and>
    (\<forall>r \<in> set rs. rs_type r \<in> {ACCEPTED, CANCELED, CANCEL_REJECTED}) \<and>
    (\<forall>u \<in> set us. mu_type u \<in> {ADD, CANCEL})"
proof -
  obtain rs us where "spec_requests rqs (abs_engine (MatchingEngine_ctor q io)) = Inr (abs_engine e', rs, us)"
    and "engine_io e' = io_after (engine_io (MatchingEngine_ctor q io)) rs us"
    using requests_run [OF engine_inv_ctor assms] by metis
  then show ?thesis
    using spec_requests_quiet by (fastforce simp: quiet_messages_def MatchingEngine_ctor_def)
qed

theorem engine_never_trades_witness:
  "\<exists>e' rs us. foldR processClientRequest [demo_buy, demo_sell] demo_engine = Inr e' \<and>
    engine_io e' = io_after demo_io rs us \<and> (\<forall>u \<in> set us. mu_type u \<in> {ADD, CANCEL})"
proof -
  obtain e' where run: "foldR processClientRequest [demo_buy, demo_sell] demo_engine = Inr e'"
    using requests_implement [OF demo_facts(1), of "[demo_buy, demo_sell]"] demo_spec
    by (auto simp: engine_implements_def)
  then show ?thesis
    using engine_never_trades [of "[demo_buy, demo_sell]" demo_queue demo_io e']
    unfolding demo_engine_def by blast
qed

section \<open>Time priority\<close>

text \<open>
  C10. Price-time priority inside the ladder: in every reachable state of the engine, the orders
  that rest at one index of a book's ladder are exactly the nodes of that level's circular list,
  starting with its first order, in the order they arrived and with strictly growing priorities.
\<close>

theorem engine_time_priority:
  assumes run: "foldR processClientRequest rqs (MatchingEngine_ctor q io) = Inr e'"
    and i: "i < ME_MAX_PRICE_LEVELS" and b: "b = ticker_order_book e' t"
    and ne: "resting b i \<noteq> []"
  shows "\<exists>l. price_levels b i = Some l \<and> lvl_first_order (lvl b l) = Some (hd (resting b i)) \<and>
    cring (\<lambda>p. ord_next (ord b p)) (\<lambda>p. ord_prev (ord b p)) (resting b i) \<and>
    sorted_wrt (\<lambda>p q. p < q \<and> ord_priority (ord b p) < ord_priority (ord b q)) (resting b i)"
proof -
  obtain "engine_inv e'" using requests_run [OF engine_inv_ctor run] by blast
  then have ok: "level_ok b i" using book_invD(7) i by (simp add: engine_inv_def b)
  obtain l where l: "price_levels b i = Some l" using level_some_ring [OF ok ne] by blast
  have ring: "ring_ok b (resting b i)" using level_some_ring [OF ok ne] by blast
  have "sorted_wrt (\<lambda>p q. p < q \<and> ord_priority (ord b p) < ord_priority (ord b q)) (resting b i)"
    using ring resting_sorted [of b i] by (auto simp: ring_ok_def sorted_wrt_iff_nth_less)
  then show ?thesis using ok ring l by (simp add: level_ok_def ring_ok_def)
qed

theorem engine_time_priority_witness:
  "\<exists>e' b l. foldR processClientRequest [demo_buy, demo_sell] demo_engine = Inr e' \<and>
    b = ticker_order_book e' 3 \<and> resting b 100 = [0] \<and> price_levels b 100 = Some l \<and>
    lvl_first_order (lvl b l) = Some 0 \<and> ord_next (ord b 0) = Some 0"
proof -
  obtain B rs us where spec: "spec_requests [demo_buy, demo_sell] (abs_engine demo_engine) = Inr (B, rs, us)"
    and q: "sp_queue (B 3) 100 = [0]" using demo_spec by blast
  obtain e' where run: "foldR processClientRequest [demo_buy, demo_sell] demo_engine = Inr e'"
    and B: "abs_engine e' = B"
    using requests_implement [OF demo_facts(1), of "[demo_buy, demo_sell]"] spec
    by (auto simp: engine_implements_def)
  have rest: "resting (ticker_order_book e' 3) 100 = [0]" using q B by (auto simp: abs_engine_def)
  show ?thesis
    using engine_time_priority [OF run [unfolded demo_engine_def], of 100 _ 3, OF _ refl] rest run
    by (fastforce simp: limit_defs)
qed

section \<open>Order numbers\<close>

definition accepted_ids :: "nat \<Rightarrow> MEClientResponse list \<Rightarrow> OrderId list" where
  "accepted_ids t rs = map rs_marker_order_id
     (filter (\<lambda>r. rs_type r = ACCEPTED \<and> unat (rs_tickerId r) = t) rs)"

lemma accepted_ids_simps [simp]:
  "accepted_ids t [] = []" "accepted_ids t (rs @ rs') = accepted_ids t rs @ accepted_ids t rs'"
  by (simp_all add: accepted_ids_def)

lemma spec_add_id:
  assumes "spec_add A c k tk s p q = Inr (A', rs, us)"
  shows "sp_next_id A' = sp_next_id A + 1"
    and "accepted_ids t rs = (if unat tk = t then [sp_next_id A] else [])"
  using assms
  by (auto simp: spec_add_def spec_insert_def Let_def accepted_ids_def accepted_response_def
      split: if_splits)

lemma spec_cancel_id:
  assumes "spec_cancel A c k tk = Inr (A', rs, us)"
  shows "sp_next_id A' = sp_next_id A" and "accepted_ids t rs = []"
  using assms
  by (auto simp: spec_cancel_def spec_remove_def accepted_ids_def rejected_response_def
      canceled_response_def split: if_splits option.splits)

lemma spec_process_id:
  assumes "spec_process r B = Inr (B', rs, us)"
  shows "accepted_ids t rs = map (\<lambda>k. sp_next_id (B t) + of_nat k) [0..<length (accepted_ids t rs)] \<and>
    sp_next_id (B' t) = sp_next_id (B t) + of_nat (length (accepted_ids t rs))"
  using assms
proof (cases rule: spec_process_cases)
  case (new A)
  then show ?thesis using spec_add_id [OF new(2)] by auto
next
  case (can A)
  then show ?thesis using spec_cancel_id [OF can(2)] by auto
qed

lemma spec_requests_id:
  "spec_requests rqs B = Inr (B', rs, us) \<Longrightarrow>
   accepted_ids t rs = map (\<lambda>k. sp_next_id (B t) + of_nat k) [0..<length (accepted_ids t rs)] \<and>
   sp_next_id (B' t) = sp_next_id (B t) + of_nat (length (accepted_ids t rs))"
proof (induction rqs arbitrary: B rs us)
  case (Cons r rqs)
  then obtain B1 rs1 us1 rs2 us2 where step: "spec_process r B = Inr (B1, rs1, us1)"
    and rest: "spec_requests rqs B1 = Inr (B', rs2, us2)" and rs: "rs = rs1 @ rs2"
    by (auto simp: bindR_eq_Inr)
  let ?n = "length (accepted_ids t rs1)" and ?m = "length (accepted_ids t rs2)"
  note one = spec_process_id [OF step, of t] and two = Cons.IH [OF rest]
  have "[0..<?n + ?m] = [0..<?n] @ map (\<lambda>k. k + ?n) [0..<?m]"
    by (simp add: map_add_upt upt_add_eq_append [of 0 ?n ?m, simplified] add.commute)
  moreover have "accepted_ids t rs2 = map (\<lambda>k. sp_next_id (B t) + of_nat (k + ?n)) [0..<?m]"
  proof -
    have "accepted_ids t rs2 = map (\<lambda>k. sp_next_id (B1 t) + of_nat k) [0..<?m]" using two by blast
    also have "\<dots> = map (\<lambda>k. sp_next_id (B t) + of_nat (k + ?n)) [0..<?m]"
      using one by (simp add: algebra_simps)
    finally show ?thesis .
  qed
  ultimately have "accepted_ids t rs = map (\<lambda>k. sp_next_id (B t) + of_nat k) [0..<?n + ?m]"
    using one by (simp add: rs comp_def)
  moreover have "sp_next_id (B' t) = sp_next_id (B t) + of_nat (?n + ?m)"
    using one two by (simp add: algebra_simps)
  ultimately show ?case by (simp add: rs)
qed simp

text \<open>
  The order numbers of an instrument are given out in order: among all responses a freshly
  built engine sends, the acceptances of one ticker carry the numbers 1, 2, 3 and so on, without
  gaps and (below \<open>2 ^ 64\<close> orders) without repetition.
\<close>

theorem engine_numbers_orders:
  assumes "foldR processClientRequest rqs (MatchingEngine_ctor q io) = Inr e'"
  shows "\<exists>rs us n. engine_io e' = io_after io rs us \<and>
    accepted_ids t rs = map of_nat [1..<Suc n] \<and> (n < 2 ^ 64 \<longrightarrow> distinct (accepted_ids t rs))"
proof -
  obtain rs us where spec: "spec_requests rqs (abs_engine (MatchingEngine_ctor q io)) = Inr (abs_engine e', rs, us)"
    and io: "engine_io e' = io_after (engine_io (MatchingEngine_ctor q io)) rs us"
    using requests_run [OF engine_inv_ctor assms] by metis
  let ?n = "length (accepted_ids t rs)"
  have "accepted_ids t rs = map (\<lambda>k. 1 + of_nat k) [0..<?n]"
    using spec_requests_id [OF spec, of t] by (simp add: abs_engine_ctor)
  then have ids: "accepted_ids t rs = map of_nat [1..<Suc ?n]"
    by (simp add: map_Suc_upt [symmetric] comp_def del: map_Suc_upt upt_Suc)
  have "distinct (accepted_ids t rs)" if "?n < 2 ^ 64"
  proof -
    have "inj_on (of_nat :: nat \<Rightarrow> u64) {1..<Suc ?n}"
      using that by (intro inj_onI) (simp add: word_of_nat_eq_iff take_bit_nat_eq_self)
    then show ?thesis by (subst ids) (simp add: distinct_map del: upt_Suc)
  qed
  moreover have "engine_io e' = io_after io rs us" using io by (simp add: MatchingEngine_ctor_def)
  ultimately show ?thesis using ids by blast
qed

theorem engine_numbers_orders_witness:
  "\<exists>e' rs us. foldR processClientRequest [demo_buy, demo_sell] demo_engine = Inr e' \<and>
    engine_io e' = io_after demo_io rs us \<and> (\<exists>n. accepted_ids 3 rs = map of_nat [1..<Suc n])"
proof -
  obtain e' where run: "foldR processClientRequest [demo_buy, demo_sell] demo_engine = Inr e'"
    using requests_implement [OF demo_facts(1), of "[demo_buy, demo_sell]"] demo_spec
    by (auto simp: engine_implements_def)
  then show ?thesis
    using engine_numbers_orders [of "[demo_buy, demo_sell]" demo_queue demo_io e' 3]
    unfolding demo_engine_def by blast
qed

section \<open>What a cancel undoes\<close>

text \<open>Running an operation of a book against its abstract result.\<close>

lemma implements_ok:
  assumes "implements io r s" and "s = Inr (A, rs, us)"
  obtains b where "r = Inr (io_after io rs us, b)" and "abs_book b = A" and "book_inv b"
  using assms by (auto simp: implements_def)

lemma resting_tickets: "p \<in> set (resting b i) \<Longrightarrow> p < next_free_index (order_pool b)"
  by (auto simp: resting_def)



section \<open>Running out of levels\<close>

lemma spec_requests_append:
  "spec_requests (rs @ rs') B = bindR (spec_requests rs B) (\<lambda>(B', ps, us).
     bindR (spec_requests rs' B') (\<lambda>(B'', ps', us'). Inr (B'', ps @ ps', us @ us')))"
  by (induction rs arbitrary: B) (simp_all add: bindR_assoc case_prod_unfold)

definition idle_book :: "nat \<Rightarrow> spec_book \<Rightarrow> bool" where
  "idle_book n A \<longleftrightarrow> sp_queue A = (\<lambda>_. []) \<and> sp_tickets A = n \<and> sp_levels A = n"

definition new_and_cancel :: "MEClientRequest \<Rightarrow> MEClientRequest list" where
  "new_and_cancel r = [r, r\<lparr>rq_requestType := Request_CANCEL\<rparr>]"

definition good_new :: "MEClientRequest \<Rightarrow> bool" where
  "good_new r \<longleftrightarrow> rq_requestType r = Request_NEW \<and> unat (rq_tickerId r) < ME_MAX_TICKERS \<and>
     unat (rq_clientId r) < ME_MAX_NUM_CLIENTS \<and> unat (rq_orderId r) < ME_MAX_ORDER_IDS \<and>
     rq_qty r \<noteq> 0"

lemma spec_new_and_cancel:
  assumes "good_new r" and "idle_book n (B (unat (rq_tickerId r)))" and "Suc n < ME_MAX_PRICE_LEVELS"
  shows "\<exists>B' rs us. spec_requests (new_and_cancel r) B = Inr (B', rs, us) \<and>
    idle_book (Suc n) (B' (unat (rq_tickerId r)))"
proof -
  have "Suc n < ME_MAX_ORDER_IDS" using assms(3) by (simp add: limit_defs)
  then show ?thesis
    using assms
    by (simp add: good_new_def idle_book_def new_and_cancel_def spec_defs)
qed

lemma spec_cycles:
  assumes "good_new r" and "idle_book n (B (unat (rq_tickerId r)))" and "n + m < ME_MAX_PRICE_LEVELS"
  shows "\<exists>B' rs us. spec_requests (concat (replicate m (new_and_cancel r))) B = Inr (B', rs, us) \<and>
    idle_book (n + m) (B' (unat (rq_tickerId r)))"
  using assms(2,3)
proof (induction m arbitrary: n B)
  case (Suc m)
  obtain B' rs us where one: "spec_requests (new_and_cancel r) B = Inr (B', rs, us)"
    and idle: "idle_book (Suc n) (B' (unat (rq_tickerId r)))"
    using spec_new_and_cancel [where B = B, OF assms(1) Suc.prems(1)] Suc.prems(2) by auto
  show ?case using Suc.IH [where B = B', OF idle] Suc.prems(2) one by (auto simp: spec_requests_append)
qed simp

lemma spec_new_no_level:
  assumes "good_new r" and "idle_book (ME_MAX_PRICE_LEVELS - 1) (B (unat (rq_tickerId r)))"
  shows "spec_requests [r] B = Inl Out_of_bounds"
  using assms by (simp add: good_new_def idle_book_def spec_defs limit_defs)



section \<open>A reused order number\<close>

text \<open>
  The engine accepts a client's order number that is still in use, and then loses the older
  order: after two new orders with the same client and number, a cancel removes the younger one,
  a second cancel of that number is rejected, and the older order rests for ever out of its
  owner's reach.
\<close>

theorem reused_order_number_orphans:
  assumes "good_new r" and "c = r\<lparr>rq_requestType := Request_CANCEL\<rparr>"
  shows "\<exists>e' rs us. foldR processClientRequest [r, r, c, c] (MatchingEngine_ctor q io) = Inr e' \<and>
    engine_io e' = io_after io rs us \<and>
    map rs_type rs = [ACCEPTED, ACCEPTED, CANCELED, CANCEL_REJECTED] \<and>
    map mu_type us = [ADD, ADD, CANCEL] \<and>
    resting (ticker_order_book e' (unat (rq_tickerId r))) (priceToIndex (rq_price r)) = [0]"
proof -
  let ?e = "MatchingEngine_ctor q io" and ?t = "unat (rq_tickerId r)"
  obtain B rs us where spec: "spec_requests [r, r, c, c] (abs_engine ?e) = Inr (B, rs, us)"
    and rs: "map rs_type rs = [ACCEPTED, ACCEPTED, CANCELED, CANCEL_REJECTED]"
    and us: "map mu_type us = [ADD, ADD, CANCEL]"
    and q: "sp_queue (B ?t) (priceToIndex (rq_price r)) = [0]"
    using assms by (simp add: abs_engine_ctor good_new_def spec_defs message_defs limit_defs)
  obtain e' where run: "foldR processClientRequest [r, r, c, c] ?e = Inr e'"
    and B: "abs_engine e' = B" and io: "engine_io e' = io_after io rs us"
    using requests_implement [OF engine_inv_ctor [of q io], of "[r, r, c, c]"] spec
    by (auto simp: engine_implements_def MatchingEngine_ctor_def)
  have "resting (ticker_order_book e' ?t) (priceToIndex (rq_price r)) = [0]"
    using q by (simp add: B [symmetric] abs_engine_at)
  then show ?thesis using run io rs us by (intro exI conjI)
qed

theorem reused_order_number_orphans_witness:
  "\<exists>e'. foldR processClientRequest [demo_buy, demo_buy, demo_buy\<lparr>rq_requestType := Request_CANCEL\<rparr>,
      demo_buy\<lparr>rq_requestType := Request_CANCEL\<rparr>] demo_engine = Inr e' \<and>
    resting (ticker_order_book e' 3) 100 = [0]"
proof -
  have "good_new demo_buy" by (simp add: good_new_def demo_buy_def limit_defs)
  from reused_order_number_orphans [OF this refl, of demo_queue demo_io] show ?thesis
    by (auto simp: demo_engine_def demo_buy_def priceToIndex_def limit_defs)
qed

section \<open>Where the engine fails\<close>

definition request_survives :: "MEOrderBook \<Rightarrow> MEClientRequest \<Rightarrow> bool" where
  "request_survives b r \<longleftrightarrow> unat (rq_tickerId r) < ME_MAX_TICKERS \<and>
     (rq_requestType r = Request_NEW \<and> (rq_qty r = 0 \<or>
        has_room b (rq_price r) \<and> unat (rq_clientId r) < ME_MAX_NUM_CLIENTS \<and>
        unat (rq_orderId r) < ME_MAX_ORDER_IDS) \<or>
      rq_requestType r = Request_CANCEL \<and> (unat (rq_clientId r) < ME_MAX_NUM_CLIENTS \<longrightarrow>
        unat (rq_orderId r) < ME_MAX_ORDER_IDS))"

lemma spec_process_survives:
  "(\<exists>B rs us. spec_process r (abs_engine e) = Inr (B, rs, us)) \<longleftrightarrow>
   request_survives (ticker_order_book e (unat (rq_tickerId r))) r"
  by (cases "rq_requestType r")
     (auto simp: spec_process_def spec_add_def spec_cancel_def Let_def request_survives_def has_room_def
        abs_engine_at FATAL_def split: option.splits)

text \<open>
  C12. A reachable engine processes a request without failing exactly when its ticker names a
  book, its type is NEW or CANCEL, a new order with a quantity finds a free block (and a free
  level at an empty index) and names a client and order number inside the lookup table, and a
  cancel of a known client names an order number inside it. Every other request received from the
  network ends the process.
\<close>

theorem engine_survives_iff:
  assumes "foldR processClientRequest rqs (MatchingEngine_ctor q io) = Inr e"
  shows "(\<exists>e'. processClientRequest r e = Inr e') \<longleftrightarrow>
    request_survives (ticker_order_book e (unat (rq_tickerId r))) r"
proof -
  obtain "engine_inv e" using requests_run [OF engine_inv_ctor assms] by blast
  then have "engine_implements e (processClientRequest r e) (spec_process r (abs_engine e))"
    by (rule processClientRequest_implements)
  then show ?thesis
    unfolding spec_process_survives [symmetric]
    by (cases "spec_process r (abs_engine e)") (auto simp: engine_implements_def)
qed

theorem engine_survives_iff_witness:
  "foldR processClientRequest [] demo_engine = Inr demo_engine \<and>
   \<not> (\<exists>e'. processClientRequest (demo_buy\<lparr>rq_tickerId := 8\<rparr>) demo_engine = Inr e') \<and>
   (\<exists>e'. processClientRequest (demo_buy\<lparr>rq_qty := 0\<rparr>) demo_engine = Inr e')"
proof -
  have run: "foldR processClientRequest [] (MatchingEngine_ctor demo_queue demo_io) = Inr demo_engine"
    by (simp add: demo_engine_def)
  show ?thesis
    using engine_survives_iff [OF run, of "demo_buy\<lparr>rq_tickerId := 8\<rparr>"]
      engine_survives_iff [OF run, of "demo_buy\<lparr>rq_qty := 0\<rparr>"]
    by (simp add: request_survives_def demo_buy_def limit_defs)
qed

text \<open>
  A cancel from a client number the lookup table has no row for is swallowed: the engine sends
  neither a cancellation nor a rejection, and nothing changes.
\<close>

theorem cancel_unknown_client_is_silent:
  assumes "rq_requestType r = Request_CANCEL" and "unat (rq_tickerId r) < ME_MAX_TICKERS"
    and "ME_MAX_NUM_CLIENTS \<le> unat (rq_clientId r)"
  shows "processClientRequest r e = Inr e"
  using assms by (simp add: processClientRequest_def cancel_def Let_def)

theorem cancel_unknown_client_is_silent_witness:
  "processClientRequest (demo_buy\<lparr>rq_requestType := Request_CANCEL, rq_clientId := 256\<rparr>) demo_engine =
    Inr demo_engine"
  by (rule cancel_unknown_client_is_silent) (simp_all add: demo_buy_def limit_defs)

section \<open>Prices that share an index\<close>

lemma priceToIndex_alias: "priceToIndex (price + 256 * k) = priceToIndex price"
proof -
  have "unat (price + 256 * k) = (unat price + 256 * unat k) mod 2 ^ 64"
    by (simp add: unat_word_ariths mod_simps)
  then have "unat (price + 256 * k) mod 256 = (unat price + 256 * unat k) mod 2 ^ 64 mod 256" by (simp only:)
  also have "\<dots> = (unat price + 256 * unat k) mod 256" by (rule mod_mod_cancel) simp
  finally show ?thesis by (simp add: priceToIndex_def limit_defs)
qed

definition spec_room :: "spec_book \<Rightarrow> Price \<Rightarrow> bool" where
  "spec_room A price \<longleftrightarrow> Suc (sp_tickets A) < ME_MAX_ORDER_IDS \<and>
     (sp_queue A (priceToIndex price) = [] \<longrightarrow> Suc (sp_levels A) < ME_MAX_PRICE_LEVELS)"

lemma spec_room_abs [simp]: "spec_room (abs_book b) price = has_room b price"
  by (simp add: spec_room_def has_room_def)

definition spec_order ::
    "spec_book \<Rightarrow> ClientId \<Rightarrow> OrderId \<Rightarrow> TickerId \<Rightarrow> Side \<Rightarrow> Price \<Rightarrow> Qty \<Rightarrow> MEOrder" where
  "spec_order A clientId oid tickerId side price qty =
     \<lparr>ord_tickerId = tickerId, ord_clientId = clientId, ord_client_orderId = oid,
      ord_market_orderId = sp_next_id A, ord_side = side, ord_price = price, ord_qty = qty,
      ord_priority = spec_priority A (priceToIndex price), ord_prev = None, ord_next = None\<rparr>"

lemma spec_add_ok:
  assumes "qty \<noteq> 0" and "spec_room A price"
    and "unat clientId < ME_MAX_NUM_CLIENTS" and "unat oid < ME_MAX_ORDER_IDS"
  shows "spec_add A clientId oid tickerId side price qty =
    Inr (spec_insert (A\<lparr>sp_next_id := sp_next_id A + 1\<rparr>) (spec_order A clientId oid tickerId side price qty),
      [accepted_response clientId oid tickerId side price qty (sp_next_id A)],
      [add_update (sp_next_id A) tickerId side price qty (spec_priority A (priceToIndex price))])"
  using assms by (simp add: spec_add_def Let_def spec_room_def spec_order_def)

lemma spec_insert_fields:
  assumes "i = priceToIndex (ord_price x)"
  shows "sp_queue (spec_insert A x) i = sp_queue A i @ [sp_tickets A]"
    "sp_tickets (spec_insert A x) = Suc (sp_tickets A)"
    "sp_next_id (spec_insert A x) = sp_next_id A"
    "spec_priority (spec_insert A x) i = ord_priority x + 1"
  using assms by (simp_all add: spec_insert_def Let_def spec_priority_def)

text \<open>
  Prices that differ by a multiple of 256 share one level: an order at such a price is queued
  behind the other price's order, on either side of the book, and its market update announces a
  time priority one higher, as if both prices were one.
\<close>

theorem aliased_prices_share_level:
  assumes "book_inv b" and "qty \<noteq> 0" and "qty' \<noteq> 0"
    and "Suc (Suc (next_free_index (order_pool b))) < ME_MAX_ORDER_IDS" and "has_room b price"
    and "unat clientId < ME_MAX_NUM_CLIENTS" and "unat oid < ME_MAX_ORDER_IDS"
    and "unat clientId' < ME_MAX_NUM_CLIENTS" and "unat oid' < ME_MAX_ORDER_IDS"
  shows "\<exists>io1 b1 b2 rs. add io b clientId oid tickerId side price qty = Inr (io1, b1) \<and>
    add io1 b1 clientId' oid' tickerId side' (price + 256 * k) qty' = Inr (io_after io rs
      [add_update (next_market_order_id b) tickerId side price qty (next_priority b (priceToIndex price)),
       add_update (next_market_order_id b + 1) tickerId side' (price + 256 * k) qty'
         (next_priority b (priceToIndex price) + 1)], b2) \<and>
    resting b2 (priceToIndex price) = resting b (priceToIndex price) @
      [next_free_index (order_pool b), Suc (next_free_index (order_pool b))]"
proof -
  let ?A = "abs_book b" and ?i = "priceToIndex price" and ?p = "next_free_index (order_pool b)"
  let ?x = "spec_order ?A clientId oid tickerId side price qty"
  define A1 where "A1 = spec_insert (?A\<lparr>sp_next_id := sp_next_id ?A + 1\<rparr>) ?x"
  let ?x' = "spec_order A1 clientId' oid' tickerId side' (price + 256 * k) qty'"
  have i: "?i = priceToIndex (ord_price ?x)" "?i = priceToIndex (ord_price ?x')"
    by (simp_all add: spec_order_def priceToIndex_alias)
  have f: "sp_queue A1 ?i = resting b ?i @ [?p]" "sp_tickets A1 = Suc ?p"
      "sp_next_id A1 = next_market_order_id b + 1" "spec_priority A1 ?i = next_priority b ?i + 1"
    using spec_insert_fields [OF i(1)] by (simp_all add: A1_def spec_order_def)
  have room: "spec_room A1 (price + 256 * k)" using assms(4) f by (simp add: spec_room_def priceToIndex_alias)
  note A1 = spec_add_ok [of qty ?A price clientId oid tickerId side, folded A1_def]
    and A2 = spec_add_ok [of qty' A1 "price + 256 * k" clientId' oid' tickerId side', OF assms(3) room assms(8,9)]
  obtain b1 r1 where b1: "abs_book b1 = A1" "book_inv b1"
    and run1: "add io b clientId oid tickerId side price qty = Inr (io_after io [r1]
      [add_update (next_market_order_id b) tickerId side price qty (next_priority b ?i)], b1)"
    using add_implements [OF assms(1), of io clientId oid tickerId side price qty] A1 assms
    by (auto simp: implements_def)
  let ?io1 = "io_after io [r1] [add_update (next_market_order_id b) tickerId side price qty (next_priority b ?i)]"
  obtain b2 r2 where b2: "abs_book b2 = spec_insert (A1\<lparr>sp_next_id := sp_next_id A1 + 1\<rparr>) ?x'"
    and run2: "add ?io1 b1 clientId' oid' tickerId side' (price + 256 * k) qty' = Inr (io_after ?io1 [r2]
      [add_update (next_market_order_id b + 1) tickerId side' (price + 256 * k) qty' (next_priority b ?i + 1)], b2)"
    using add_implements [OF b1(2), of ?io1 clientId' oid' tickerId side' "price + 256 * k" qty'] A2 b1(1) f
    by (auto simp: implements_def priceToIndex_alias)
  have q2: "sp_queue (abs_book b2) ?i = resting b ?i @ [?p, Suc ?p]"
    using spec_insert_fields(1) [OF i(2), of "A1\<lparr>sp_next_id := sp_next_id A1 + 1\<rparr>"] f by (simp add: b2)
  have "resting b2 ?i = resting b ?i @ [?p, Suc ?p]"
    using q2 by simp
  then show ?thesis using run1 run2 unfolding io_after_simps append.simps by blast
qed

theorem aliased_prices_share_level_witness:
  "\<exists>io1 b1 b2 rs. add demo_io (MEOrderBook_zeroed 3) 1 7 3 BUY 100 10 = Inr (io1, b1) \<and>
    add io1 b1 2 9 3 SELL 356 10 = Inr (io_after demo_io rs
      [add_update 1 3 BUY 100 10 1, add_update 2 3 SELL 356 10 2], b2) \<and> resting b2 100 = [0, 1]"
proof -
  let ?b = "MEOrderBook_zeroed 3"
  have rest: "resting ?b = (\<lambda>_. [])"
    using abs_book_zeroed [of 3] by (metis abs_book_fields(2) spec_book.select_convs(2))
  have f: "next_free_index (order_pool ?b) = 0" "next_free_index (price_levels_pool ?b) = 0"
    "next_market_order_id ?b = 1"
    by (simp_all add: MEOrderBook_zeroed_def MEOrderBook_ctor_def)
  have i: "priceToIndex 100 = 100" by (simp add: priceToIndex_def limit_defs)
  show ?thesis
    using aliased_prices_share_level [OF book_inv_init [of 3], of 10 10 100 1 7 2 9 demo_io 3 BUY SELL 1]
    by (simp add: has_room_def rest f limit_defs next_priority_def i)
qed

section \<open>The matching routine\<close>

lemma min_split:
  fixes a b :: "'a :: len word"
  shows "unat (min a b) + unat (a - min a b) = unat a" "unat (min a b) + unat (b - min a b) = unat b"
    "a - min a b = 0 \<or> b - min a b = 0"
  by (auto simp: min_def unat_sub word_le_nat_alt)



end
