(* ===== verification/FIFOSequencer.thy ===== *)
theory FIFOSequencer
  imports Messages LFQueue "HOL-Library.Multiset"
begin

text \<open>
  exchange/order_server/fifo_sequencer.h: requests read from the sockets are collected with the
  time the kernel received them, then sorted by that time and published to the matching engine's
  queue. The array of pending requests is the list of its first \<open>pending_size_\<close> entries.
  \<open>std::sort\<close> promises a permutation ordered by \<open>operator<\<close> and nothing about elements that
  compare equal, so the sorting function is a parameter with just these laws.
\<close>

definition ME_MAX_PENDING_REQUESTS :: nat where "ME_MAX_PENDING_REQUESTS = 1024"

datatype RecvTimeClientRequest = RecvTimeClientRequest (recv_time: Nanos) (recv_request: MEClientRequest)

text \<open>\<open>operator<\<close> compares the receive times only.\<close>

definition recv_time_less :: "RecvTimeClientRequest \<Rightarrow> RecvTimeClientRequest \<Rightarrow> bool" where
  "recv_time_less x rhs \<longleftrightarrow> recv_time x < recv_time rhs"

instantiation RecvTimeClientRequest :: preorder
begin

definition less_RecvTimeClientRequest :: "RecvTimeClientRequest \<Rightarrow> RecvTimeClientRequest \<Rightarrow> bool" where
  "less_RecvTimeClientRequest = recv_time_less"

definition less_eq_RecvTimeClientRequest :: "RecvTimeClientRequest \<Rightarrow> RecvTimeClientRequest \<Rightarrow> bool" where
  "less_eq_RecvTimeClientRequest x rhs \<longleftrightarrow> recv_time x \<le> recv_time rhs"

instance
  by standard (auto simp: less_RecvTimeClientRequest_def recv_time_less_def less_eq_RecvTimeClientRequest_def)

end

type_synonym sorter = "RecvTimeClientRequest list \<Rightarrow> RecvTimeClientRequest list"

record FIFOSequencer =
  pending_client_requests :: "RecvTimeClientRequest list"
  sq_incoming_requests :: "MEClientRequest LFQueue"

definition FIFOSequencer_ctor :: "MEClientRequest LFQueue \<Rightarrow> FIFOSequencer" where
  "FIFOSequencer_ctor client_requests =
     \<lparr>pending_client_requests = [], sq_incoming_requests = client_requests\<rparr>"

definition addClientRequest :: "Nanos \<Rightarrow> MEClientRequest \<Rightarrow> FIFOSequencer \<Rightarrow> FIFOSequencer res" where
  "addClientRequest rx_time client_request s =
     (if ME_MAX_PENDING_REQUESTS \<le> length (pending_client_requests s)
      then FATAL ''To many pending requests''
      else Inr (s\<lparr>pending_client_requests :=
        pending_client_requests s @ [RecvTimeClientRequest rx_time client_request]\<rparr>))"

definition sequenceAndPublish :: "sorter \<Rightarrow> FIFOSequencer \<Rightarrow> FIFOSequencer" where
  "sequenceAndPublish srt s =
     (if pending_client_requests s = [] then s
      else s\<lparr>sq_incoming_requests := lfq_push_all (sq_incoming_requests s)
               (map recv_request (srt (pending_client_requests s))),
             pending_client_requests := []\<rparr>)"

section \<open>What \<open>std::sort\<close> promises\<close>

locale std_sort =
  fixes srt :: sorter
  assumes sort_mset: "mset (srt xs) = mset xs"
    and sort_ordered: "sorted_wrt (\<lambda>x y. \<not> y < x) (srt xs)"
begin

lemma sort_length [simp]: "length (srt xs) = length xs"
  by (metis sort_mset size_mset)

lemma sort_set [simp]: "set (srt xs) = set xs"
  by (metis sort_mset set_mset_mset)

lemma sort_times: "sorted (map recv_time (srt xs))"
  using sort_ordered [of xs]
  by (simp add: sorted_wrt_map less_RecvTimeClientRequest_def recv_time_less_def not_less)

text \<open>Distinct receive times leave the sort no choice.\<close>

lemma sort_unique:
  assumes "distinct (map recv_time xs)"
  shows "srt xs = sort_key recv_time xs"
proof -
  have perm: "distinct (map recv_time ys)" if "mset ys = mset xs" for ys
    using that assms by (metis mset_map mset_eq_imp_distinct_iff)
  have "inj_on recv_time (set (srt xs) \<union> set (sort_key recv_time xs))"
    using assms by (simp add: distinct_map)
  then show ?thesis
    by (rule map_sorted_distinct_set_unique)
       (simp_all add: sort_times perm [OF sort_mset] perm [OF mset_sort])
qed

text \<open>Requests that are already in order, without ties, stay as they are.\<close>

lemma sort_strictly_sorted: "sorted_wrt (<) (map recv_time xs) \<Longrightarrow> srt xs = xs"
  by (metis sort_unique strict_sorted_iff sort_key_id_if_sorted)

end

lemma sort_key_ordered: "sorted_wrt (\<lambda>x y. \<not> y < x) (sort_key recv_time xs)"
  using sorted_sort_key [of recv_time xs]
  by (simp add: sorted_wrt_map less_RecvTimeClientRequest_def recv_time_less_def not_less)

interpretation stable: std_sort "sort_key recv_time"
  by unfold_locales (simp_all add: sort_key_ordered)

section \<open>What is published\<close>

lemma addClientRequest_Inr:
  "addClientRequest t r s = Inr s' \<Longrightarrow> s' = s\<lparr>pending_client_requests :=
     pending_client_requests s @ [RecvTimeClientRequest t r]\<rparr>"
  by (auto simp: addClientRequest_def FATAL_def split: if_splits)

definition timed :: "Nanos \<times> MEClientRequest \<Rightarrow> RecvTimeClientRequest" where
  "timed tr = RecvTimeClientRequest (fst tr) (snd tr)"

definition untimed :: "RecvTimeClientRequest \<Rightarrow> Nanos \<times> MEClientRequest" where
  "untimed x = (recv_time x, recv_request x)"

lemma timed_simps [simp]: "untimed (timed tr) = tr" "recv_time (timed tr) = fst tr"
  "recv_request (timed tr) = snd tr" "fst (untimed x) = recv_time x" "snd (untimed x) = recv_request x"
  by (simp_all add: timed_def untimed_def)

lemma add_all:
  assumes "foldR (\<lambda>tr. addClientRequest (fst tr) (snd tr)) trs s = Inr s'"
  shows "s' = s\<lparr>pending_client_requests := pending_client_requests s @ map timed trs\<rparr>"
  using assms
proof (induction trs arbitrary: s)
  case (Cons x trs)
  then obtain s1 where s1: "addClientRequest (fst x) (snd x) s = Inr s1"
    and rest: "foldR (\<lambda>tr. addClientRequest (fst tr) (snd tr)) trs s1 = Inr s'"
    by (auto simp: bindR_eq_Inr)
  show ?case using Cons.IH [OF rest] addClientRequest_Inr [OF s1] by (simp add: timed_def)
qed simp

text \<open>
  C23. Whatever sorting routine keeps \<open>std::sort\<close>'s promise, the sequencer publishes exactly the
  requests that were added, each once, ordered by their receive times; when these grow strictly,
  in the order of arrival.
\<close>

theorem sequencer_publishes_by_time:
  assumes srt: "std_sort srt" and empty: "pending_client_requests s = []"
    and added: "foldR (\<lambda>tr. addClientRequest (fst tr) (snd tr)) trs s = Inr s'"
    and q: "lfq_inv (sq_incoming_requests s)"
      "store_count (sq_incoming_requests s) + length trs < ring_size (sq_incoming_requests s)"
  shows "\<exists>zs. mset zs = mset trs \<and> sorted (map fst zs) \<and>
    lfq_list (sq_incoming_requests (sequenceAndPublish srt s')) =
      lfq_list (sq_incoming_requests s) @ map snd zs \<and>
    (sorted_wrt (<) (map fst trs) \<longrightarrow> zs = trs)"
proof -
  let ?xs = "map timed trs" and ?q = "sq_incoming_requests s"
  let ?zs = "map untimed (srt ?xs)"
  have s': "s' = s\<lparr>pending_client_requests := ?xs\<rparr>" using add_all [OF added] empty by simp
  have untimed: "map untimed ?xs = trs" by (simp add: comp_def)
  have "mset ?zs = image_mset untimed (mset ?xs)" by (simp only: mset_map std_sort.sort_mset [OF srt])
  also have "\<dots> = mset trs" by (simp only: mset_map [symmetric] untimed)
  finally have perm: "mset ?zs = mset trs" .
  have times: "sorted (map fst ?zs)"
    using std_sort.sort_times [OF srt, of ?xs] by (simp add: comp_def)
  have len: "length (map snd ?zs) = length trs" by (simp add: std_sort.sort_length [OF srt])
  have "sequenceAndPublish srt s' = (if trs = [] then s' else s'\<lparr>sq_incoming_requests :=
      lfq_push_all ?q (map snd ?zs), pending_client_requests := []\<rparr>)"
    by (simp add: sequenceAndPublish_def s' comp_def)
  then have pub: "lfq_list (sq_incoming_requests (sequenceAndPublish srt s')) = lfq_list ?q @ map snd ?zs"
    using lfq_push_all_list [OF q(1), of "map snd ?zs"] q(2) len by (cases "trs = []") (auto simp: s')
  have "?zs = trs" if "sorted_wrt (<) (map fst trs)"
  proof -
    have "sorted_wrt (<) (map recv_time ?xs)" using that by (simp add: comp_def)
    then have "srt ?xs = ?xs" by (rule std_sort.sort_strictly_sorted [OF srt])
    then show ?thesis using untimed by simp
  qed
  then show ?thesis using perm times pub by blast
qed

theorem sequencer_publishes_by_time_witness:
  "\<forall>r1 r2. lfq_list (sq_incoming_requests (sequenceAndPublish (sort_key recv_time)
     ((FIFOSequencer_ctor (LFQueue_ctor 8 MEClientRequest_default))
        \<lparr>pending_client_requests := [timed (5, r1), timed (9, r2)]\<rparr>))) = [r1, r2]"
proof (intro allI)
  fix r1 r2
  let ?s = "FIFOSequencer_ctor (LFQueue_ctor 8 MEClientRequest_default)"
  have "foldR (\<lambda>tr. addClientRequest (fst tr) (snd tr)) [(5, r1), (9, r2)] ?s =
      Inr (?s\<lparr>pending_client_requests := [timed (5, r1), timed (9, r2)]\<rparr>)"
    by (simp add: addClientRequest_def FIFOSequencer_ctor_def ME_MAX_PENDING_REQUESTS_def timed_def)
  from sequencer_publishes_by_time [OF stable.std_sort_axioms _ this] show "lfq_list (sq_incoming_requests (sequenceAndPublish (sort_key recv_time)
    (?s\<lparr>pending_client_requests := [timed (5, r1), timed (9, r2)]\<rparr>))) = [r1, r2]"
    by (auto simp: FIFOSequencer_ctor_def)
qed

text \<open>
  Receive times that tie leave the order open, and every request read from a socket in one
  call carries the same time: a sorting routine that keeps \<open>std::sort\<close>'s promise can publish two
  such requests in the reverse of the order their client sent them.
\<close>

theorem sequencer_may_swap_ties:
  "\<exists>srt. std_sort srt \<and> (\<forall>t r1 r2 q. sq_incoming_requests (sequenceAndPublish srt
     \<lparr>pending_client_requests = [RecvTimeClientRequest t r1, RecvTimeClientRequest t r2],
      sq_incoming_requests = q\<rparr>) = lfq_push_all q [r2, r1])"
proof (intro exI conjI allI)
  let ?srt = "\<lambda>xs. sort_key recv_time (rev xs)"
  show "std_sort ?srt" by unfold_locales (simp_all add: sort_key_ordered)
  fix t r1 r2 q
  show "sq_incoming_requests (sequenceAndPublish ?srt
     \<lparr>pending_client_requests = [RecvTimeClientRequest t r1, RecvTimeClientRequest t r2],
      sq_incoming_requests = q\<rparr>) = lfq_push_all q [r2, r1]"
    by (simp add: sequenceAndPublish_def)
qed

end
