(* ===== verification/SocketUtils.thy ===== *)
theory SocketUtils
  imports CommonTypes "HOL-Library.State_Monad"
begin

text \<open>
  common/socket_utils.h and socket_utils.cpp: opening and configuring sockets. The kernel is a
  parameter: what it answers to a call may depend on all calls made before, which are the state
  that the operations thread. \<open>'a\<close> is the type of socket addresses. The constants of the system's
  headers are constructors, except for the flags of a descriptor, which are bits.
\<close>

datatype socktype = SOCK_STREAM | SOCK_DGRAM
datatype protocol = IPPROTO_TCP | IPPROTO_UDP | IPPROTO_IP | SOL_SOCKET
datatype sockopt = TCP_NODELAY | SO_TIMESTAMP | SO_TIMESTAMPNS | SO_REUSEADDR | IP_TTL | IP_MULTICAST_TTL
datatype errno = EWOULDBLOCK | EINPROGRESS | Other_errno nat

datatype 'a syscall =
    Sys_socket int socktype protocol
  | Sys_get_flags int
  | Sys_set_flags int u32
  | Sys_setsockopt int protocol sockopt int
  | Sys_add_membership int string
  | Sys_connect int 'a
  | Sys_bind int 'a
  | Sys_listen int int
  | Sys_close int
  | Sys_epoll_create
  | Sys_epoll_add int int
  | Sys_epoll_del int int

record hints =
  hi_socktype :: socktype
  hi_protocol :: protocol
  hi_passive :: bool
  hi_numerichost :: bool
  hi_numericserv :: bool

record 'a addrinfo =
  ai_family :: int
  ai_socktype :: socktype
  ai_protocol :: protocol
  ai_addr :: 'a

text \<open>An interface: its name, whether it has an IPv4 address, and that address as text.\<close>

record ifaddr =
  ifa_name :: string
  ifa_inet :: bool
  ifa_host :: string

record 'a kernel =
  answer :: "'a syscall list \<Rightarrow> 'a syscall \<Rightarrow> int"
  last_error :: "'a syscall list \<Rightarrow> errno"
  getaddrinfo :: "string \<Rightarrow> string \<Rightarrow> hints \<Rightarrow> 'a addrinfo list option"
  getifaddrs :: "ifaddr list option"

type_synonym ('a, 'r) sys = "('a syscall list, 'r) state"

definition call :: "'a kernel \<Rightarrow> 'a syscall \<Rightarrow> ('a, int) sys" where
  "call K c = State (\<lambda>made. (answer K made c, made @ [c]))"

lemma run_call [simp]: "run_state (call K c) made = (answer K made c, made @ [c])"
  by (simp add: call_def)

section \<open>Configuring a descriptor\<close>

definition MaxTCPServerBacklog :: int where "MaxTCPServerBacklog = 1024"

definition O_NONBLOCK :: u32 where "O_NONBLOCK = 0x800"

definition getIfaceIP :: "'a kernel \<Rightarrow> string \<Rightarrow> string" where
  "getIfaceIP K iface =
     (case getifaddrs K of
        None \<Rightarrow> ''''
      | Some ifaddr \<Rightarrow>
          (case find (\<lambda>ifa. ifa_inet ifa \<and> iface = ifa_name ifa) ifaddr of
             None \<Rightarrow> '''' | Some ifa \<Rightarrow> ifa_host ifa))"

definition setNonBlocking :: "'a kernel \<Rightarrow> int \<Rightarrow> ('a, bool) sys" where
  "setNonBlocking K fd = do {
     flags \<leftarrow> call K (Sys_get_flags fd);
     if and (word_of_int flags) O_NONBLOCK \<noteq> 0 then State_Monad.return True
     else do {
       rc \<leftarrow> call K (Sys_set_flags fd (or (word_of_int flags) O_NONBLOCK));
       State_Monad.return (rc \<noteq> - 1)
     }
   }"

definition setNoDelay :: "'a kernel \<Rightarrow> int \<Rightarrow> ('a, bool) sys" where
  "setNoDelay K fd = do {
     rc \<leftarrow> call K (Sys_setsockopt fd IPPROTO_TCP TCP_NODELAY 1);
     State_Monad.return (rc \<noteq> - 1)
   }"

definition setSOTimestamp :: "'a kernel \<Rightarrow> int \<Rightarrow> ('a, bool) sys" where
  "setSOTimestamp K fd = do {
     rc \<leftarrow> call K (Sys_setsockopt fd SOL_SOCKET SO_TIMESTAMP 1);
     State_Monad.return (rc \<noteq> - 1)
   }"

definition setSOTimestampNs :: "'a kernel \<Rightarrow> int \<Rightarrow> ('a, bool) sys" where
  "setSOTimestampNs K fd = do {
     rc \<leftarrow> call K (Sys_setsockopt fd SOL_SOCKET SO_TIMESTAMPNS 1);
     State_Monad.return (rc \<noteq> - 1)
   }"

definition wouldBlock :: "'a kernel \<Rightarrow> ('a, bool) sys" where
  "wouldBlock K = do {
     made \<leftarrow> State_Monad.get;
     State_Monad.return (last_error K made = EWOULDBLOCK \<or> last_error K made = EINPROGRESS)
   }"

definition setTTL :: "'a kernel \<Rightarrow> int \<Rightarrow> int \<Rightarrow> ('a, bool) sys" where
  "setTTL K fd ttl = do {
     rc \<leftarrow> call K (Sys_setsockopt fd IPPROTO_TCP IP_TTL ttl);
     State_Monad.return (rc \<noteq> - 1)
   }"

definition setMcastTTL :: "'a kernel \<Rightarrow> int \<Rightarrow> int \<Rightarrow> ('a, bool) sys" where
  "setMcastTTL K fd mcast_ttl = do {
     rc \<leftarrow> call K (Sys_setsockopt fd IPPROTO_IP IP_MULTICAST_TTL mcast_ttl);
     State_Monad.return (rc \<noteq> - 1)
   }"

definition join_group :: "'a kernel \<Rightarrow> int \<Rightarrow> string \<Rightarrow> ('a, bool) sys" where
  "join_group K fd ip = do {
     rc \<leftarrow> call K (Sys_add_membership fd ip);
     State_Monad.return (rc \<noteq> - 1)
   }"

section \<open>Opening a socket\<close>

text \<open>\<open>atoi\<close>: leading blanks, a sign, and digits up to the first other character.\<close>

definition is_digit :: "char \<Rightarrow> bool" where
  "is_digit c \<longleftrightarrow> 48 \<le> (of_char c :: nat) \<and> (of_char c :: nat) \<le> 57"

definition leading_number :: "string \<Rightarrow> int" where
  "leading_number s = int (string_to_nat (takeWhile is_digit s))"

definition atoi :: "string \<Rightarrow> int" where
  "atoi s =
     (let t = dropWhile (\<lambda>c. c = CHR '' '' \<or> (9 \<le> (of_char c :: nat) \<and> (of_char c :: nat) \<le> 13)) s in
      if t \<noteq> [] \<and> hd t = CHR ''-'' then - leading_number (tl t)
      else if t \<noteq> [] \<and> hd t = CHR ''+'' then leading_number (tl t) else leading_number t)"

definition multicast_address :: "string \<Rightarrow> bool" where
  "multicast_address ip \<longleftrightarrow> and (word_of_int (atoi ip) :: u32) 0xe0 \<noteq> 0"

definition socket_hints :: "string \<Rightarrow> bool \<Rightarrow> bool \<Rightarrow> hints" where
  "socket_hints ip is_udp is_listening =
     \<lparr>hi_socktype = (if is_udp then SOCK_DGRAM else SOCK_STREAM),
      hi_protocol = (if is_udp then IPPROTO_UDP else IPPROTO_TCP), hi_passive = is_listening,
      hi_numerichost = (ip \<noteq> [] \<and> is_digit (hd ip)), hi_numericserv = True\<rparr>"

text \<open>A check that leaves the function with -1 when it fails.\<close>

definition require :: "('a, bool) sys \<Rightarrow> ('a, int option) sys \<Rightarrow> ('a, int option) sys" where
  "require check rest = do {
     ok \<leftarrow> check;
     if ok then rest else State_Monad.return None
   }"

definition prepare_blocking :: "'a kernel \<Rightarrow> bool \<Rightarrow> bool \<Rightarrow> int \<Rightarrow> ('a, bool) sys" where
  "prepare_blocking K is_udp is_blocking fd =
     (if is_blocking then State_Monad.return True
      else do {
        nonblocking \<leftarrow> setNonBlocking K fd;
        if \<not> nonblocking then State_Monad.return False
        else if is_udp then State_Monad.return True else setNoDelay K fd
      })"

text \<open>A failed connection is looked for as the answer 1.\<close>

definition try_connect :: "'a kernel \<Rightarrow> bool \<Rightarrow> int \<Rightarrow> 'a \<Rightarrow> ('a, bool) sys" where
  "try_connect K is_listening fd addr =
     (if is_listening then State_Monad.return True
      else do {
        rc \<leftarrow> call K (Sys_connect fd addr);
        if rc = 1 then do {
          blocked \<leftarrow> wouldBlock K;
          State_Monad.return blocked
        } else State_Monad.return True
      })"

definition try_listen :: "'a kernel \<Rightarrow> bool \<Rightarrow> bool \<Rightarrow> int \<Rightarrow> 'a \<Rightarrow> ('a, bool) sys" where
  "try_listen K is_udp is_listening fd addr =
     (if \<not> is_listening then State_Monad.return True
      else do {
        rc \<leftarrow> call K (Sys_setsockopt fd SOL_SOCKET SO_REUSEADDR 1);
        if rc = - 1 then State_Monad.return False
        else do {
          rc \<leftarrow> call K (Sys_bind fd addr);
          if rc = - 1 then State_Monad.return False
          else if is_udp then State_Monad.return True
          else do {
            rc \<leftarrow> call K (Sys_listen fd MaxTCPServerBacklog);
            State_Monad.return (rc \<noteq> - 1)
          }
        }
      })"

definition try_ttl :: "'a kernel \<Rightarrow> string \<Rightarrow> bool \<Rightarrow> int \<Rightarrow> int \<Rightarrow> ('a, bool) sys" where
  "try_ttl K ip is_udp ttl fd =
     (if is_udp \<and> ttl \<noteq> 0 then
        if multicast_address ip then setMcastTTL K fd ttl else setTTL K fd ttl
      else State_Monad.return True)"

text \<open>The body of the loop over the addresses: the new descriptor, or \<open>None\<close> where it returns -1.\<close>

definition open_address ::
    "'a kernel \<Rightarrow> string \<Rightarrow> bool \<Rightarrow> bool \<Rightarrow> bool \<Rightarrow> int \<Rightarrow> bool \<Rightarrow> 'a addrinfo \<Rightarrow> ('a, int option) sys" where
  "open_address K ip is_udp is_blocking is_listening ttl needs_so_timestamp rp = do {
     fd \<leftarrow> call K (Sys_socket (ai_family rp) (ai_socktype rp) (ai_protocol rp));
     if fd = - 1 then State_Monad.return None
     else require (prepare_blocking K is_udp is_blocking fd)
         (require (try_connect K is_listening fd (ai_addr rp))
         (require (try_listen K is_udp is_listening fd (ai_addr rp))
         (require (try_ttl K ip is_udp ttl fd)
         (require (if needs_so_timestamp then setSOTimestamp K fd else State_Monad.return True)
            (State_Monad.return (Some fd))))))
   }"

fun open_addresses :: "('a addrinfo \<Rightarrow> ('a, int option) sys) \<Rightarrow> 'a addrinfo list \<Rightarrow> int \<Rightarrow> ('a, int) sys" where
  "open_addresses open_one [] fd = State_Monad.return fd"
| "open_addresses open_one (rp # rps) fd = do {
     opened \<leftarrow> open_one rp;
     case opened of None \<Rightarrow> State_Monad.return (- 1) | Some fd' \<Rightarrow> open_addresses open_one rps fd'
   }"

definition createSocket ::
    "'a kernel \<Rightarrow> string \<Rightarrow> string \<Rightarrow> int \<Rightarrow> bool \<Rightarrow> bool \<Rightarrow> bool \<Rightarrow> int \<Rightarrow> bool \<Rightarrow> ('a, int) sys" where
  "createSocket K t_ip iface port is_udp is_blocking is_listening ttl needs_so_timestamp =
     (let ip = (if t_ip = [] then getIfaceIP K iface else t_ip) in
      case getaddrinfo K ip (int_to_string port) (socket_hints ip is_udp is_listening) of
        None \<Rightarrow> State_Monad.return (- 1)
      | Some result \<Rightarrow> open_addresses
          (open_address K ip is_udp is_blocking is_listening ttl needs_so_timestamp) result (- 1))"

record SocketCfg =
  cfg_ip :: string
  cfg_iface :: string
  cfg_port :: int
  cfg_is_udp :: bool
  cfg_is_listening :: bool
  cfg_needs_so_timestamp :: bool

definition bool_to_string :: "bool \<Rightarrow> string" where
  "bool_to_string b = (if b then ''1'' else ''0'')"

definition SocketCfg_toString :: "SocketCfg \<Rightarrow> string" where
  "SocketCfg_toString c = ''SocketCfg[ip:'' @ cfg_ip c @ '' iface:'' @ cfg_iface c @
     '' port:'' @ int_to_string (cfg_port c) @ '' is_udp:'' @ bool_to_string (cfg_is_udp c) @
     '' is_listening:'' @ bool_to_string (cfg_is_listening c) @ '' needs_SO_timestamp:'' @
     bool_to_string (cfg_needs_so_timestamp c) @ '']''"

section \<open>What a run does\<close>

lemma run_require [simp]:
  "run_state (require check rest) made =
     (case run_state check made of (ok, made') \<Rightarrow> if ok then run_state rest made' else (None, made'))"
  by (simp add: require_def split: prod.splits)

lemmas sys_defs = setNonBlocking_def setNoDelay_def setSOTimestamp_def setSOTimestampNs_def wouldBlock_def
  setTTL_def setMcastTTL_def prepare_blocking_def try_connect_def try_listen_def try_ttl_def
  Let_def

text \<open>A kernel on which everything succeeds but perhaps the connection.\<close>

definition obliging :: "'a kernel \<Rightarrow> 'a addrinfo \<Rightarrow> int \<Rightarrow> bool" where
  "obliging K rp fd \<longleftrightarrow> fd \<noteq> - 1 \<and>
     (\<forall>made. answer K made (Sys_socket (ai_family rp) (ai_socktype rp) (ai_protocol rp)) = fd) \<and>
     (\<forall>made. answer K made (Sys_get_flags fd) = 2) \<and>
     (\<forall>made flags. answer K made (Sys_set_flags fd flags) \<noteq> - 1) \<and>
     (\<forall>made level name v. answer K made (Sys_setsockopt fd level name v) \<noteq> - 1) \<and>
     (\<forall>made a. answer K made (Sys_bind fd a) \<noteq> - 1) \<and> (\<forall>made n. answer K made (Sys_listen fd n) \<noteq> - 1)"

text \<open>
  A client does not notice that nobody listens: \<open>connect\<close> fails with -1, as documented, but the
  code compares with 1, so whatever \<open>connect\<close> and \<open>errno\<close> say, the descriptor is returned as if
  it were connected.
\<close>

theorem refused_connection_unnoticed:
  assumes "obliging K rp fd" and "\<And>made a. answer K made (Sys_connect fd a) \<in> {0, - 1}"
    and "ip \<noteq> []" and "getaddrinfo K ip (int_to_string port) (socket_hints ip False False) = Some [rp]"
  shows "\<exists>made'. run_state (createSocket K ip iface port False False False 0 True) made = (fd, made') \<and>
    Sys_connect fd (ai_addr rp) \<in> set made'"
proof -
  have c: "answer K m (Sys_connect fd a) \<noteq> 1" for m a using assms(2) [of m a] by auto
  show ?thesis
    using assms(1,3,4) c
    by (simp add: createSocket_def open_address_def sys_defs obliging_def O_NONBLOCK_def)
qed

text \<open>
  A server's socket is configured in the right order: with one address and a kernel on which every
  call succeeds, the calls are exactly these, every option before the descriptor is bound.
\<close>

theorem server_socket_calls:
  assumes "obliging K rp fd" and "getaddrinfo K ip (int_to_string port) (socket_hints ip False True) = Some [rp]"
    and "ip = (if t_ip = [] then getIfaceIP K iface else t_ip)"
  shows "run_state (createSocket K t_ip iface port False False True 0 True) [] =
    (fd, [Sys_socket (ai_family rp) (ai_socktype rp) (ai_protocol rp), Sys_get_flags fd,
      Sys_set_flags fd (or 2 O_NONBLOCK), Sys_setsockopt fd IPPROTO_TCP TCP_NODELAY 1,
      Sys_setsockopt fd SOL_SOCKET SO_REUSEADDR 1, Sys_bind fd (ai_addr rp),
      Sys_listen fd MaxTCPServerBacklog, Sys_setsockopt fd SOL_SOCKET SO_TIMESTAMP 1])"
  using assms by (simp add: createSocket_def open_address_def sys_defs obliging_def O_NONBLOCK_def)

text \<open>The demonstration kernel: descriptor 5, and every connection is refused.\<close>

definition refusing_kernel :: "unit kernel" where
  "refusing_kernel = \<lparr>answer = (\<lambda>made c. case c of Sys_socket _ _ _ \<Rightarrow> 5 | Sys_get_flags _ \<Rightarrow> 2
       | Sys_connect _ _ \<Rightarrow> - 1 | _ \<Rightarrow> 0), last_error = (\<lambda>made. Other_errno 111),
     getaddrinfo = (\<lambda>ip service h. Some [\<lparr>ai_family = 2, ai_socktype = hi_socktype h,
       ai_protocol = hi_protocol h, ai_addr = ()\<rparr>]), getifaddrs = None\<rparr>"

lemma refusing_obliging:
  "obliging refusing_kernel \<lparr>ai_family = 2, ai_socktype = ty, ai_protocol = p, ai_addr = ()\<rparr> 5"
  by (simp add: obliging_def refusing_kernel_def)

theorem refused_connection_unnoticed_witness:
  "\<exists>made'. run_state (createSocket refusing_kernel ''127.0.0.1'' ''lo'' 12345 False False False 0 True) [] =
    (5, made') \<and> Sys_connect 5 () \<in> set made'"
  using refused_connection_unnoticed [OF refusing_obliging, of "''127.0.0.1''" 12345 SOCK_STREAM IPPROTO_TCP "''lo''" "[]"]
  by (simp add: refusing_kernel_def socket_hints_def)

theorem server_socket_calls_witness:
  "fst (run_state (createSocket refusing_kernel [] ''lo'' 12345 False False True 0 True) []) = 5 \<and>
   length (snd (run_state (createSocket refusing_kernel [] ''lo'' 12345 False False True 0 True) [])) = 8"
  using server_socket_calls [OF refusing_obliging, of "getIfaceIP refusing_kernel ''lo''" 12345 SOCK_STREAM IPPROTO_TCP "[]" "''lo''"]
  by (simp add: refusing_kernel_def socket_hints_def)

text \<open>
  A descriptor whose flags cannot be read counts as non-blocking: \<open>fcntl\<close> answers -1, in which
  the bit is set.
\<close>

lemma bad_descriptor_is_nonblocking:
  "answer K made (Sys_get_flags fd) = - 1 \<Longrightarrow>
   run_state (setNonBlocking K fd) made = (True, made @ [Sys_get_flags fd])"
  by (simp add: setNonBlocking_def O_NONBLOCK_def)

text \<open>
  The test for a multicast address looks for any of the three top bits of the first octet instead
  of all of them: every address from 32 on counts as multicast, 127.0.0.1 and 192.168.0.1 for
  instance.
\<close>

lemma octet_bits: "n < 256 \<Longrightarrow> and (word_of_nat n :: u32) 0xe0 \<noteq> 0 \<longleftrightarrow> 32 \<le> n"
proof -
  have "list_all (\<lambda>n. (and (word_of_nat n :: u32) 0xe0 \<noteq> 0) = (32 \<le> n)) [0..<256]" by code_simp
  then show "n < 256 \<Longrightarrow> and (word_of_nat n :: u32) 0xe0 \<noteq> 0 \<longleftrightarrow> 32 \<le> n"
    by (simp add: list_all_iff)
qed

lemma is_digit_char: "d < 10 \<Longrightarrow> is_digit (digit_char d)"
  by (simp add: is_digit_def digit_char_def)

lemma nat_to_string_nonempty [simp]: "nat_to_string n \<noteq> []"
  by (subst nat_to_string.simps) simp

lemma leading_number_dot: "leading_number (nat_to_string n @ CHR ''.'' # rest) = int n"
proof -
  have "takeWhile is_digit (nat_to_string n @ CHR ''.'' # rest) = nat_to_string n"
  proof -
    have "\<And>c. c \<in> set (nat_to_string n) \<Longrightarrow> is_digit c"
      using nat_to_string_digits is_digit_char by blast
    then show ?thesis by (simp add: takeWhile_append2 is_digit_def [of "CHR ''.''"])
  qed
  then show ?thesis by (simp add: leading_number_def)
qed

lemma atoi_octet: "atoi (nat_to_string n @ CHR ''.'' # rest) = int n"
proof -
  obtain c cs where c: "nat_to_string n = c # cs" by (cases "nat_to_string n") auto
  then have "is_digit c" using nat_to_string_digits [of c n] by (auto simp: is_digit_char)
  then have "48 \<le> (of_char c :: nat)" by (simp add: is_digit_def)
  then have "c \<noteq> CHR '' ''" "\<not> (of_char c :: nat) \<le> 13" "c \<noteq> CHR ''-''" "c \<noteq> CHR ''+''" by auto
  then show ?thesis
    using leading_number_dot [of n rest] by (simp add: atoi_def c)
qed

theorem multicast_test_too_wide:
  assumes "n < 256"
  shows "multicast_address (nat_to_string n @ CHR ''.'' # rest) \<longleftrightarrow> 32 \<le> n"
  using octet_bits [OF assms] by (simp add: multicast_address_def atoi_octet)

theorem multicast_test_too_wide_witness:
  "multicast_address (nat_to_string 192 @ ''.168.0.1'') \<and> \<not> multicast_address (nat_to_string 10 @ ''.0.0.1'')"
  using multicast_test_too_wide [of 192 "''168.0.1''"] multicast_test_too_wide [of 10 "''0.0.1''"] by simp

end
