(* ===== verification/TCPSocket.thy ===== *)
theory TCPSocket
  imports FIFOSequencer SocketUtils
begin

text \<open>
  common/tcp_socket.h and tcp_socket.cpp: a connection with its two buffers. A buffer is the list
  of its valid bytes, those below \<open>next_send_valid_index_\<close> or \<open>next_rcv_valid_index_\<close>, which are
  the only ones the code reads. The kernel is a parameter: what \<open>recvmsg\<close> delivers (a time and
  bytes, or nothing) and what each call of \<open>::send\<close> does.
\<close>

definition TCPBufferSize :: nat where "TCPBufferSize = 64 * 1024 * 1024"

record TCPSocket =
  fd :: int
  send_disconnected :: bool
  send_data :: "u8 list"
  rcv_data :: "u8 list"

definition TCPSocket_ctor :: TCPSocket where
  "TCPSocket_ctor = \<lparr>fd = - 1, send_disconnected = False, send_data = [], rcv_data = []\<rparr>"

definition tcp_destory :: "TCPSocket \<Rightarrow> TCPSocket" where
  "tcp_destory s = s\<lparr>fd := - 1\<rparr>"

text \<open>\<open>connect\<close> keeps the descriptor \<open>createSocket\<close> returns; the other stores only fill \<open>inInAddr\<close>.\<close>

definition tcp_connect :: "int \<Rightarrow> TCPSocket \<Rightarrow> TCPSocket \<times> int" where
  "tcp_connect new_fd s = (let s1 = (tcp_destory s)\<lparr>fd := new_fd\<rparr> in (s1, fd s1))"

definition tcp_connect_to ::
    "'a kernel \<Rightarrow> string \<Rightarrow> string \<Rightarrow> int \<Rightarrow> bool \<Rightarrow> TCPSocket \<Rightarrow> ('a, TCPSocket \<times> int) sys" where
  "tcp_connect_to K ip iface port is_listening s = do {
     closed \<leftarrow> call K (Sys_close (fd s));
     new_fd \<leftarrow> createSocket K ip iface port False False is_listening 0 True;
     State_Monad.return (tcp_connect new_fd s)
   }"

text \<open>The copy into the send buffer has no bound check, so it can run past the end.\<close>

definition tcp_send :: "u8 list \<Rightarrow> TCPSocket \<Rightarrow> TCPSocket res" where
  "tcp_send data s =
     (if 0 < length data then
        if length (send_data s) + length data \<le> TCPBufferSize
        then Inr (s\<lparr>send_data := send_data s @ data\<rparr>) else Inl Out_of_bounds
      else Inr s)"

section \<open>Sending\<close>

text \<open>What the kernel answers to a \<open>::send\<close>: bytes taken, or -1 with or without \<open>EWOULDBLOCK\<close>.\<close>

datatype send_result = Sent nat | Would_block | Send_failed

text \<open>
  The body of the sending loop. Its state is \<open>n_send\<close>, the number of calls made, the disconnect
  flag and the bytes the kernel has taken. Every call passes the start of the buffer, and a
  result of -1 is subtracted like a count.
\<close>

definition tcp_send_step ::
    "(nat \<Rightarrow> send_result) \<Rightarrow> u8 list \<Rightarrow> int \<times> nat \<times> bool \<times> u8 list \<Rightarrow>
     (int \<times> nat \<times> bool \<times> u8 list, bool \<times> u8 list) flow" where
  "tcp_send_step os buf = (\<lambda>(n_send, k, disc, sent).
     if 0 < n_send then
       (let n_send_this_msg = min (length buf) (nat n_send) in
        case os k of
          Sent m \<Rightarrow> (let n = min m n_send_this_msg in
            Continue (n_send - int n, Suc k, disc, sent @ take n buf))
        | Would_block \<Rightarrow> Continue (n_send - (- 1), Suc k, disc, sent)
        | Send_failed \<Rightarrow> Continue (n_send - (- 1), Suc k, True, sent))
     else Return (Inr (disc, sent)))"

definition tcp_send_loop :: "(nat \<Rightarrow> send_result) \<Rightarrow> bool \<Rightarrow> u8 list \<Rightarrow> (bool \<times> u8 list) res" where
  "tcp_send_loop os disc buf =
     loopR (tcp_send_step os buf) (int (min TCPBufferSize (length buf)), 0, disc, [])"

type_synonym 's recv_callback = "Nanos \<Rightarrow> TCPSocket \<Rightarrow> 's \<Rightarrow> (TCPSocket \<times> 's) res"

text \<open>
  \<open>sendAndRecv\<close>: at most the free part of the receive buffer is filled, the callback runs when
  something arrived, then the send buffer is emptied. The result holds the bytes the kernel took
  and whether something was received.
\<close>

definition tcp_sendAndRecv ::
    "(Nanos \<times> u8 list) option \<Rightarrow> (nat \<Rightarrow> send_result) \<Rightarrow> 's recv_callback \<Rightarrow> TCPSocket \<Rightarrow> 's \<Rightarrow>
     (TCPSocket \<times> 's \<times> u8 list \<times> bool) res" where
  "tcp_sendAndRecv incoming os callback s st =
     (let room = TCPBufferSize - length (rcv_data s);
          (kernel_time, bytes) = (case incoming of None \<Rightarrow> (0, []) | Some (t, bs) \<Rightarrow> (t, take room bs))
      in bindR (if bytes \<noteq> [] then callback kernel_time (s\<lparr>rcv_data := rcv_data s @ bytes\<rparr>) st
                else Inr (s, st)) (\<lambda>(s1, st1).
         bindR (tcp_send_loop os (send_disconnected s1) (send_data s1)) (\<lambda>(disc, sent).
           Inr (s1\<lparr>send_disconnected := disc, send_data := []\<rparr>, st1, sent, bytes \<noteq> []))))"

section \<open>What reaches the peer\<close>

lemma tcp_send_end: "n \<le> 0 \<Longrightarrow> loopR (tcp_send_step os buf) (n, k, disc, sent) = Inr (disc, sent)"
  by (rule loopR_Return) (simp add: tcp_send_step_def)

lemma tcp_send_sent:
  "0 < n \<Longrightarrow> os k = Sent m \<Longrightarrow> loopR (tcp_send_step os buf) (n, k, disc, sent) =
     loopR (tcp_send_step os buf) (n - int (min m (min (length buf) (nat n))), Suc k, disc,
       sent @ take (min m (min (length buf) (nat n))) buf)"
  by (rule loopR_Continue) (simp add: tcp_send_step_def Let_def)

text \<open>
  Sending is right only while the kernel takes the whole buffer at once. Then the peer gets
  exactly the buffered bytes. When the kernel first takes only \<open>m\<close> of them and then all it is
  offered, the second call starts again at the front of the buffer, and the peer gets the first
  \<open>m\<close> bytes twice where the rest belongs.
\<close>

theorem tcp_send_repeats_start:
  assumes "m \<le> length buf" and "0 < m" and "length buf \<le> TCPBufferSize"
    and "os 0 = Sent m" and "os 1 = Sent (length buf)"
  shows "tcp_send_loop os disc buf = Inr (disc, take m buf @ take (length buf - m) buf)"
proof -
  have "nat (int (length buf) - int m) = length buf - m" by arith
  moreover have "buf \<noteq> []" using assms(1,2) by auto
  ultimately show ?thesis
    using assms
    by (cases "m = length buf") (simp_all add: tcp_send_loop_def tcp_send_sent tcp_send_end of_nat_diff)
qed

theorem tcp_send_repeats_start_witness:
  "tcp_send_loop (\<lambda>k. Sent (if k = 0 then 1 else 3)) False [7, 8, 9] = Inr (False, [7, 7, 8])"
  using tcp_send_repeats_start [of 1 "[7, 8, 9]" "\<lambda>k. Sent (if k = 0 then 1 else 3)" False]
  by (simp add: TCPBufferSize_def)

text \<open>
  The loop in closed form: what is left to send after \<open>k\<close> calls, where every failed call counts as
  one byte more, and the bytes the kernel has taken by then.
\<close>

fun send_left :: "(nat \<Rightarrow> send_result) \<Rightarrow> nat \<Rightarrow> nat \<Rightarrow> nat" where
  "send_left os len 0 = len"
| "send_left os len (Suc k) =
     (case os k of Sent m \<Rightarrow> send_left os len k - min m len | _ \<Rightarrow> Suc (send_left os len k))"

fun send_taken :: "(nat \<Rightarrow> send_result) \<Rightarrow> u8 list \<Rightarrow> nat \<Rightarrow> u8 list" where
  "send_taken os buf 0 = []"
| "send_taken os buf (Suc k) = send_taken os buf k @
     (case os k of Sent m \<Rightarrow> take (min m (send_left os (length buf) k)) buf | _ \<Rightarrow> [])"

fun send_broken :: "(nat \<Rightarrow> send_result) \<Rightarrow> bool \<Rightarrow> nat \<Rightarrow> bool" where
  "send_broken os disc 0 = disc"
| "send_broken os disc (Suc k) \<longleftrightarrow> send_broken os disc k \<or> os k = Send_failed"

abbreviation send_state :: "(nat \<Rightarrow> send_result) \<Rightarrow> u8 list \<Rightarrow> bool \<Rightarrow> nat \<Rightarrow> int \<times> nat \<times> bool \<times> u8 list" where
  "send_state os buf disc k \<equiv>
     (int (send_left os (length buf) k), k, send_broken os disc k, send_taken os buf k)"

lemma tcp_send_step_state:
  "0 < send_left os (length buf) k \<Longrightarrow>
   tcp_send_step os buf (send_state os buf disc k) = Continue (send_state os buf disc (Suc k))"
proof -
  assume "0 < send_left os (length buf) k"
  moreover have "min m (min l n) = min (min m n) l" "int n - int (min (min m n) l) = int (n - min m l)"
    for m n l :: nat by simp_all
  moreover have "take (min (min m n) (length buf)) buf = take (min m n) buf" for m n by (simp add: min_def)
  ultimately show ?thesis by (simp add: tcp_send_step_def Let_def split: send_result.split)
qed

lemma tcp_send_reaches:
  assumes "\<And>j. j < k \<Longrightarrow> 0 < send_left os (length buf) j"
  shows "loopR (tcp_send_step os buf) (send_state os buf disc 0) =
    loopR (tcp_send_step os buf) (send_state os buf disc k)"
  using assms
proof (induction k)
  case (Suc k)
  then have "0 < send_left os (length buf) k" by blast
  from loopR_Continue [of "tcp_send_step os buf", OF tcp_send_step_state [OF this, of disc]] Suc
  show ?case by simp
qed simp

text \<open>
  C37. When a call of \<open>sendAndRecv\<close> is over, and what the peer gets: the sending loop ends with the
  first call of \<open>::send\<close> after which nothing is left, if there is one, and never returns otherwise;
  every failed call is one more byte to send, and every call that takes bytes takes them from the
  start of the buffer, not from where the one before it had stopped.
\<close>

theorem tcp_send_ends_iff:
  assumes "length buf \<le> TCPBufferSize"
  shows "tcp_send_loop os disc buf =
    (if \<exists>k. send_left os (length buf) k = 0
     then let k = (LEAST k. send_left os (length buf) k = 0) in Inr (send_broken os disc k, send_taken os buf k)
     else Inl Diverges)"
proof -
  have start: "tcp_send_loop os disc buf = loopR (tcp_send_step os buf) (send_state os buf disc 0)"
    using assms by (simp add: tcp_send_loop_def min_def)
  show ?thesis
  proof (cases "\<exists>k. send_left os (length buf) k = 0")
    case True
    let ?k = "LEAST k. send_left os (length buf) k = 0"
    have "send_left os (length buf) ?k = 0" using LeastI_ex [OF True] .
    moreover have "0 < send_left os (length buf) j" if "j < ?k" for j using not_less_Least [OF that] by blast
    ultimately show ?thesis
      using True tcp_send_reaches [of ?k os buf disc] by (simp add: start tcp_send_end Let_def)
  next
    case False
    have "loopR (tcp_send_step os buf) (send_state os buf disc 0) = Inl Diverges"
      by (rule loopR_diverges [where I = "\<lambda>s. \<exists>k. s = send_state os buf disc k"])
        (use False tcp_send_step_state in blast)+
    then show ?thesis unfolding start using False by (simp only: if_False)
  qed
qed

text \<open>A kernel that takes one byte, then none, then all it is offered.\<close>

definition slow_peer :: "nat \<Rightarrow> send_result" where
  "slow_peer k = (if k = 0 then Sent 1 else if k = 1 then Would_block else Sent 3)"

theorem tcp_send_ends_iff_witness:
  "tcp_send_loop slow_peer False [7, 8, 9] = Inr (False, [7, 7, 8, 9])"
proof -
  have at: "send_left slow_peer 3 3 = 0" "send_broken slow_peer False 3 = False"
      "send_taken slow_peer [7, 8, 9] 3 = [7, 7, 8, 9]"
    by (simp_all add: eval_nat_numeral slow_peer_def)
  have "(LEAST k. send_left slow_peer 3 k = 0) = 3"
  proof (rule Least_equality)
    fix y assume "send_left slow_peer 3 y = 0"
    then have "y \<noteq> 0" "y \<noteq> 1" "y \<noteq> 2" by (auto simp: eval_nat_numeral slow_peer_def intro!: gr0I)
    then show "3 \<le> y" by arith
  qed (rule at)
  moreover have "\<exists>k. send_left slow_peer 3 k = 0" using at by blast
  moreover have len: "length [7, 8, 9 :: u8] = 3" by simp
  ultimately show ?thesis
    using tcp_send_ends_iff [of "[7, 8, 9]" slow_peer False, unfolded len] at
    by (simp add: TCPBufferSize_def Let_def)
qed

text \<open>
  A kernel that takes nothing holds the thread for ever: if every \<open>::send\<close> returns -1, because
  the peer's window is full or the connection is gone, a call with buffered bytes never returns.
\<close>

theorem tcp_send_blocked_diverges:
  assumes "buf \<noteq> []" and "\<And>k m. os k \<noteq> Sent m"
  shows "tcp_send_loop os disc buf = Inl Diverges"
  unfolding tcp_send_loop_def
proof (rule loopR_diverges [where I = "\<lambda>(n, k, disc, sent). 0 < n"])
  fix s :: "int \<times> nat \<times> bool \<times> u8 list"
  assume "case s of (n, k, disc, sent) \<Rightarrow> 0 < n"
  then show "\<exists>s'. tcp_send_step os buf s = Continue s' \<and> (case s' of (n, k, disc, sent) \<Rightarrow> 0 < n)"
    using assms(2) by (auto simp: tcp_send_step_def Let_def split: send_result.splits)
qed (use assms(1) in \<open>simp add: TCPBufferSize_def\<close>)

theorem tcp_send_blocked_diverges_witness:
  "tcp_send_loop (\<lambda>_. Would_block) False [7, 8, 9] = Inl Diverges"
  by (rule tcp_send_blocked_diverges) simp_all

text \<open>
  The callback's view: with a kernel that takes whole buffers, the call delivers the new bytes to
  the callback and the buffered ones to the peer.
\<close>

lemma tcp_send_loop_whole:
  assumes "length buf \<le> TCPBufferSize" and "os 0 = Sent (length buf)"
  shows "tcp_send_loop os disc buf = Inr (disc, buf)"
  using assms by (cases "buf = []") (simp_all add: tcp_send_loop_def tcp_send_sent tcp_send_end)

lemma tcp_sendAndRecv_eq:
  assumes "length (rcv_data s) + length bytes \<le> TCPBufferSize" and "bytes \<noteq> []"
    and "callback t (s\<lparr>rcv_data := rcv_data s @ bytes\<rparr>) st = Inr (s1, st1)"
    and "length (send_data s1) \<le> TCPBufferSize" and "os 0 = Sent (length (send_data s1))"
  shows "tcp_sendAndRecv (Some (t, bytes)) os callback s st =
    Inr (s1\<lparr>send_data := []\<rparr>, st1, send_data s1, True)"
proof -
  have "length (rcv_data s) < TCPBufferSize" using assms(1,2) by (cases bytes) auto
  then show ?thesis using assms by (simp add: tcp_sendAndRecv_def tcp_send_loop_whole)
qed

lemma tcp_sendAndRecv_idle:
  assumes "length (send_data s) \<le> TCPBufferSize" and "os 0 = Sent (length (send_data s))"
  shows "tcp_sendAndRecv None os callback s st = Inr (s\<lparr>send_data := []\<rparr>, st, send_data s, False)"
  using assms by (simp add: tcp_sendAndRecv_def tcp_send_loop_whole)

end
