(* ===== verification/Wire.thy ===== *)
theory Wire
  imports Messages
begin

text \<open>
  The messages as bytes. The structs are declared under \<open>#pragma pack(push,1)\<close>, so a message is
  the concatenation of its fields without padding, each integer in the little endian order of
  the x86-64 target. The receivers cast their buffer to the struct, which is \<open>decode\<close> here, and
  the senders copy the struct, which is \<open>encode\<close>.
\<close>

section \<open>Little endian integers\<close>

fun le_bytes :: "nat \<Rightarrow> nat \<Rightarrow> u8 list" where
  "le_bytes 0 n = []"
| "le_bytes (Suc k) n = word_of_nat (n mod 256) # le_bytes k (n div 256)"

fun le_nat :: "u8 list \<Rightarrow> nat" where
  "le_nat [] = 0"
| "le_nat (b # bs) = unat b + 256 * le_nat bs"

lemma length_le_bytes [simp]: "length (le_bytes k n) = k"
  by (induction k arbitrary: n) auto

lemma le_nat_bytes: "le_nat (le_bytes k n) = n mod 256 ^ k"
proof (induction k arbitrary: n)
  case (Suc k)
  have "unat (word_of_nat (n mod 256) :: u8) = n mod 256"
    by (simp add: unat_of_nat)
  then show ?case using Suc by (simp add: mod_mult2_eq)
qed simp

lemma le_nat_less: "le_nat bs < 256 ^ length bs"
proof (induction bs)
  case (Cons b bs)
  have "unat b < 256" using unsigned_less [where 'a = nat, of b] by simp
  with Cons show ?case by simp
qed simp

lemma le_bytes_nat: "le_bytes (length bs) (le_nat bs) = bs"
proof (induction bs)
  case (Cons b bs)
  have "unat b < 256" using unsigned_less [where 'a = nat, of b] by simp
  with Cons show ?case by simp
qed simp

definition put64 :: "u64 \<Rightarrow> u8 list" where "put64 w = le_bytes 8 (unat w)"
definition put32 :: "u32 \<Rightarrow> u8 list" where "put32 w = le_bytes 4 (unat w)"
definition get64 :: "u8 list \<Rightarrow> u64" where "get64 bs = word_of_nat (le_nat (take 8 bs))"
definition get32 :: "u8 list \<Rightarrow> u32" where "get32 bs = word_of_nat (le_nat (take 4 bs))"

lemma length_put [simp]: "length (put64 w) = 8" "length (put32 v) = 4"
  by (simp_all add: put64_def put32_def)

lemma get_put [simp]: "get64 (put64 w @ bs) = w" "get32 (put32 v @ bs) = v"
  "get64 (put64 w) = w" "get32 (put32 v) = v"
proof -
  have "unat w < 2 ^ 64" "unat v < 2 ^ 32" using unsigned_less [where 'a = nat, of w] unsigned_less [where 'a = nat, of v] by simp_all
  then show "get64 (put64 w @ bs) = w" "get32 (put32 v @ bs) = v"
    "get64 (put64 w) = w" "get32 (put32 v) = v"
    by (simp_all add: get64_def put64_def get32_def put32_def le_nat_bytes)
qed

lemma put_get [simp]:
  "8 \<le> length bs \<Longrightarrow> put64 (get64 bs) = take 8 bs"
  "4 \<le> length bs \<Longrightarrow> put32 (get32 bs) = take 4 bs"
  using le_nat_less [of "take 8 bs"] le_nat_less [of "take 4 bs"]
    le_bytes_nat [of "take 8 bs"] le_bytes_nat [of "take 4 bs"]
  by (simp_all add: put64_def get64_def put32_def get32_def unat_of_nat min_absorb2)

section \<open>Structs\<close>

definition encode_request :: "MEClientRequest \<Rightarrow> u8 list" where
  "encode_request r = request_type_byte (rq_requestType r) # put32 (rq_clientId r) @
     put32 (rq_tickerId r) @ put64 (rq_orderId r) @ put64 (rq_price r) @ put32 (rq_qty r) @
     [side_byte (rq_side r)]"

definition decode_request :: "u8 list \<Rightarrow> MEClientRequest" where
  "decode_request bs = \<lparr>rq_requestType = request_type_of_byte (bs ! 0),
     rq_clientId = get32 (drop 1 bs), rq_tickerId = get32 (drop 5 bs),
     rq_orderId = get64 (drop 9 bs), rq_price = get64 (drop 17 bs), rq_qty = get32 (drop 25 bs),
     rq_side = side_of_byte (bs ! 29)\<rparr>"

definition encode_response :: "MEClientResponse \<Rightarrow> u8 list" where
  "encode_response r = response_type_byte (rs_type r) # put32 (rs_clientId r) @
     put32 (rs_tickerId r) @ put64 (rs_client_order_id r) @ put64 (rs_marker_order_id r) @
     [side_byte (rs_side r)] @ put64 (rs_price r) @ put32 (rs_exec_qty r) @ put32 (rs_left_qty r)"

definition decode_response :: "u8 list \<Rightarrow> MEClientResponse" where
  "decode_response bs = \<lparr>rs_type = response_type_of_byte (bs ! 0),
     rs_clientId = get32 (drop 1 bs), rs_tickerId = get32 (drop 5 bs),
     rs_client_order_id = get64 (drop 9 bs), rs_marker_order_id = get64 (drop 17 bs),
     rs_side = side_of_byte (bs ! 25), rs_price = get64 (drop 26 bs),
     rs_exec_qty = get32 (drop 34 bs), rs_left_qty = get32 (drop 38 bs)\<rparr>"

definition encode_update :: "MEMarketUpdate \<Rightarrow> u8 list" where
  "encode_update u = update_type_byte (mu_type u) # put64 (mu_orderId u) @ put32 (mu_tickerId u) @
     [side_byte (mu_side u)] @ put64 (mu_price u) @ put32 (mu_qty u) @ put64 (mu_priority u)"

definition decode_update :: "u8 list \<Rightarrow> MEMarketUpdate" where
  "decode_update bs = \<lparr>mu_type = update_type_of_byte (bs ! 0), mu_orderId = get64 (drop 1 bs),
     mu_tickerId = get32 (drop 9 bs), mu_side = side_of_byte (bs ! 13),
     mu_price = get64 (drop 14 bs), mu_qty = get32 (drop 22 bs), mu_priority = get64 (drop 26 bs)\<rparr>"

text \<open>\<open>sizeof\<close> of the packed structs.\<close>

definition sizeof_MEClientRequest :: nat where "sizeof_MEClientRequest = 30"
definition sizeof_MEClientResponse :: nat where "sizeof_MEClientResponse = 42"
definition sizeof_MEMarketUpdate :: nat where "sizeof_MEMarketUpdate = 34"
definition sizeof_OMClientRequest :: nat where "sizeof_OMClientRequest = 8 + sizeof_MEClientRequest"
definition sizeof_OMClientResponse :: nat where
  "sizeof_OMClientResponse = 8 + sizeof_MEClientResponse"
definition sizeof_MDPMarketUpdate :: nat where "sizeof_MDPMarketUpdate = 8 + sizeof_MEMarketUpdate"

lemmas sizeof_defs = sizeof_MEClientRequest_def sizeof_MEClientResponse_def
  sizeof_MEMarketUpdate_def sizeof_OMClientRequest_def sizeof_OMClientResponse_def
  sizeof_MDPMarketUpdate_def

definition encode_OMClientRequest :: "OMClientRequest \<Rightarrow> u8 list" where
  "encode_OMClientRequest r = put64 (omrq_seq_num r) @ encode_request (omrq_request r)"

definition decode_OMClientRequest :: "u8 list \<Rightarrow> OMClientRequest" where
  "decode_OMClientRequest bs =
     \<lparr>omrq_seq_num = get64 bs, omrq_request = decode_request (drop 8 bs)\<rparr>"

definition encode_OMClientResponse :: "OMClientResponse \<Rightarrow> u8 list" where
  "encode_OMClientResponse r = put64 (omrs_seq_num r) @ encode_response (omrs_response r)"

definition decode_OMClientResponse :: "u8 list \<Rightarrow> OMClientResponse" where
  "decode_OMClientResponse bs =
     \<lparr>omrs_seq_num = get64 bs, omrs_response = decode_response (drop 8 bs)\<rparr>"

definition encode_MDPMarketUpdate :: "MDPMarketUpdate \<Rightarrow> u8 list" where
  "encode_MDPMarketUpdate u = put64 (mdp_seq_num u) @ encode_update (mdp_update u)"

definition decode_MDPMarketUpdate :: "u8 list \<Rightarrow> MDPMarketUpdate" where
  "decode_MDPMarketUpdate bs =
     \<lparr>mdp_seq_num = get64 bs, mdp_update = decode_update (drop 8 bs)\<rparr>"

section \<open>The interface of a fixed width message format\<close>

text \<open>The whole messages in a byte sequence, and the bytes after the last whole message.\<close>

function frames :: "nat \<Rightarrow> u8 list \<Rightarrow> u8 list list" where
  "frames sz bs = (if 0 < sz \<and> sz \<le> length bs then take sz bs # frames sz (drop sz bs) else [])"
  by pat_completeness auto
termination by (relation "measure (\<lambda>(sz, bs). length bs)") auto

declare frames.simps [simp del]

definition unframed :: "nat \<Rightarrow> u8 list \<Rightarrow> u8 list" where
  "unframed sz bs = drop (sz * (length bs div sz)) bs"

lemma frames_short: "length bs < sz \<Longrightarrow> frames sz bs = []"
  by (simp add: frames.simps)

lemma frames_append:
  "0 < sz \<Longrightarrow> length x = sz \<Longrightarrow> frames sz (x @ bs) = x # frames sz bs"
  by (subst frames.simps) simp

lemma unframed_append:
  "0 < sz \<Longrightarrow> length x = sz \<Longrightarrow> unframed sz (x @ bs) = unframed sz bs"
  by (simp add: unframed_def div_add_self1)

lemma unframed_short: "length bs < sz \<Longrightarrow> unframed sz bs = bs"
  by (simp add: unframed_def)

lemma length_unframed: "0 < sz \<Longrightarrow> length (unframed sz bs) = length bs mod sz"
  by (simp add: unframed_def minus_mult_div_eq_mod)

locale wire_codec =
  fixes encode :: "'m \<Rightarrow> u8 list"
    and decode :: "u8 list \<Rightarrow> 'm"
    and canonical :: "'m \<Rightarrow> bool"
    and sz :: nat
  assumes sz_pos: "0 < sz"
    and length_encode: "length (encode m) = sz"
    and decode_encode: "canonical m \<Longrightarrow> decode (encode m) = m"
    and encode_decode: "length bs = sz \<Longrightarrow> encode (decode bs) = bs"
    and canonical_decode: "canonical (decode bs)"
begin

text \<open>A stream of encoded messages, cut anywhere, is read back message by message.\<close>

lemma frames_concat:
  assumes "length rest < sz"
  shows "frames sz (concat (map encode ms) @ rest) = map encode ms"
    and "unframed sz (concat (map encode ms) @ rest) = rest"
proof (induction ms)
  case Nil
  case 1 show ?case using assms by (simp add: frames_short)
  case 2 show ?case using assms by (simp add: unframed_short)
next
  case (Cons m ms)
  case 1 show ?case using Cons(1) by (simp add: frames_append sz_pos length_encode)
  case 2 show ?case using Cons(2) by (simp add: unframed_append sz_pos length_encode)
qed

lemma decode_stream:
  assumes "\<forall>m \<in> set ms. canonical m" and "length rest < sz"
  shows "map decode (frames sz (concat (map encode ms) @ rest)) = ms"
  using assms by (auto simp: frames_concat decode_encode intro: map_idI)

lemma encode_inj: "canonical m \<Longrightarrow> canonical m' \<Longrightarrow> encode m = encode m' \<Longrightarrow> m = m'"
  by (metis decode_encode)

end

section \<open>The message formats\<close>

lemma length_encodes [simp]:
  "length (encode_request r) = sizeof_MEClientRequest"
  "length (encode_response s) = sizeof_MEClientResponse"
  "length (encode_update u) = sizeof_MEMarketUpdate"
  by (simp_all add: encode_request_def encode_response_def encode_update_def sizeof_defs)

lemma decode_encodes:
  "request_canonical r \<Longrightarrow> decode_request (encode_request r) = r"
  "response_canonical s \<Longrightarrow> decode_response (encode_response s) = s"
  "update_canonical u \<Longrightarrow> decode_update (encode_update u) = u"
  by (simp_all add: decode_request_def encode_request_def request_canonical_def
      decode_response_def encode_response_def response_canonical_def
      decode_update_def encode_update_def update_canonical_def side_canonical_def
      drop_Cons' nth_append nth_Cons' drop_append)

lemma drop_split: "n + k \<le> length bs \<Longrightarrow> drop n bs = take k (drop n bs) @ drop (n + k) bs"
  by (metis add.commute append_take_drop_id drop_drop)

lemma drop_one: "n < length bs \<Longrightarrow> drop n bs = bs ! n # drop (Suc n) bs"
  by (rule Cons_nth_drop_Suc [symmetric])

text \<open>A byte sequence is its first byte, word, or double word and the rest.\<close>

lemma encode_decode_request: "length bs = sizeof_MEClientRequest \<Longrightarrow> encode_request (decode_request bs) = bs"
proof -
  assume len: "length bs = sizeof_MEClientRequest"
  then have l: "length bs = 30" by (simp add: sizeof_defs)
  have "bs = drop 0 bs" by simp
  also have "\<dots> = bs ! 0 # drop 1 bs" using l by (subst drop_one) auto
  also have "drop 1 bs = take 4 (drop 1 bs) @ drop 5 bs" using l drop_split [of 1 4 bs] by simp
  also have "drop 5 bs = take 4 (drop 5 bs) @ drop 9 bs" using l drop_split [of 5 4 bs] by simp
  also have "drop 9 bs = take 8 (drop 9 bs) @ drop 17 bs" using l drop_split [of 9 8 bs] by simp
  also have "drop 17 bs = take 8 (drop 17 bs) @ drop 25 bs" using l drop_split [of 17 8 bs] by simp
  also have "drop 25 bs = take 4 (drop 25 bs) @ drop 29 bs" using l drop_split [of 25 4 bs] by simp
  also have "drop 29 bs = [bs ! 29]" using l by (subst drop_one) auto
  finally show ?thesis using l by (simp add: encode_request_def decode_request_def)
qed

lemma encode_decode_response: "length bs = sizeof_MEClientResponse \<Longrightarrow> encode_response (decode_response bs) = bs"
proof -
  assume len: "length bs = sizeof_MEClientResponse"
  then have l: "length bs = 42" by (simp add: sizeof_defs)
  have "bs = drop 0 bs" by simp
  also have "\<dots> = bs ! 0 # drop 1 bs" using l by (subst drop_one) auto
  also have "drop 1 bs = take 4 (drop 1 bs) @ drop 5 bs" using l drop_split [of 1 4 bs] by simp
  also have "drop 5 bs = take 4 (drop 5 bs) @ drop 9 bs" using l drop_split [of 5 4 bs] by simp
  also have "drop 9 bs = take 8 (drop 9 bs) @ drop 17 bs" using l drop_split [of 9 8 bs] by simp
  also have "drop 17 bs = take 8 (drop 17 bs) @ drop 25 bs" using l drop_split [of 17 8 bs] by simp
  also have "drop 25 bs = bs ! 25 # drop 26 bs" using l by (subst drop_one) auto
  also have "drop 26 bs = take 8 (drop 26 bs) @ drop 34 bs" using l drop_split [of 26 8 bs] by simp
  also have "drop 34 bs = take 4 (drop 34 bs) @ drop 38 bs" using l drop_split [of 34 4 bs] by simp
  also have "drop 38 bs = take 4 (drop 38 bs)" using l by simp
  finally show ?thesis using l by (simp add: encode_response_def decode_response_def)
qed

lemma encode_decode_update: "length bs = sizeof_MEMarketUpdate \<Longrightarrow> encode_update (decode_update bs) = bs"
proof -
  assume len: "length bs = sizeof_MEMarketUpdate"
  then have l: "length bs = 34" by (simp add: sizeof_defs)
  have "bs = drop 0 bs" by simp
  also have "\<dots> = bs ! 0 # drop 1 bs" using l by (subst drop_one) auto
  also have "drop 1 bs = take 8 (drop 1 bs) @ drop 9 bs" using l drop_split [of 1 8 bs] by simp
  also have "drop 9 bs = take 4 (drop 9 bs) @ drop 13 bs" using l drop_split [of 9 4 bs] by simp
  also have "drop 13 bs = bs ! 13 # drop 14 bs" using l by (subst drop_one) auto
  also have "drop 14 bs = take 8 (drop 14 bs) @ drop 22 bs" using l drop_split [of 14 8 bs] by simp
  also have "drop 22 bs = take 4 (drop 22 bs) @ drop 26 bs" using l drop_split [of 22 4 bs] by simp
  also have "drop 26 bs = take 8 (drop 26 bs)" using l by simp
  finally show ?thesis using l by (simp add: encode_update_def decode_update_def)
qed

lemma canonical_decodes [simp]:
  "request_canonical (decode_request bs)" "response_canonical (decode_response bs)"
  "update_canonical (decode_update bs)"
  by (simp_all add: request_canonical_def decode_request_def response_canonical_def
      decode_response_def update_canonical_def decode_update_def)

interpretation om_request: wire_codec encode_OMClientRequest decode_OMClientRequest
  "\<lambda>m. request_canonical (omrq_request m)" sizeof_OMClientRequest
proof
  fix m :: OMClientRequest and bs :: "u8 list"
  show "0 < sizeof_OMClientRequest" by (simp add: sizeof_defs)
  show "length (encode_OMClientRequest m) = sizeof_OMClientRequest"
    by (simp add: encode_OMClientRequest_def sizeof_OMClientRequest_def)
  show "request_canonical (omrq_request m) \<Longrightarrow> decode_OMClientRequest (encode_OMClientRequest m) = m"
    by (simp add: decode_OMClientRequest_def encode_OMClientRequest_def decode_encodes)
  show "length bs = sizeof_OMClientRequest \<Longrightarrow> encode_OMClientRequest (decode_OMClientRequest bs) = bs"
    by (simp add: decode_OMClientRequest_def encode_OMClientRequest_def encode_decode_request
        sizeof_OMClientRequest_def)
  show "request_canonical (omrq_request (decode_OMClientRequest bs))"
    by (simp add: decode_OMClientRequest_def)
qed

interpretation om_response: wire_codec encode_OMClientResponse decode_OMClientResponse
  "\<lambda>m. response_canonical (omrs_response m)" sizeof_OMClientResponse
proof
  fix m :: OMClientResponse and bs :: "u8 list"
  show "0 < sizeof_OMClientResponse" by (simp add: sizeof_defs)
  show "length (encode_OMClientResponse m) = sizeof_OMClientResponse"
    by (simp add: encode_OMClientResponse_def sizeof_OMClientResponse_def)
  show "response_canonical (omrs_response m) \<Longrightarrow>
    decode_OMClientResponse (encode_OMClientResponse m) = m"
    by (simp add: decode_OMClientResponse_def encode_OMClientResponse_def decode_encodes)
  show "length bs = sizeof_OMClientResponse \<Longrightarrow>
    encode_OMClientResponse (decode_OMClientResponse bs) = bs"
    by (simp add: decode_OMClientResponse_def encode_OMClientResponse_def encode_decode_response
        sizeof_OMClientResponse_def)
  show "response_canonical (omrs_response (decode_OMClientResponse bs))"
    by (simp add: decode_OMClientResponse_def)
qed

interpretation mdp_codec: wire_codec encode_MDPMarketUpdate decode_MDPMarketUpdate
  "\<lambda>m. update_canonical (mdp_update m)" sizeof_MDPMarketUpdate
proof
  fix m :: MDPMarketUpdate and bs :: "u8 list"
  show "0 < sizeof_MDPMarketUpdate" by (simp add: sizeof_defs)
  show "length (encode_MDPMarketUpdate m) = sizeof_MDPMarketUpdate"
    by (simp add: encode_MDPMarketUpdate_def sizeof_MDPMarketUpdate_def)
  show "update_canonical (mdp_update m) \<Longrightarrow>
    decode_MDPMarketUpdate (encode_MDPMarketUpdate m) = m"
    by (simp add: decode_MDPMarketUpdate_def encode_MDPMarketUpdate_def decode_encodes)
  show "length bs = sizeof_MDPMarketUpdate \<Longrightarrow>
    encode_MDPMarketUpdate (decode_MDPMarketUpdate bs) = bs"
    by (simp add: decode_MDPMarketUpdate_def encode_MDPMarketUpdate_def encode_decode_update
        sizeof_MDPMarketUpdate_def)
  show "update_canonical (mdp_update (decode_MDPMarketUpdate bs))"
    by (simp add: decode_MDPMarketUpdate_def)
qed



end
