(* ===== verification/OrderServer.thy ===== *)
theory OrderServer
  imports TCPSocket Wire
begin

text \<open>
  exchange/order_server/order_server.h and order_server.cpp: the exchange's end of the client
  connections. A socket is known to the server by its address, here a number. The server reads
  whole \<open>OMClientRequest\<close> messages out of a socket's buffer, checks the client's socket and the
  sequence number, and hands the accepted ones to the sequencer; it sends the engine's responses
  to the socket registered for the client.
\<close>

record OrderServer =
  clientId_socket :: "nat \<Rightarrow> ptr"
  clientId_outgoing_seqNum :: "nat \<Rightarrow> u64"
  clientId_incoming_seqNum :: "nat \<Rightarrow> u64"
  fifo_sequencer :: FIFOSequencer
  os_client_responses :: "MEClientResponse LFQueue"

definition OrderServer_ctor :: "MEClientRequest LFQueue \<Rightarrow> MEClientResponse LFQueue \<Rightarrow> OrderServer" where
  "OrderServer_ctor client_requests client_responses =
     \<lparr>clientId_socket = (\<lambda>_. None), clientId_outgoing_seqNum = (\<lambda>_. 1),
      clientId_incoming_seqNum = (\<lambda>_. 1), fifo_sequencer = FIFOSequencer_ctor client_requests,
      os_client_responses = client_responses\<rparr>"

text \<open>
  The body of the loop of \<open>recvCallback\<close>, for one request read from \<open>socket\<close>. The two
  \<open>continue\<close> statements leave the server as it is at that point. The number a request is checked
  against is the one counted up by outgoing responses as well.
\<close>

definition os_request :: "nat \<Rightarrow> Nanos \<Rightarrow> OMClientRequest \<Rightarrow> OrderServer \<Rightarrow> OrderServer res" where
  "os_request socket rx_time request s =
     (let client = unat (rq_clientId (omrq_request request)) in
      bindR (arr_idx ME_MAX_NUM_CLIENTS (clientId_socket s) client) (\<lambda>registered.
        let s1 = (if registered = None
                  then s\<lparr>clientId_socket := (clientId_socket s)(client := Some socket)\<rparr> else s);
            next_seq_num = clientId_outgoing_seqNum s1 client
        in if clientId_socket s1 client \<noteq> Some socket then Inr s1
           else if omrq_seq_num request \<noteq> next_seq_num then Inr s1
           else let s2 = s1\<lparr>clientId_outgoing_seqNum :=
                  (clientId_outgoing_seqNum s1)(client := next_seq_num + 1)\<rparr>
             in bindR (addClientRequest rx_time (omrq_request request) (fifo_sequencer s2))
                  (\<lambda>fifo. Inr (s2\<lparr>fifo_sequencer := fifo\<rparr>))))"

text \<open>
  \<open>recvCallback\<close>. What the \<open>memcpy\<close> moves to the front is shorter than one message and at least
  one message further on, so the two ranges do not overlap.
\<close>

definition recvCallback :: "nat \<Rightarrow> OrderServer recv_callback" where
  "recvCallback socket rx_time sock s =
     (if sizeof_OMClientRequest \<le> length (rcv_data sock) then
        bindR (foldR (os_request socket rx_time)
            (map decode_OMClientRequest (frames sizeof_OMClientRequest (rcv_data sock))) s) (\<lambda>s'.
          Inr (sock\<lparr>rcv_data := unframed sizeof_OMClientRequest (rcv_data sock)\<rparr>, s'))
      else Inr (sock, s))"

definition recvFinishedCallback :: "sorter \<Rightarrow> OrderServer \<Rightarrow> OrderServer" where
  "recvFinishedCallback srt s = s\<lparr>fifo_sequencer := sequenceAndPublish srt (fifo_sequencer s)\<rparr>"

text \<open>
  The body of the loop of \<open>run\<close> that sends one response. \<open>sizeof(client_response)\<close> is the size of
  the pointer, so eight bytes of the response follow the eight bytes of the sequence number.
\<close>

definition os_send_response ::
    "MEClientResponse \<Rightarrow> OrderServer \<times> (nat \<Rightarrow> TCPSocket) \<Rightarrow> (OrderServer \<times> (nat \<Rightarrow> TCPSocket)) res" where
  "os_send_response client_response = (\<lambda>(s, socks).
     let client = unat (rs_clientId client_response) in
     bindR (arr_idx ME_MAX_NUM_CLIENTS (clientId_outgoing_seqNum s) client) (\<lambda>next_out_seq_num.
     bindR (arr_idx ME_MAX_NUM_CLIENTS (clientId_socket s) client) (\<lambda>registered.
     ASSERT (registered \<noteq> None)
       (''There is no TCP Socket for ClientId: '' @ to_string (rs_clientId client_response))
       (bindR (deref registered) (\<lambda>socket.
        bindR (tcp_send (put64 next_out_seq_num) (socks socket)) (\<lambda>sock1.
        bindR (tcp_send (take 8 (encode_response client_response)) sock1) (\<lambda>sock2.
          Inr (s\<lparr>clientId_outgoing_seqNum :=
                 (clientId_outgoing_seqNum s)(client := next_out_seq_num + 1)\<rparr>,
               socks(socket := sock2)))))))))"

definition os_send_responses ::
    "OrderServer \<times> (nat \<Rightarrow> TCPSocket) \<Rightarrow> (OrderServer \<times> (nat \<Rightarrow> TCPSocket)) res" where
  "os_send_responses = (\<lambda>(s, socks).
     bindR (lfq_drain os_send_response (os_client_responses s) (s, socks)) (\<lambda>(q, s', socks').
       Inr (s'\<lparr>os_client_responses := q\<rparr>, socks')))"

section \<open>A client's stream of requests\<close>

fun numbered :: "u64 \<Rightarrow> MEClientRequest list \<Rightarrow> OMClientRequest list" where
  "numbered n [] = []"
| "numbered n (r # rs) = \<lparr>omrq_seq_num = n, omrq_request = r\<rparr> # numbered (n + 1) rs"

lemma numbered_map [simp]: "map omrq_request (numbered n rs) = rs"
  by (induction rs arbitrary: n) auto

definition from_client :: "nat \<Rightarrow> MEClientRequest list \<Rightarrow> bool" where
  "from_client c rs \<longleftrightarrow> c < ME_MAX_NUM_CLIENTS \<and> (\<forall>r \<in> set rs. unat (rq_clientId r) = c \<and> request_canonical r)"

definition demo_server :: OrderServer where
  "demo_server = OrderServer_ctor (LFQueue_ctor 8 MEClientRequest_default) (LFQueue_ctor 8 MEClientResponse_default)"

text \<open>What a server looks like after it has taken \<open>rs\<close> from client \<open>c\<close> on a socket.\<close>

definition taken :: "nat \<Rightarrow> Nanos \<Rightarrow> nat \<Rightarrow> MEClientRequest list \<Rightarrow> OrderServer \<Rightarrow> OrderServer" where
  "taken socket t c rs s = s\<lparr>clientId_socket := (clientId_socket s)(c := Some socket),
     clientId_outgoing_seqNum := (clientId_outgoing_seqNum s)
       (c := clientId_outgoing_seqNum s c + of_nat (length rs)),
     fifo_sequencer := (fifo_sequencer s)\<lparr>pending_client_requests :=
       pending_client_requests (fifo_sequencer s) @ map (RecvTimeClientRequest t) rs\<rparr>\<rparr>"

lemma os_request_next:
  assumes "unat (rq_clientId r) = c" and "c < ME_MAX_NUM_CLIENTS"
    and "clientId_socket s c \<in> {None, Some socket}"
  shows "os_request socket t \<lparr>omrq_seq_num = clientId_outgoing_seqNum s c, omrq_request = r\<rparr> s =
    (if length (pending_client_requests (fifo_sequencer s)) < ME_MAX_PENDING_REQUESTS
     then Inr (taken socket t c [r] s) else FATAL ''To many pending requests'')"
  using assms
  by (auto simp: os_request_def Let_def addClientRequest_def taken_def FATAL_def fun_upd_idem)

lemma taken_taken:
  "taken socket t c rs (taken socket t c rs' s) = taken socket t c (rs' @ rs) s"
  by (simp add: taken_def algebra_simps)

lemma os_requests_in_order:
  assumes "from_client c rs" and "rs \<noteq> []" and "clientId_socket s c \<in> {None, Some socket}"
  shows "foldR (os_request socket t) (numbered (clientId_outgoing_seqNum s c) rs) s =
    (if length (pending_client_requests (fifo_sequencer s)) + length rs \<le> ME_MAX_PENDING_REQUESTS
     then Inr (taken socket t c rs s) else FATAL ''To many pending requests'')"
  using assms
proof (induction rs arbitrary: s)
  case (Cons r rs)
  let ?s' = "taken socket t c [r] s" and ?n = "length (pending_client_requests (fifo_sequencer s))"
  have r: "unat (rq_clientId r) = c" "c < ME_MAX_NUM_CLIENTS" and rs: "from_client c rs"
    using Cons.prems(1) by (simp_all add: from_client_def)
  have s': "clientId_socket ?s' c \<in> {None, Some socket}"
    "clientId_outgoing_seqNum ?s' c = clientId_outgoing_seqNum s c + 1"
    "length (pending_client_requests (fifo_sequencer ?s')) = Suc ?n"
    by (simp_all add: taken_def)
  note step = os_request_next [OF r Cons.prems(3), of t]
  show ?case
  proof (cases "rs = []")
    case True
    then show ?thesis using step by simp
  next
    case False
    show ?thesis
      using step Cons.IH [OF rs False s'(1)] s' by (auto simp: taken_taken FATAL_def)
  qed
qed simp

lemma numbered_stream:
  assumes "from_client c rs"
  shows "map decode_OMClientRequest (frames sizeof_OMClientRequest
      (concat (map encode_OMClientRequest (numbered n rs)))) = numbered n rs"
    and "unframed sizeof_OMClientRequest (concat (map encode_OMClientRequest (numbered n rs))) = []"
proof -
  have "\<forall>m \<in> set (numbered n rs). request_canonical (omrq_request m)"
    using assms numbered_map [of n rs] unfolding from_client_def by (metis image_eqI list.set_map)
  moreover have "length ([] :: u8 list) < sizeof_OMClientRequest" by (simp add: sizeof_defs)
  ultimately show "map decode_OMClientRequest (frames sizeof_OMClientRequest
      (concat (map encode_OMClientRequest (numbered n rs)))) = numbered n rs"
    and "unframed sizeof_OMClientRequest (concat (map encode_OMClientRequest (numbered n rs))) = []"
    using om_request.decode_stream [of "numbered n rs" "[]"] om_request.frames_concat(2) [of "[]"] by simp_all
qed

lemma recvCallback_stream:
  assumes "from_client c rs" and "rs \<noteq> []" and "clientId_socket s c \<in> {None, Some socket}"
    and "rcv_data sock = concat (map encode_OMClientRequest (numbered (clientId_outgoing_seqNum s c) rs))"
  shows "recvCallback socket t sock s =
    (if length (pending_client_requests (fifo_sequencer s)) + length rs \<le> ME_MAX_PENDING_REQUESTS
     then Inr (sock\<lparr>rcv_data := []\<rparr>, taken socket t c rs s)
     else FATAL ''To many pending requests'')"
proof -
  let ?ms = "numbered (clientId_outgoing_seqNum s c) rs"
  have "sizeof_OMClientRequest \<le> length (rcv_data sock)"
    using assms(2) unfolding assms(4) by (cases rs) (simp_all add: om_request.length_encode)
  then show ?thesis
    unfolding recvCallback_def
    by (simp add: assms(4) numbered_stream [OF assms(1)] os_requests_in_order [OF assms(1-3)])
qed

text \<open>
  C19. The server takes a client's requests as they come: when a read delivers any number of whole
  requests of one client, numbered consecutively from the number the server expects, on a socket
  no other socket of the client precedes, all of them are handed to the sequencer in order with
  the time of the read, the expected number advances past them and the buffer is empty again;
  but if the sequencer does not have room for all of them, the exchange stops.
\<close>

theorem server_takes_stream:
  assumes "from_client c rs" and "rs \<noteq> []" and "clientId_socket s c \<in> {None, Some socket}"
    and "rcv_data sock = concat (map encode_OMClientRequest (numbered (clientId_outgoing_seqNum s c) rs))"
  shows "recvCallback socket t sock s =
    (if length (pending_client_requests (fifo_sequencer s)) + length rs \<le> ME_MAX_PENDING_REQUESTS
     then Inr (sock\<lparr>rcv_data := []\<rparr>, taken socket t c rs s)
     else FATAL ''To many pending requests'')"
  using assms by (rule recvCallback_stream)

theorem server_takes_stream_witness:
  "recvCallback 5 (77 :: int)
     (TCPSocket_ctor\<lparr>rcv_data := encode_OMClientRequest \<lparr>omrq_seq_num = 1,
        omrq_request = MEClientRequest_default\<lparr>rq_clientId := 4\<rparr>\<rparr>\<rparr>) (demo_server) =
   Inr (TCPSocket_ctor, taken 5 77 4 [MEClientRequest_default\<lparr>rq_clientId := 4\<rparr>] (demo_server))"
proof -
  let ?r = "MEClientRequest_default\<lparr>rq_clientId := 4\<rparr>" and ?s = "demo_server"
  have "from_client 4 [?r]"
    by (simp add: from_client_def limit_defs MEClientRequest_default_def request_canonical_def)
  from server_takes_stream [OF this, of ?s 5
      "TCPSocket_ctor\<lparr>rcv_data := encode_OMClientRequest \<lparr>omrq_seq_num = 1, omrq_request = ?r\<rparr>\<rparr>" 77]
  show ?thesis
    by (simp add: demo_server_def OrderServer_ctor_def FIFOSequencer_ctor_def ME_MAX_PENDING_REQUESTS_def TCPSocket_ctor_def)
qed

section \<open>Answering disturbs the numbering\<close>

lemma tcp_send_ok:
  "data \<noteq> [] \<Longrightarrow> length (send_data s) + length data \<le> TCPBufferSize \<Longrightarrow>
   tcp_send data s = Inr (s\<lparr>send_data := send_data s @ data\<rparr>)"
  by (simp add: tcp_send_def)

text \<open>What one answer puts into the socket's buffer.\<close>

definition response_bytes :: "u64 \<Rightarrow> MEClientResponse \<Rightarrow> u8 list" where
  "response_bytes n r = put64 n @ take 8 (encode_response r)"

lemma length_response_bytes [simp]: "length (response_bytes n r) = 16"
  by (simp add: response_bytes_def sizeof_defs)

lemma os_send_response_ok:
  assumes "unat (rs_clientId r) = c" and "c < ME_MAX_NUM_CLIENTS" and "clientId_socket s c = Some socket"
    and "length (send_data (socks socket)) + 16 \<le> TCPBufferSize"
  shows "os_send_response r (s, socks) = Inr (s\<lparr>clientId_outgoing_seqNum :=
      (clientId_outgoing_seqNum s)(c := clientId_outgoing_seqNum s c + 1)\<rparr>,
    socks(socket := (socks socket)\<lparr>send_data := send_data (socks socket) @
      response_bytes (clientId_outgoing_seqNum s c) r\<rparr>))"
proof -
  have "take 8 (encode_response r) \<noteq> []" and l: "length (take 8 (encode_response r)) = 8"
    by (simp_all add: sizeof_defs flip: length_greater_0_conv)
  moreover have "put64 n \<noteq> []" for n by (simp flip: length_greater_0_conv)
  ultimately show ?thesis
    using assms by (simp add: os_send_response_def Let_def tcp_send_ok response_bytes_def)
qed

text \<open>
  C22. A client that numbers its requests 1, 2, 3 is cut off after its first answer. When the
  server has taken a request with the expected number \<open>n\<close> and then sends that client one
  response, it drops the client's next request, number \<open>n + 1\<close>, without a trace: responses and
  requests advance the same counter.
\<close>

theorem answered_client_is_dropped:
  assumes "unat (rq_clientId r) = c" and "unat (rq_clientId r') = c" and "unat (rs_clientId p) = c"
    and "c < ME_MAX_NUM_CLIENTS" and "clientId_socket s c \<in> {None, Some socket}"
    and "length (pending_client_requests (fifo_sequencer s)) < ME_MAX_PENDING_REQUESTS"
    and "length (send_data (socks socket)) + 16 \<le> TCPBufferSize"
  shows "\<exists>s1 s2 socks2. os_request socket t
      \<lparr>omrq_seq_num = clientId_outgoing_seqNum s c, omrq_request = r\<rparr> s = Inr s1 \<and>
    os_send_response p (s1, socks) = Inr (s2, socks2) \<and>
    os_request socket t' \<lparr>omrq_seq_num = clientId_outgoing_seqNum s c + 1, omrq_request = r'\<rparr> s2 = Inr s2"
proof -
  let ?s1 = "taken socket t c [r] s"
  let ?s2 = "?s1\<lparr>clientId_outgoing_seqNum :=
    (clientId_outgoing_seqNum ?s1)(c := clientId_outgoing_seqNum ?s1 c + 1)\<rparr>"
  have one: "os_request socket t \<lparr>omrq_seq_num = clientId_outgoing_seqNum s c, omrq_request = r\<rparr> s = Inr ?s1"
    using os_request_next [OF assms(1,4,5)] assms(6) by simp
  have reg: "clientId_socket ?s1 c = Some socket"
    and seq: "clientId_outgoing_seqNum ?s1 c = clientId_outgoing_seqNum s c + 1" by (simp_all add: taken_def)
  from os_send_response_ok [where socks = socks, OF assms(3,4) reg assms(7)]
  obtain socks2 where two: "os_send_response p (?s1, socks) = Inr (?s2, socks2)" by blast
  have "clientId_outgoing_seqNum s c + 1 \<noteq> clientId_outgoing_seqNum ?s2 c" by (simp add: seq)
  then have "os_request socket t'
      \<lparr>omrq_seq_num = clientId_outgoing_seqNum s c + 1, omrq_request = r'\<rparr> ?s2 = Inr ?s2"
    using assms(2,4) reg by (simp add: os_request_def Let_def)
  with one two show ?thesis by blast
qed

theorem answered_client_is_dropped_witness:
  "\<exists>s1 s2 socks2. os_request 5 7 \<lparr>omrq_seq_num = 1, omrq_request = MEClientRequest_default\<lparr>rq_clientId := 4\<rparr>\<rparr>
      (demo_server) = Inr s1 \<and>
    os_send_response (MEClientResponse_default\<lparr>rs_clientId := 4\<rparr>) (s1, \<lambda>_. TCPSocket_ctor) = Inr (s2, socks2) \<and>
    os_request 5 8 \<lparr>omrq_seq_num = 2, omrq_request = MEClientRequest_default\<lparr>rq_clientId := 4\<rparr>\<rparr> s2 = Inr s2"
  using answered_client_is_dropped [of "MEClientRequest_default\<lparr>rq_clientId := 4\<rparr>" 4
      "MEClientRequest_default\<lparr>rq_clientId := 4\<rparr>" "MEClientResponse_default\<lparr>rs_clientId := 4\<rparr>"
      "demo_server" 5 "\<lambda>_. TCPSocket_ctor" 7 8]
  by (simp add: demo_server_def OrderServer_ctor_def FIFOSequencer_ctor_def ME_MAX_PENDING_REQUESTS_def TCPSocket_ctor_def
      limit_defs TCPBufferSize_def MEClientRequest_default_def MEClientResponse_default_def)

section \<open>A client is its first socket\<close>

text \<open>
  A client belongs to the socket of its first request for ever: everything it sends over
  another connection, after a reconnect for instance, is read and thrown away, whatever its
  sequence numbers are, and changes nothing in the server.
\<close>

theorem other_socket_is_ignored:
  assumes "clientId_socket s c = Some socket" and "socket \<noteq> socket'" and "from_client c (map omrq_request ms)"
    and "rcv_data sock = concat (map encode_OMClientRequest ms)"
  shows "\<exists>sock'. recvCallback socket' t sock s = Inr (sock', s)"
proof -
  have "map decode_OMClientRequest (frames sizeof_OMClientRequest (rcv_data sock)) = ms"
    using om_request.decode_stream [of ms "[]"] assms(3,4) by (auto simp: from_client_def sizeof_defs)
  moreover have "os_request socket' t m s = Inr s" if "m \<in> set ms" for m
    using that assms by (auto simp: os_request_def Let_def from_client_def)
  then have "foldR (os_request socket' t) ms s = Inr s"
    by (induction ms) auto
  ultimately show ?thesis by (simp add: recvCallback_def)
qed

theorem other_socket_is_ignored_witness:
  "\<exists>sock'. recvCallback 6 (77 :: int)
     (TCPSocket_ctor\<lparr>rcv_data := encode_OMClientRequest \<lparr>omrq_seq_num = 1,
        omrq_request = MEClientRequest_default\<lparr>rq_clientId := 4\<rparr>\<rparr>\<rparr>)
     ((demo_server)\<lparr>clientId_socket := (\<lambda>_. None)(4 := Some 5)\<rparr>) =
   Inr (sock', (demo_server)\<lparr>clientId_socket := (\<lambda>_. None)(4 := Some 5)\<rparr>)"
  by (rule other_socket_is_ignored [where c = 4 and socket = 5 and
      ms = "[\<lparr>omrq_seq_num = 1, omrq_request = MEClientRequest_default\<lparr>rq_clientId := 4\<rparr>\<rparr>]"])
     (simp_all add: from_client_def limit_defs MEClientRequest_default_def request_canonical_def)

text \<open>
  A client number of 256 or more in a request reads the socket table out of bounds: no guard
  stands between the bytes of the network and the index.
\<close>

theorem unknown_client_out_of_bounds:
  assumes "ME_MAX_NUM_CLIENTS \<le> unat (rq_clientId (omrq_request m))"
  shows "os_request socket t m s = Inl Out_of_bounds"
  using assms by (simp add: os_request_def)

theorem unknown_client_out_of_bounds_witness:
  "os_request 5 7 \<lparr>omrq_seq_num = 1, omrq_request = MEClientRequest_default\<lparr>rq_clientId := 256\<rparr>\<rparr> demo_server =
    Inl Out_of_bounds"
  by (rule unknown_client_out_of_bounds) (simp add: limit_defs)

end
