(* ===== verification/TCPServer.thy ===== *)
theory TCPServer
  imports TCPSocket
begin

text \<open>
  common/tcp_server.h and tcp_server.cpp: the server that owns the connections. Sockets are
  numbers, the key of the heap \<open>sv_heap\<close> that holds them; \<open>listener_socket_\<close> is number 0. The
  kernel is a parameter: the events that are ready, the descriptors \<open>accept\<close> returns with the
  outcome of the calls that configure them, and what reading and writing a socket does.
\<close>

record epoll_event =
  ev_socket :: nat
  ev_in :: bool
  ev_out :: bool
  ev_err_hup :: bool

record accepted =
  acc_fd :: int
  acc_nonblocking :: bool
  acc_nodelay :: bool
  acc_epoll :: bool

record TCPServer =
  sv_efd :: int
  sv_heap :: "nat \<Rightarrow> TCPSocket"
  sv_fresh :: nat
  sv_sockets :: "nat list"
  recv_sockets :: "nat list"
  send_sockets :: "nat list"
  disconnected_sockets :: "nat list"

definition listener_socket :: nat where "listener_socket = 0"

definition TCPServer_ctor :: TCPServer where
  "TCPServer_ctor = \<lparr>sv_efd = - 1, sv_heap = (\<lambda>_. TCPSocket_ctor), sv_fresh = Suc listener_socket, sv_sockets = [],
     recv_sockets = [], send_sockets = [], disconnected_sockets = []\<rparr>"

section \<open>Starting to listen\<close>

definition addToEpollList :: "'a kernel \<Rightarrow> nat \<Rightarrow> TCPServer \<Rightarrow> ('a, bool) sys" where
  "addToEpollList K socket sv = do {
     rc \<leftarrow> call K (Sys_epoll_add (sv_efd sv) (fd (sv_heap sv socket)));
     State_Monad.return (rc = 0)
   }"

definition removeFromEpollList :: "'a kernel \<Rightarrow> nat \<Rightarrow> TCPServer \<Rightarrow> ('a, bool) sys" where
  "removeFromEpollList K socket sv = do {
     rc \<leftarrow> call K (Sys_epoll_del (sv_efd sv) (fd (sv_heap sv socket)));
     State_Monad.return (rc \<noteq> 0)
   }"

definition sv_destroy :: "'a kernel \<Rightarrow> TCPServer \<Rightarrow> ('a, TCPServer) sys" where
  "sv_destroy K sv = do {
     efd_closed \<leftarrow> call K (Sys_close (sv_efd sv));
     listener_closed \<leftarrow> call K (Sys_close (fd (sv_heap sv listener_socket)));
     State_Monad.return (sv\<lparr>sv_efd := - 1,
       sv_heap := (sv_heap sv)(listener_socket := tcp_destory (sv_heap sv listener_socket))\<rparr>)
   }"

text \<open>The three assertions of \<open>listen\<close> are commented out, so no result of it is looked at.\<close>

definition sv_listen :: "'a kernel \<Rightarrow> string \<Rightarrow> int \<Rightarrow> TCPServer \<Rightarrow> ('a, TCPServer) sys" where
  "sv_listen K iface port sv = do {
     sv1 \<leftarrow> sv_destroy K sv;
     efd \<leftarrow> call K Sys_epoll_create;
     (listener, rc) \<leftarrow> tcp_connect_to K [] iface port True (sv_heap sv1 listener_socket);
     let sv2 = sv1\<lparr>sv_efd := efd, sv_heap := (sv_heap sv1)(listener_socket := listener)\<rparr>;
     added \<leftarrow> addToEpollList K listener_socket sv2;
     State_Monad.return sv2
   }"

section \<open>Polling\<close>

text \<open>The erase-remove idiom, and the guarded \<open>push_back\<close>.\<close>

definition erase_remove :: "nat \<Rightarrow> nat list \<Rightarrow> nat list" where
  "erase_remove x xs = filter (\<lambda>y. y \<noteq> x) xs"

definition push_if_absent :: "nat \<Rightarrow> nat list \<Rightarrow> nat list" where
  "push_if_absent x xs = (if x \<notin> set xs then xs @ [x] else xs)"

definition deleteSocket :: "nat \<Rightarrow> TCPServer \<Rightarrow> TCPServer" where
  "deleteSocket socket sv = sv\<lparr>sv_sockets := erase_remove socket (sv_sockets sv),
     recv_sockets := erase_remove socket (recv_sockets sv),
     send_sockets := erase_remove socket (send_sockets sv)\<rparr>"

text \<open>One event of \<open>epoll_wait\<close>; the flag is \<open>have_new_connections\<close>.\<close>

definition poll_event :: "epoll_event \<Rightarrow> TCPServer \<times> bool \<Rightarrow> TCPServer \<times> bool" where
  "poll_event event = (\<lambda>(sv, have_new_connections).
     let socket = ev_socket event in
     if ev_in event \<and> socket = listener_socket then (sv, True)
     else
       let sv1 = (if ev_in event then sv\<lparr>recv_sockets := push_if_absent socket (recv_sockets sv)\<rparr> else sv);
           sv2 = (if ev_out event then sv1\<lparr>send_sockets := push_if_absent socket (send_sockets sv1)\<rparr> else sv1);
           sv3 = (if ev_err_hup event
                  then sv2\<lparr>disconnected_sockets := push_if_absent socket (disconnected_sockets sv2)\<rparr> else sv2)
       in (sv3, have_new_connections))"

text \<open>One turn of the accepting loop.\<close>

definition poll_accept :: "accepted \<Rightarrow> TCPServer \<Rightarrow> TCPServer res" where
  "poll_accept acc sv =
     ASSERT (acc_nonblocking acc \<and> acc_nodelay acc) ''Failed to set NonBlocking or NoDelay on socket:''
       (let socket = sv_fresh sv;
            sv1 = sv\<lparr>sv_heap := (sv_heap sv)(socket := TCPSocket_ctor\<lparr>fd := acc_fd acc\<rparr>),
                     sv_fresh := Suc socket\<rparr>
        in ASSERT (acc_epoll acc) ''Unable to add socket to epoll''
             (Inr (sv1\<lparr>recv_sockets := push_if_absent socket (recv_sockets sv1)\<rparr>)))"

text \<open>
  \<open>poll\<close>: \<open>epoll_wait\<close> reports at most \<open>max_events\<close> of the ready events, and the accepting loop
  ends when \<open>accept\<close> has no more connection.
\<close>

definition tcp_poll :: "epoll_event list \<Rightarrow> accepted list \<Rightarrow> TCPServer \<Rightarrow> TCPServer res" where
  "tcp_poll ready connections sv =
     (let max_events = 1 + length (sv_sockets sv);
          sv1 = foldl (\<lambda>sv socket. deleteSocket socket sv) sv (disconnected_sockets sv);
          (sv2, have_new_connections) = foldl (\<lambda>s event. poll_event event s) (sv1, False) (take max_events ready)
      in if have_new_connections then foldR poll_accept connections sv2 else Inr sv2)"

text \<open>
  \<open>sendAndRecv\<close>: every socket of the receiving list, then the callback that ends the round if
  anything was read, then every socket of the sending list. The result collects the bytes the
  kernel took from each socket.
\<close>

type_synonym 's sv_state = "TCPServer \<times> 's \<times> (nat \<times> u8 list) list \<times> bool"

definition sv_sendAndRecv_one ::
    "(nat \<Rightarrow> (Nanos \<times> u8 list) option) \<Rightarrow> (nat \<Rightarrow> nat \<Rightarrow> send_result) \<Rightarrow> (nat \<Rightarrow> 's recv_callback) \<Rightarrow>
     nat \<Rightarrow> 's sv_state \<Rightarrow> 's sv_state res" where
  "sv_sendAndRecv_one incoming os callback socket = (\<lambda>(sv, st, out, recv).
     bindR (tcp_sendAndRecv (incoming socket) (os socket) (callback socket) (sv_heap sv socket) st)
       (\<lambda>(sock', st', sent, got).
          Inr (sv\<lparr>sv_heap := (sv_heap sv)(socket := sock')\<rparr>, st', out @ [(socket, sent)], recv \<or> got)))"

definition sv_sendAndRecv ::
    "(nat \<Rightarrow> (Nanos \<times> u8 list) option) \<Rightarrow> (nat \<Rightarrow> nat \<Rightarrow> send_result) \<Rightarrow>
     (nat \<Rightarrow> (Nanos \<times> u8 list) option) \<Rightarrow> (nat \<Rightarrow> nat \<Rightarrow> send_result) \<Rightarrow>
     (nat \<Rightarrow> 's recv_callback) \<Rightarrow> ('s \<Rightarrow> 's) \<Rightarrow> TCPServer \<Rightarrow> 's \<Rightarrow> 's sv_state res" where
  "sv_sendAndRecv incoming os incoming2 os2 callback finished sv st =
     bindR (foldR (sv_sendAndRecv_one incoming os callback) (recv_sockets sv) (sv, st, [], False))
       (\<lambda>(sv1, st1, out1, recv).
          foldR (sv_sendAndRecv_one incoming2 os2 callback) (send_sockets sv1)
            (sv1, if recv then finished st1 else st1, out1, recv))"

section \<open>The lists of sockets\<close>

text \<open>
  What every reachable server satisfies: only connections the server has accepted are listed to
  be read, each once; the list of all sockets stays empty, because nothing is ever put in it.
\<close>

definition server_inv :: "TCPServer \<Rightarrow> bool" where
  "server_inv sv \<longleftrightarrow> sv_sockets sv = [] \<and> distinct (recv_sockets sv) \<and> distinct (send_sockets sv) \<and>
     distinct (disconnected_sockets sv)"

lemma push_if_absent_facts [simp]:
  "set (push_if_absent x xs) = insert x (set xs)" "distinct (push_if_absent x xs) = distinct xs"
  by (auto simp: push_if_absent_def)

lemma erase_remove_facts [simp]:
  "set (erase_remove x xs) = set xs - {x}" "distinct xs \<Longrightarrow> distinct (erase_remove x xs)"
  "erase_remove x [] = []"
  by (auto simp: erase_remove_def)

lemma deleteSocket_inv: "server_inv sv \<Longrightarrow> server_inv (deleteSocket socket sv)"
  by (simp add: server_inv_def deleteSocket_def)

lemma foldl_deleteSocket:
  "server_inv sv \<Longrightarrow> server_inv (foldl (\<lambda>sv socket. deleteSocket socket sv) sv ss) \<and>
   set (recv_sockets (foldl (\<lambda>sv socket. deleteSocket socket sv) sv ss)) = set (recv_sockets sv) - set ss \<and>
   disconnected_sockets (foldl (\<lambda>sv socket. deleteSocket socket sv) sv ss) = disconnected_sockets sv"
proof (induction ss arbitrary: sv)
  case (Cons x ss)
  then show ?case
    using Cons.IH [of "deleteSocket x sv"] deleteSocket_inv [of sv x] by (auto simp: deleteSocket_def)
qed simp

lemma poll_event_inv:
  "server_inv sv \<Longrightarrow> server_inv (fst (poll_event event (sv, new))) \<and>
   set (disconnected_sockets sv) \<subseteq> set (disconnected_sockets (fst (poll_event event (sv, new))))"
  by (auto simp: poll_event_def Let_def server_inv_def)

lemma foldl_poll_event:
  "server_inv sv \<Longrightarrow> server_inv (fst (foldl (\<lambda>s event. poll_event event s) (sv, new) evs)) \<and>
   set (disconnected_sockets sv) \<subseteq>
     set (disconnected_sockets (fst (foldl (\<lambda>s event. poll_event event s) (sv, new) evs)))"
proof (induction evs arbitrary: sv new)
  case (Cons ev evs)
  obtain sv' new' where p: "poll_event ev (sv, new) = (sv', new')" by fastforce
  then have "server_inv sv'" "set (disconnected_sockets sv) \<subseteq> set (disconnected_sockets sv')"
    using poll_event_inv [OF Cons.prems, of ev new] by simp_all
  then show ?case using Cons.IH [of sv' new'] by (auto simp: p)
qed simp

lemma poll_accept_inv:
  "poll_accept acc sv = Inr sv' \<Longrightarrow> server_inv sv \<Longrightarrow>
   server_inv sv' \<and> disconnected_sockets sv' = disconnected_sockets sv"
  by (auto simp: poll_accept_def Let_def ASSERT_eq_Inr server_inv_def)

lemma foldR_poll_accept_inv:
  assumes "foldR poll_accept accs sv = Inr sv'" and "server_inv sv"
  shows "server_inv sv' \<and> disconnected_sockets sv' = disconnected_sockets sv"
proof (rule foldR_invariant [where f = poll_accept and xs = accs and s = sv and s' = sv'
      and I = "\<lambda>x. server_inv x \<and> disconnected_sockets x = disconnected_sockets sv"])
  show "server_inv sv \<and> disconnected_sockets sv = disconnected_sockets sv" using assms(2) by simp
qed (use assms(1) poll_accept_inv in \<open>auto dest: poll_accept_inv\<close>)

text \<open>
  A poll keeps the socket lists free of duplicates and looks at one event only: the list of
  all sockets is never filled, so \<open>max_events\<close> is always one and every further ready socket waits
  for a later round. A disconnected socket is never taken off its list.
\<close>

theorem poll_sees_one_event:
  assumes "server_inv sv" and "tcp_poll ready connections sv = Inr sv'"
  shows "server_inv sv' \<and> tcp_poll ready connections sv = tcp_poll (take 1 ready) connections sv \<and>
    set (disconnected_sockets sv) \<subseteq> set (disconnected_sockets sv')"
proof -
  have one: "sv_sockets sv = []" using assms(1) by (simp add: server_inv_def)
  let ?sv1 = "foldl (\<lambda>sv socket. deleteSocket socket sv) sv (disconnected_sockets sv)"
  have sv1: "server_inv ?sv1" "disconnected_sockets ?sv1 = disconnected_sockets sv"
    using foldl_deleteSocket [OF assms(1)] by simp_all
  obtain sv2 new where p: "foldl (\<lambda>s event. poll_event event s) (?sv1, False) (take 1 ready) = (sv2, new)"
    by fastforce
  have sv2: "server_inv sv2" "set (disconnected_sockets sv) \<subseteq> set (disconnected_sockets sv2)"
    using foldl_poll_event [OF sv1(1), of False "take 1 ready"] p sv1(2) by simp_all
  have run: "(if new then foldR poll_accept connections sv2 else Inr sv2) = Inr sv'"
    using assms(2) p by (simp add: tcp_poll_def one)
  then have "server_inv sv' \<and> disconnected_sockets sv' = disconnected_sockets sv2"
    using foldR_poll_accept_inv [of connections sv2 sv'] sv2(1) by (auto split: if_splits)
  then show ?thesis using sv2(2) by (simp add: tcp_poll_def one)
qed

theorem poll_sees_one_event_witness:
  "\<exists>sv'. tcp_poll [\<lparr>ev_socket = 0, ev_in = True, ev_out = False, ev_err_hup = False\<rparr>]
      [\<lparr>acc_fd = 9, acc_nonblocking = True, acc_nodelay = True, acc_epoll = True\<rparr>] TCPServer_ctor = Inr sv' \<and>
    recv_sockets sv' = [1] \<and> server_inv sv'"
proof -
  let ?ready = "[\<lparr>ev_socket = 0, ev_in = True, ev_out = False, ev_err_hup = False\<rparr>]"
  let ?accs = "[\<lparr>acc_fd = 9, acc_nonblocking = True, acc_nodelay = True, acc_epoll = True\<rparr>]"
  obtain sv' where run: "tcp_poll ?ready ?accs TCPServer_ctor = Inr sv'" and r: "recv_sockets sv' = [1]"
    by (simp add: tcp_poll_def TCPServer_ctor_def poll_event_def listener_socket_def poll_accept_def Let_def
        push_if_absent_def)
  have "server_inv TCPServer_ctor" by (simp add: server_inv_def TCPServer_ctor_def)
  from poll_sees_one_event [OF this run] show ?thesis using run r by blast
qed

section \<open>A server that does not listen\<close>

lemma run_createSocket_unresolved:
  "getaddrinfo K (getIfaceIP K iface) (int_to_string port) (socket_hints (getIfaceIP K iface) False is_listening) = None \<Longrightarrow>
   run_state (createSocket K [] iface port False False is_listening 0 True) made = (- 1, made)"
  by (simp add: createSocket_def Let_def)

text \<open>
  Starting the server reports nothing: when the interface has no address to bind, \<open>listen\<close> returns
  as it always does, with -1 for the listening descriptor, and registers that with epoll.
\<close>

theorem failed_listen_unnoticed:
  assumes "getaddrinfo K (getIfaceIP K iface) (int_to_string port) (socket_hints (getIfaceIP K iface) False True) = None"
  shows "\<exists>sv' efd made'. run_state (sv_listen K iface port sv) made = (sv', made') \<and>
    fd (sv_heap sv' listener_socket) = - 1 \<and> sv_efd sv' = efd \<and> last made' = Sys_epoll_add efd (- 1)"
  using assms
  by (simp add: sv_listen_def sv_destroy_def tcp_connect_to_def run_createSocket_unresolved addToEpollList_def
      tcp_connect_def tcp_destory_def Let_def)

theorem failed_listen_unnoticed_witness:
  "\<exists>sv' made'. run_state (sv_listen (refusing_kernel\<lparr>getaddrinfo := \<lambda>_ _ _. None\<rparr>) ''lo'' 12345 TCPServer_ctor) [] =
    (sv', made') \<and> fd (sv_heap sv' listener_socket) = - 1"
proof -
  let ?K = "refusing_kernel\<lparr>getaddrinfo := \<lambda>_ _ _. None\<rparr>"
  have "getaddrinfo ?K (getIfaceIP ?K ''lo'') (int_to_string 12345) (socket_hints (getIfaceIP ?K ''lo'') False True) = None"
    by simp
  from failed_listen_unnoticed [OF this, of TCPServer_ctor "[]"] show ?thesis by blast
qed

end
