(* ===== verification/MulticastSocket.thy ===== *)
theory MulticastSocket
  imports Wire SocketUtils
begin

text \<open>
  common/multicast_socket.h and multicast_socket.cpp: a UDP multicast socket with its two buffers,
  each the list of its valid bytes, as in the TCP socket. The kernel is a parameter: what \<open>recv\<close>
  delivers and whether \<open>::send\<close> takes the datagram.
\<close>

definition MulticastBufferSize :: nat where "MulticastBufferSize = 64 * 1024 * 1024"

record MulticastSocket =
  socket_fd :: int
  outbound_data :: "u8 list"
  inbound_data :: "u8 list"

definition MulticastSocket_ctor :: MulticastSocket where
  "MulticastSocket_ctor = \<lparr>socket_fd = - 1, outbound_data = [], inbound_data = []\<rparr>"

definition mc_init :: "int \<Rightarrow> MulticastSocket \<Rightarrow> MulticastSocket \<times> int" where
  "mc_init new_fd s = (s\<lparr>socket_fd := new_fd\<rparr>, new_fd)"

definition mc_leave :: "MulticastSocket \<Rightarrow> MulticastSocket" where
  "mc_leave s = s\<lparr>socket_fd := - 1\<rparr>"

text \<open>Where the new descriptor comes from, and joining a group.\<close>

definition mc_init_on ::
    "'a kernel \<Rightarrow> string \<Rightarrow> string \<Rightarrow> int \<Rightarrow> bool \<Rightarrow> MulticastSocket \<Rightarrow> ('a, MulticastSocket \<times> int) sys" where
  "mc_init_on K ip iface port is_listening s = do {
     new_fd \<leftarrow> createSocket K ip iface port True False is_listening 1 False;
     State_Monad.return (mc_init new_fd s)
   }"

definition mc_join :: "'a kernel \<Rightarrow> string \<Rightarrow> MulticastSocket \<Rightarrow> ('a, bool) sys" where
  "mc_join K ip s = join_group K (socket_fd s) ip"

text \<open>The copy comes before the check that the buffer still has room.\<close>

definition mc_send :: "u8 list \<Rightarrow> MulticastSocket \<Rightarrow> MulticastSocket res" where
  "mc_send data s =
     (if length (outbound_data s) + length data \<le> MulticastBufferSize then
        let s1 = s\<lparr>outbound_data := outbound_data s @ data\<rparr> in
        ASSERT (length (outbound_data s1) < MulticastBufferSize)
          ''Mcast socket buffer filled up and sendAndRecv() not called.'' (Inr s1)
      else Inl Out_of_bounds)"

text \<open>
  \<open>recv_callback_\<close> is empty unless its owner sets it. The result holds the datagram the network
  got, if any, and whether something was received.
\<close>

type_synonym 's mc_callback = "(MulticastSocket \<Rightarrow> 's \<Rightarrow> (MulticastSocket \<times> 's) res) option"

definition mc_sendAndRecv ::
    "u8 list \<Rightarrow> bool \<Rightarrow> 's mc_callback \<Rightarrow> MulticastSocket \<Rightarrow> 's \<Rightarrow>
     (MulticastSocket \<times> 's \<times> u8 list list \<times> bool) res" where
  "mc_sendAndRecv incoming send_ok callback s st =
     (let bytes = take (MulticastBufferSize - length (inbound_data s)) incoming in
      bindR (if bytes \<noteq> [] then
               (let s1 = s\<lparr>inbound_data := inbound_data s @ bytes\<rparr> in
                case callback of None \<Rightarrow> Inl Bad_function_call | Some f \<Rightarrow> f s1 st)
             else Inr (s, st)) (\<lambda>(s1, st1).
        Inr (s1\<lparr>outbound_data := []\<rparr>, st1,
          (if 0 < length (outbound_data s1) \<and> send_ok then [outbound_data s1] else []), bytes \<noteq> [])))"

lemma mc_send_ok:
  "length (outbound_data s) + length data < MulticastBufferSize \<Longrightarrow>
   mc_send data s = Inr (s\<lparr>outbound_data := outbound_data s @ data\<rparr>)"
  by (simp add: mc_send_def Let_def)

lemma mc_sendAndRecv_quiet:
  "mc_sendAndRecv [] True callback s st = Inr (s\<lparr>outbound_data := []\<rparr>, st,
     if outbound_data s = [] then [] else [outbound_data s], False)"
  by (simp add: mc_sendAndRecv_def)

section \<open>Numbered market updates\<close>

text \<open>A run of updates under consecutive sequence numbers, as both market data channels carry it.\<close>

fun numbered_updates :: "u64 \<Rightarrow> MEMarketUpdate list \<Rightarrow> MDPMarketUpdate list" where
  "numbered_updates n [] = []"
| "numbered_updates n (u # us) = \<lparr>mdp_seq_num = n, mdp_update = u\<rparr> # numbered_updates (n + 1) us"

lemma numbered_updates_append:
  "numbered_updates n (us @ vs) = numbered_updates n us @ numbered_updates (n + of_nat (length us)) vs"
  by (induction us arbitrary: n) (simp_all add: algebra_simps)

lemma length_numbered_updates [simp]: "length (numbered_updates n us) = length us"
  by (induction us arbitrary: n) auto

lemma numbered_updates_map [simp]: "map mdp_update (numbered_updates n us) = us"
  by (induction us arbitrary: n) auto

definition update_stream :: "MDPMarketUpdate list \<Rightarrow> u8 list" where
  "update_stream ms = concat (map encode_MDPMarketUpdate ms)"

lemma update_stream_simps [simp]:
  "update_stream [] = []" "update_stream (m # ms) = encode_MDPMarketUpdate m @ update_stream ms"
  "update_stream (ms @ ms') = update_stream ms @ update_stream ms'"
  by (simp_all add: update_stream_def)

lemma length_update_stream: "length (update_stream ms) = sizeof_MDPMarketUpdate * length ms"
  by (induction ms) (simp_all add: mdp_codec.length_encode)

end
