(* ===== verification/MarketDataPublisher.thy ===== *)
theory MarketDataPublisher
  imports MulticastSocket LFQueue
begin

text \<open>
  exchange/market_data/market_data_publisher.h and market_data_publisher.cpp: the thread that
  numbers the engine's market updates and multicasts them. The lines that would pass each update
  on to the snapshot synthesizer's queue are commented out in the code, so the queue is a field no
  operation writes.
\<close>

record MarketDataPublisher =
  next_inc_seq_num :: u64
  outgoing_md_updates :: "MEMarketUpdate LFQueue"
  snapshot_updates :: "MDPMarketUpdate LFQueue"
  incremental_socket :: MulticastSocket

definition MarketDataPublisher_ctor :: "MEMarketUpdate LFQueue \<Rightarrow> int \<Rightarrow> MarketDataPublisher res" where
  "MarketDataPublisher_ctor updates new_fd =
     (let (sock, fd) = mc_init new_fd MulticastSocket_ctor in
      ASSERT (0 \<le> fd) ''Unable to create incremental mcast socket.''
        (Inr \<lparr>next_inc_seq_num = 1, outgoing_md_updates = updates,
              snapshot_updates = LFQueue_ctor ME_MAX_MARKET_UPDATES
                \<lparr>mdp_seq_num = 0, mdp_update = MEMarketUpdate_default\<rparr>,
              incremental_socket = sock\<rparr>))"

text \<open>The body of the inner loop: the number, then the update, both copied into the buffer.\<close>

definition publish_update ::
    "MEMarketUpdate \<Rightarrow> u64 \<times> MulticastSocket \<Rightarrow> (u64 \<times> MulticastSocket) res" where
  "publish_update market_update = (\<lambda>(next_inc_seq, sock).
     bindR (mc_send (put64 next_inc_seq) sock) (\<lambda>sock1.
     bindR (mc_send (encode_update market_update) sock1) (\<lambda>sock2.
       Inr (next_inc_seq + 1, sock2))))"

text \<open>One round of the main loop of \<open>run\<close>; \<open>incoming\<close> and \<open>send_ok\<close> are the kernel's part.\<close>

definition publisher_round ::
    "u8 list \<Rightarrow> bool \<Rightarrow> MarketDataPublisher \<Rightarrow> (MarketDataPublisher \<times> u8 list list) res" where
  "publisher_round incoming send_ok p =
     bindR (lfq_drain publish_update (outgoing_md_updates p) (next_inc_seq_num p, incremental_socket p))
       (\<lambda>(q, n, sock).
     bindR (mc_sendAndRecv incoming send_ok (None :: unit mc_callback) sock ()) (\<lambda>(sock', _, sent, _).
       Inr (p\<lparr>next_inc_seq_num := n, outgoing_md_updates := q, incremental_socket := sock'\<rparr>, sent)))"

section \<open>What is multicast\<close>

lemma encode_numbered: "put64 n @ encode_update u = encode_MDPMarketUpdate \<lparr>mdp_seq_num = n, mdp_update = u\<rparr>"
  by (simp add: encode_MDPMarketUpdate_def)

lemma publish_all:
  "length (outbound_data sock) + sizeof_MDPMarketUpdate * length us < MulticastBufferSize \<Longrightarrow>
   foldR publish_update us (n, sock) = Inr (n + of_nat (length us),
     sock\<lparr>outbound_data := outbound_data sock @ update_stream (numbered_updates n us)\<rparr>)"
proof (induction us arbitrary: n sock)
  case (Cons u us)
  let ?sock = "sock\<lparr>outbound_data := outbound_data sock @
    encode_MDPMarketUpdate \<lparr>mdp_seq_num = n, mdp_update = u\<rparr>\<rparr>"
  have "publish_update u (n, sock) = Inr (n + 1, ?sock)"
    using Cons.prems by (simp add: publish_update_def mc_send_ok sizeof_MDPMarketUpdate_def encode_numbered)
  moreover have "length (outbound_data ?sock) + sizeof_MDPMarketUpdate * length us < MulticastBufferSize"
    using Cons.prems by (simp add: mdp_codec.length_encode)
  ultimately show ?case using Cons.IH [of ?sock "n + 1"] by (simp add: algebra_simps)
qed simp

lemma publisher_round_quiet:
  assumes "lfq_inv (outgoing_md_updates p)" and "outbound_data (incremental_socket p) = []"
    and "lfq_list (outgoing_md_updates p) = us" and "us \<noteq> []"
    and "sizeof_MDPMarketUpdate * length us < MulticastBufferSize"
  shows "\<exists>p'. publisher_round [] True p = Inr (p', [update_stream (numbered_updates (next_inc_seq_num p) us)]) \<and>
    next_inc_seq_num p' = next_inc_seq_num p + of_nat (length us) \<and>
    lfq_list (outgoing_md_updates p') = [] \<and> outbound_data (incremental_socket p') = [] \<and>
    snapshot_updates p' = snapshot_updates p"
proof -
  let ?n = "next_inc_seq_num p" and ?sock = "incremental_socket p"
  have "foldR publish_update us (?n, ?sock) = Inr (?n + of_nat (length us),
     ?sock\<lparr>outbound_data := update_stream (numbered_updates ?n us)\<rparr>)"
    using publish_all [of ?sock us ?n] assms(2,5) by simp
  moreover have "update_stream (numbered_updates ?n us) \<noteq> []"
    using assms(4) by (simp add: length_update_stream sizeof_defs flip: length_greater_0_conv)
  ultimately show ?thesis
    using assms(1,3) by (simp add: publisher_round_def lfq_drain_eq mc_sendAndRecv_quiet)
qed

text \<open>
  The publisher multicasts exactly the engine's updates: one round with room in the buffer
  takes every update off the queue and sends them, in order and under consecutive sequence
  numbers from the publisher's counter, as one datagram; the counter moves past them. The queue
  of the snapshot synthesizer never receives anything.
\<close>

theorem publisher_sends_updates:
  assumes "lfq_inv (outgoing_md_updates p)" and "outbound_data (incremental_socket p) = []"
    and "lfq_list (outgoing_md_updates p) = us" and "us \<noteq> []"
    and "sizeof_MDPMarketUpdate * length us < MulticastBufferSize"
  shows "\<exists>p'. publisher_round [] True p = Inr (p', [update_stream (numbered_updates (next_inc_seq_num p) us)]) \<and>
    next_inc_seq_num p' = next_inc_seq_num p + of_nat (length us) \<and>
    lfq_list (outgoing_md_updates p') = [] \<and> outbound_data (incremental_socket p') = [] \<and>
    snapshot_updates p' = snapshot_updates p"
  using assms by (rule publisher_round_quiet)

theorem publisher_sends_updates_witness:
  "\<exists>p p'. MarketDataPublisher_ctor (lfq_push (LFQueue_ctor 8 MEMarketUpdate_default) MEMarketUpdate_default) 3 = Inr p \<and>
    publisher_round [] True p = Inr (p', [encode_MDPMarketUpdate \<lparr>mdp_seq_num = 1, mdp_update = MEMarketUpdate_default\<rparr>])"
proof -
  let ?u = MEMarketUpdate_default and ?q = "LFQueue_ctor 8 MEMarketUpdate_default"
  have q: "lfq_inv (lfq_push ?q ?u)" "lfq_list (lfq_push ?q ?u) = [?u]" using lfq_push_list [of ?q ?u] by simp_all
  obtain p where p: "MarketDataPublisher_ctor (lfq_push ?q ?u) 3 = Inr p"
    and f: "outgoing_md_updates p = lfq_push ?q ?u" "outbound_data (incremental_socket p) = []"
      "next_inc_seq_num p = 1"
    by (simp add: MarketDataPublisher_ctor_def mc_init_def MulticastSocket_ctor_def Let_def)
  show ?thesis
    using publisher_sends_updates [of p "[?u]"] p f q by (auto simp: sizeof_defs MulticastBufferSize_def)
qed

text \<open>
  If the kernel ever delivers bytes on the publisher's own socket, the exchange ends: no
  callback is installed there, and calling the empty one throws.
\<close>

theorem publisher_receive_is_fatal:
  assumes "lfq_inv (outgoing_md_updates p)" and "lfq_list (outgoing_md_updates p) = []"
    and "incoming \<noteq> []" and "length (inbound_data (incremental_socket p)) < MulticastBufferSize"
  shows "publisher_round incoming send_ok p = Inl Bad_function_call"
  using assms by (simp add: publisher_round_def lfq_drain_eq mc_sendAndRecv_def Let_def)

theorem publisher_receive_is_fatal_witness:
  "\<exists>p. MarketDataPublisher_ctor (LFQueue_ctor 8 MEMarketUpdate_default) 3 = Inr p \<and>
    publisher_round [0] True p = Inl Bad_function_call"
proof -
  obtain p where p: "MarketDataPublisher_ctor (LFQueue_ctor 8 MEMarketUpdate_default) 3 = Inr p"
    and f: "outgoing_md_updates p = LFQueue_ctor 8 MEMarketUpdate_default"
      "length (inbound_data (incremental_socket p)) < MulticastBufferSize"
    by (simp add: MarketDataPublisher_ctor_def mc_init_def MulticastSocket_ctor_def Let_def MulticastBufferSize_def)
  show ?thesis using publisher_receive_is_fatal [of p "[0]" True] p f by auto
qed

end
