(* ===== verification/Exchange.thy ===== *)
theory Exchange
  imports EngineProps OrderServer TCPServer MarketDataPublisher
begin

text \<open>
  exchange_main.cpp, and what the three threads it starts do together. The three queues belong to
  the exchange; each thread works on them in its turn. A turn of the order server is one round of
  its loop, a turn of the engine \<open>n\<close> passes of its loop, a turn of the publisher one round.
\<close>

text \<open>One round of the loop of \<open>OrderServer::run\<close>.\<close>

definition order_server_round ::
    "sorter \<Rightarrow> epoll_event list \<Rightarrow> accepted list \<Rightarrow>
     (nat \<Rightarrow> (Nanos \<times> u8 list) option) \<Rightarrow> (nat \<Rightarrow> nat \<Rightarrow> send_result) \<Rightarrow>
     (nat \<Rightarrow> (Nanos \<times> u8 list) option) \<Rightarrow> (nat \<Rightarrow> nat \<Rightarrow> send_result) \<Rightarrow>
     TCPServer \<Rightarrow> OrderServer \<Rightarrow> (TCPServer \<times> OrderServer \<times> (nat \<times> u8 list) list) res" where
  "order_server_round srt ready connections incoming os incoming2 os2 sv s =
     bindR (tcp_poll ready connections sv) (\<lambda>sv1.
     bindR (sv_sendAndRecv incoming os incoming2 os2 recvCallback (recvFinishedCallback srt) sv1 s)
       (\<lambda>(sv2, s2, out, recv).
     bindR (os_send_responses (s2, sv_heap sv2)) (\<lambda>(s3, heap).
       Inr (sv2\<lparr>sv_heap := heap\<rparr>, s3, out))))"

record Exchange =
  client_requests :: "MEClientRequest LFQueue"
  client_responses :: "MEClientResponse LFQueue"
  market_updates :: "MEMarketUpdate LFQueue"
  matching_engine :: MatchingEngine
  market_data_publisher :: MarketDataPublisher
  tcp_server :: TCPServer
  order_server :: OrderServer

text \<open>\<open>main\<close>, with the descriptor the publisher's socket gets.\<close>

definition exchange_main :: "int \<Rightarrow> Exchange res" where
  "exchange_main new_fd =
     (let requests = LFQueue_ctor ME_MAX_CLIENT_UPDATES MEClientRequest_default;
          responses = LFQueue_ctor ME_MAX_CLIENT_UPDATES MEClientResponse_default;
          updates = LFQueue_ctor ME_MAX_MARKET_UPDATES MEMarketUpdate_default;
          engine = MatchingEngine_ctor requests
            \<lparr>outgoing_responses = responses, outgoing_market_updates = updates\<rparr>
      in bindR (MarketDataPublisher_ctor updates new_fd) (\<lambda>publisher.
           Inr \<lparr>client_requests = requests, client_responses = responses, market_updates = updates,
             matching_engine = engine, market_data_publisher = publisher, tcp_server = TCPServer_ctor,
             order_server = OrderServer_ctor requests responses\<rparr>))"

section \<open>Turns\<close>

definition server_turn ::
    "sorter \<Rightarrow> epoll_event list \<Rightarrow> accepted list \<Rightarrow>
     (nat \<Rightarrow> (Nanos \<times> u8 list) option) \<Rightarrow> (nat \<Rightarrow> nat \<Rightarrow> send_result) \<Rightarrow>
     (nat \<Rightarrow> (Nanos \<times> u8 list) option) \<Rightarrow> (nat \<Rightarrow> nat \<Rightarrow> send_result) \<Rightarrow>
     Exchange \<Rightarrow> (Exchange \<times> (nat \<times> u8 list) list) res" where
  "server_turn srt ready connections incoming os incoming2 os2 x =
     (let s = (order_server x)\<lparr>fifo_sequencer := (fifo_sequencer (order_server x))
                \<lparr>sq_incoming_requests := client_requests x\<rparr>, os_client_responses := client_responses x\<rparr>
      in bindR (order_server_round srt ready connections incoming os incoming2 os2 (tcp_server x) s)
           (\<lambda>(sv, s', out). Inr (x\<lparr>tcp_server := sv, order_server := s',
              client_requests := sq_incoming_requests (fifo_sequencer s'),
              client_responses := os_client_responses s'\<rparr>, out)))"

definition engine_turn :: "nat \<Rightarrow> Exchange \<Rightarrow> Exchange res" where
  "engine_turn n x =
     bindR (engine_run n ((matching_engine x)\<lparr>incoming_requests := client_requests x,
        engine_io := \<lparr>outgoing_responses = client_responses x, outgoing_market_updates = market_updates x\<rparr>\<rparr>))
       (\<lambda>e. Inr (x\<lparr>matching_engine := e, client_requests := incoming_requests e,
          client_responses := outgoing_responses (engine_io e),
          market_updates := outgoing_market_updates (engine_io e)\<rparr>))"

definition publisher_turn :: "u8 list \<Rightarrow> bool \<Rightarrow> Exchange \<Rightarrow> (Exchange \<times> u8 list list) res" where
  "publisher_turn incoming send_ok x =
     bindR (publisher_round incoming send_ok ((market_data_publisher x)\<lparr>outgoing_md_updates := market_updates x\<rparr>))
       (\<lambda>(p, sent). Inr (x\<lparr>market_data_publisher := p, market_updates := outgoing_md_updates p\<rparr>, sent))"

text \<open>A turn of each, when one socket has bytes to read and the kernel takes what is sent.\<close>

definition exchange_cycle ::
    "sorter \<Rightarrow> nat \<Rightarrow> Nanos \<Rightarrow> u8 list \<Rightarrow> nat \<Rightarrow> Exchange \<Rightarrow> (Exchange \<times> u8 list list) res" where
  "exchange_cycle srt k t bytes n x =
     bindR (server_turn srt [] [] ((\<lambda>_. None)(k := Some (t, bytes))) (\<lambda>_ _. Sent TCPBufferSize)
         (\<lambda>_. None) (\<lambda>_ _. Sent TCPBufferSize) x) (\<lambda>(x1, out).
     bindR (engine_turn n x1) (\<lambda>x2. publisher_turn [] True x2))"

section \<open>The order server's turn\<close>

lemma tcp_poll_idle: "disconnected_sockets sv = [] \<Longrightarrow> tcp_poll [] [] sv = Inr sv"
  by (simp add: tcp_poll_def)

lemma tcp_send_loop_empty [simp]: "tcp_send_loop os disc [] = Inr (disc, [])"
  by (simp add: tcp_send_loop_def tcp_send_end)

lemma os_send_responses_none:
  "lfq_inv (os_client_responses s) \<Longrightarrow> lfq_list (os_client_responses s) = [] \<Longrightarrow>
   os_send_responses (s, heap) = Inr (s\<lparr>os_client_responses := lfq_emptied (os_client_responses s)\<rparr>, heap)"
  by (simp add: os_send_responses_def lfq_drain_eq)

text \<open>The server has one connection, \<open>k\<close>, with empty buffers.\<close>

definition one_connection :: "nat \<Rightarrow> TCPServer \<Rightarrow> bool" where
  "one_connection k sv \<longleftrightarrow> recv_sockets sv = [k] \<and> send_sockets sv = [] \<and> disconnected_sockets sv = [] \<and>
     rcv_data (sv_heap sv k) = [] \<and> send_data (sv_heap sv k) = []"

definition published :: "sorter \<Rightarrow> Nanos \<Rightarrow> MEClientRequest list \<Rightarrow> MEClientRequest list" where
  "published srt t rs = map recv_request (srt (map (RecvTimeClientRequest t) rs))"

lemma published_facts:
  assumes "std_sort srt"
  shows "mset (published srt t rs) = mset rs" and "length (published srt t rs) = length rs"
proof -
  show "mset (published srt t rs) = mset rs"
    by (simp add: published_def std_sort.sort_mset [OF assms] multiset.map_comp comp_def)
  then show "length (published srt t rs) = length rs" by (metis size_mset)
qed

lemma length_request_stream:
  "length (concat (map encode_OMClientRequest (numbered n rs))) = length rs * sizeof_OMClientRequest"
  by (induction rs arbitrary: n) (simp_all add: om_request.length_encode)

text \<open>Reading the bytes of one client's requests on that connection.\<close>

lemma connection_reads:
  assumes "one_connection k sv" and "from_client c rs" and "rs \<noteq> []" and "clientId_socket s c \<in> {None, Some k}"
    and "pending_client_requests (fifo_sequencer s) = []" and "length rs \<le> ME_MAX_PENDING_REQUESTS"
    and "bytes = concat (map encode_OMClientRequest (numbered (clientId_outgoing_seqNum s c) rs))"
  shows "\<exists>out. sv_sendAndRecv ((\<lambda>_. None)(k := Some (t, bytes))) os incoming2 os2 recvCallback
      (recvFinishedCallback srt) sv s = Inr (sv, recvFinishedCallback srt (taken k t c rs s), out, True)"
proof -
  let ?sock = "sv_heap sv k"
  have len: "length bytes = length rs * sizeof_OMClientRequest"
    unfolding assms(7) by (simp add: length_request_stream)
  have size: "length bytes \<le> TCPBufferSize" "bytes \<noteq> []"
    using len assms(3,6) by (auto simp: sizeof_defs TCPBufferSize_def ME_MAX_PENDING_REQUESTS_def)
  have empty: "?sock\<lparr>rcv_data := []\<rparr> = ?sock" "?sock\<lparr>send_data := []\<rparr> = ?sock" "rcv_data ?sock = []" "send_data ?sock = []"
    using assms(1) by (simp_all add: one_connection_def)
  have "recvCallback k t (?sock\<lparr>rcv_data := bytes\<rparr>) s = Inr (?sock\<lparr>rcv_data := []\<rparr>, taken k t c rs s)"
    using recvCallback_stream [OF assms(2-4), of "?sock\<lparr>rcv_data := bytes\<rparr>" t] assms(5-7) by simp
  then have read: "tcp_sendAndRecv (Some (t, bytes)) (os k) (recvCallback k) ?sock s =
      Inr (?sock, taken k t c rs s, [], True)"
    using size empty by (simp add: tcp_sendAndRecv_def TCPBufferSize_def)
  have "sv\<lparr>sv_heap := (sv_heap sv)(k := ?sock)\<rparr> = sv" by simp
  then show ?thesis
    using assms(1) read by (simp add: sv_sendAndRecv_def sv_sendAndRecv_one_def one_connection_def)
qed

lemma server_turn_takes:
  assumes "std_sort srt" and "one_connection k (tcp_server x)" and "from_client c rs" and "rs \<noteq> []"
    and "clientId_socket (order_server x) c \<in> {None, Some k}"
    and "pending_client_requests (fifo_sequencer (order_server x)) = []" and "length rs \<le> ME_MAX_PENDING_REQUESTS"
    and "lfq_inv (client_requests x)" and "lfq_list (client_requests x) = []" and "length rs < ring_size (client_requests x)"
    and "lfq_inv (client_responses x)" and "lfq_list (client_responses x) = []"
    and "bytes = concat (map encode_OMClientRequest (numbered (clientId_outgoing_seqNum (order_server x) c) rs))"
  shows "\<exists>x1 out. server_turn srt [] [] ((\<lambda>_. None)(k := Some (t, bytes))) os incoming2 os2 x = Inr (x1, out) \<and>
    matching_engine x1 = matching_engine x \<and> market_data_publisher x1 = market_data_publisher x \<and>
    market_updates x1 = market_updates x \<and> lfq_inv (client_requests x1) \<and>
    lfq_list (client_requests x1) = published srt t rs \<and>
    client_responses x1 = lfq_emptied (client_responses x)"
proof -
  let ?s = "(order_server x)\<lparr>fifo_sequencer := (fifo_sequencer (order_server x))
      \<lparr>sq_incoming_requests := client_requests x\<rparr>, os_client_responses := client_responses x\<rparr>"
  let ?s2 = "recvFinishedCallback srt (taken k t c rs ?s)"
  have "\<exists>out. sv_sendAndRecv ((\<lambda>_. None)(k := Some (t, bytes))) os incoming2 os2 recvCallback
      (recvFinishedCallback srt) (tcp_server x) ?s = Inr (tcp_server x, ?s2, out, True)"
    by (rule connection_reads [OF assms(2-4)]) (use assms(5-7,13) in simp_all)
  then obtain out where read: "sv_sendAndRecv ((\<lambda>_. None)(k := Some (t, bytes))) os incoming2 os2 recvCallback
      (recvFinishedCallback srt) (tcp_server x) ?s = Inr (tcp_server x, ?s2, out, True)" by blast
  have poll: "tcp_poll [] [] (tcp_server x) = Inr (tcp_server x)"
    using assms(2) by (simp add: tcp_poll_idle one_connection_def)
  have resp: "os_client_responses ?s2 = client_responses x" by (simp add: recvFinishedCallback_def taken_def)
  let ?q = "lfq_push_all (client_requests x) (published srt t rs)"
  have q: "sq_incoming_requests (fifo_sequencer ?s2) = ?q"
    using assms(4,6) by (simp add: recvFinishedCallback_def taken_def sequenceAndPublish_def published_def)
  have "store_count (client_requests x) = 0" using assms(9) length_lfq_list [of "client_requests x"] by simp
  then have "lfq_list ?q = published srt t rs \<and> lfq_inv ?q"
    using lfq_push_all_list [OF assms(8), of "published srt t rs"] assms(9,10) published_facts(2) [OF assms(1)] by simp
  then show ?thesis
    using q by (simp add: server_turn_def order_server_round_def poll read os_send_responses_none resp assms(11,12))
qed

section \<open>The engine's and the publisher's turn\<close>

lemma spec_process_lengths:
  "spec_process r B = Inr (B', ps, us) \<Longrightarrow> length ps \<le> 1 \<and> length us \<le> 1"
  by (auto simp: spec_process_def spec_add_def spec_cancel_def Let_def bindR_eq_Inr
      split: if_splits option.splits ClientRequestType.splits)

lemma spec_requests_lengths:
  "spec_requests rs B = Inr (B', ps, us) \<Longrightarrow> length ps \<le> length rs \<and> length us \<le> length rs"
proof (induction rs arbitrary: B B' ps us)
  case (Cons r rs)
  from Cons.prems obtain B1 ps1 us1 ps2 us2 where one: "spec_process r B = Inr (B1, ps1, us1)"
    and rest: "spec_requests rs B1 = Inr (B', ps2, us2)" and out: "ps = ps1 @ ps2" "us = us1 @ us2"
    by (auto simp: bindR_eq_Inr)
  show ?case using spec_process_lengths [OF one] Cons.IH [OF rest] out by simp
qed simp

lemma engine_turn_spec:
  assumes "engine_inv (matching_engine x)" and "lfq_inv (client_requests x)"
    and "lfq_list (client_requests x) = rs" and "length rs \<le> n"
  shows "case spec_requests rs (abs_engine (matching_engine x)) of
      Inl f \<Rightarrow> engine_turn n x = Inl f
    | Inr (B, ps, us) \<Rightarrow> \<exists>x'. engine_turn n x = Inr x' \<and> abs_engine (matching_engine x') = B \<and>
        client_responses x' = lfq_push_all (client_responses x) ps \<and>
        market_updates x' = lfq_push_all (market_updates x) us \<and> lfq_list (client_requests x') = [] \<and>
        market_data_publisher x' = market_data_publisher x"
proof -
  let ?e = "(matching_engine x)\<lparr>incoming_requests := client_requests x,
    engine_io := \<lparr>outgoing_responses = client_responses x, outgoing_market_updates = market_updates x\<rparr>\<rparr>"
  have e: "engine_inv ?e" "abs_engine ?e = abs_engine (matching_engine x)"
    using assms(1) by (simp_all add: engine_inv_def abs_engine_def)
  have "store_count (client_requests x) \<le> n" using assms(3,4) length_lfq_list [of "client_requests x"] by simp
  then show ?thesis
    using engine_run_spec [OF e(1), of n] assms(2,3)
    by (cases "spec_requests rs (abs_engine (matching_engine x))")
      (auto simp: engine_turn_def e(2) io_after_def)
qed

lemma publisher_turn_spec:
  assumes "lfq_inv (market_updates x)" and "lfq_list (market_updates x) = us"
    and "outbound_data (incremental_socket (market_data_publisher x)) = []"
    and "sizeof_MDPMarketUpdate * length us < MulticastBufferSize"
  shows "\<exists>x'. publisher_turn [] True x = Inr (x', if us = [] then []
      else [update_stream (numbered_updates (next_inc_seq_num (market_data_publisher x)) us)]) \<and>
    matching_engine x' = matching_engine x \<and> client_responses x' = client_responses x \<and>
    client_requests x' = client_requests x \<and> lfq_list (market_updates x') = []"
proof -
  let ?p = "(market_data_publisher x)\<lparr>outgoing_md_updates := market_updates x\<rparr>"
  show ?thesis
  proof (cases "us = []")
    case True
    then show ?thesis
      using assms by (simp add: publisher_turn_def publisher_round_def lfq_drain_eq mc_sendAndRecv_quiet)
  next
    case False
    then show ?thesis
      using publisher_round_quiet [of ?p us] assms by (auto simp: publisher_turn_def)
  qed
qed

text \<open>
  C6. The exchange works from end to end on the client's side and the market's: when the requests of
  one client arrive in one read, numbered as the server expects, and the exchange is idle, one
  turn of each thread has exactly the abstract engine's effect on them, in the order the
  sequencer's sort gives them: its books, its responses in the response queue, and one datagram
  with its updates under the publisher's next numbers. When the abstract engine fails, so does
  the exchange, in the same way.
\<close>

theorem exchange_cycle_refines:
  assumes srt: "std_sort srt" and conn: "one_connection k (tcp_server x)"
    and client: "from_client c rs" "rs \<noteq> []" "clientId_socket (order_server x) c \<in> {None, Some k}"
      "bytes = concat (map encode_OMClientRequest (numbered (clientId_outgoing_seqNum (order_server x) c) rs))"
    and room: "pending_client_requests (fifo_sequencer (order_server x)) = []" "length rs \<le> ME_MAX_PENDING_REQUESTS"
      "length rs < ring_size (client_requests x)" "length rs < ring_size (client_responses x)"
      "length rs < ring_size (market_updates x)" "length rs \<le> n"
    and queues: "lfq_inv (client_requests x)" "lfq_list (client_requests x) = []"
      "lfq_inv (client_responses x)" "lfq_list (client_responses x) = []"
      "lfq_inv (market_updates x)" "lfq_list (market_updates x) = []"
    and rest: "engine_inv (matching_engine x)" "outbound_data (incremental_socket (market_data_publisher x)) = []"
  shows "mset (published srt t rs) = mset rs \<and>
    (case spec_requests (published srt t rs) (abs_engine (matching_engine x)) of
       Inl f \<Rightarrow> exchange_cycle srt k t bytes n x = Inl f
     | Inr (B, ps, us) \<Rightarrow> \<exists>x'. exchange_cycle srt k t bytes n x = Inr (x', if us = [] then []
           else [update_stream (numbered_updates (next_inc_seq_num (market_data_publisher x)) us)]) \<and>
         abs_engine (matching_engine x') = B \<and> lfq_list (client_responses x') = ps \<and>
         lfq_list (client_requests x') = [] \<and> lfq_list (market_updates x') = [])"
proof -
  let ?rs = "published srt t rs"
  obtain x1 out where turn: "server_turn srt [] [] ((\<lambda>_. None)(k := Some (t, bytes))) (\<lambda>_ _. Sent TCPBufferSize)
      (\<lambda>_. None) (\<lambda>_ _. Sent TCPBufferSize) x = Inr (x1, out)"
    and x1: "matching_engine x1 = matching_engine x" "market_data_publisher x1 = market_data_publisher x"
      "market_updates x1 = market_updates x" "lfq_inv (client_requests x1)" "lfq_list (client_requests x1) = ?rs"
      "client_responses x1 = lfq_emptied (client_responses x)"
    using server_turn_takes [OF srt conn client(1-3) room(1,2) queues(1,2) room(3) queues(3,4) client(4)] by blast
  have eng: "engine_inv (matching_engine x1)" and len: "length ?rs \<le> n"
    using rest(1) x1(1) room(6) published_facts(2) [OF srt] by simp_all
  note engine = engine_turn_spec [OF eng x1(4,5) len]
  show ?thesis
  proof (cases "spec_requests ?rs (abs_engine (matching_engine x))")
    case (Inl f)
    then show ?thesis
      using engine published_facts(1) [OF srt] by (simp add: exchange_cycle_def turn x1(1))
  next
    case (Inr r)
    obtain B ps us where r: "r = (B, ps, us)" by (cases r)
    then obtain x2 where e: "engine_turn n x1 = Inr x2" and x2: "abs_engine (matching_engine x2) = B"
      "client_responses x2 = lfq_push_all (lfq_emptied (client_responses x)) ps"
      "market_updates x2 = lfq_push_all (market_updates x) us" "lfq_list (client_requests x2) = []"
      "market_data_publisher x2 = market_data_publisher x"
      using engine Inr x1 by auto
    have l: "length ps \<le> length rs" "length us \<le> length rs"
      using spec_requests_lengths [OF Inr [unfolded r]] published_facts(2) [OF srt] by simp_all
    have "store_count (market_updates x) = 0" using queues(6) length_lfq_list [of "market_updates x"] by simp
    then have us: "lfq_inv (market_updates x2)" "lfq_list (market_updates x2) = us"
      using lfq_push_all_list [OF queues(5), of us] queues(6) room(5) l(2) by (simp_all add: x2(3))
    have size: "sizeof_MDPMarketUpdate * length us < MulticastBufferSize"
      using l(2) room(2) by (simp add: sizeof_defs MulticastBufferSize_def ME_MAX_PENDING_REQUESTS_def)
    have quiet: "outbound_data (incremental_socket (market_data_publisher x2)) = []"
      using rest(2) x2(5) by simp
    have pub: "\<exists>x'. publisher_turn [] True x2 = Inr (x', if us = [] then []
        else [update_stream (numbered_updates (next_inc_seq_num (market_data_publisher x)) us)]) \<and>
      matching_engine x' = matching_engine x2 \<and> client_responses x' = client_responses x2 \<and>
      client_requests x' = client_requests x2 \<and> lfq_list (market_updates x') = []"
      using publisher_turn_spec [OF us quiet size] unfolding x2(5) .
    have "store_count (lfq_emptied (client_responses x)) = 0" by (simp add: lfq_emptied_def)
    then have "lfq_list (client_responses x2) = ps"
      using lfq_push_all_list [of "lfq_emptied (client_responses x)" ps] queues(3) room(4) l(1)
      by (simp add: x2(2))
    then show ?thesis
      using pub published_facts(1) [OF srt] Inr x2 by (auto simp: r exchange_cycle_def turn e)
  qed
qed

theorem exchange_cycle_refines_witness:
  "\<exists>x x'. exchange_main 3 = Inr x \<and>
    exchange_cycle (sort_key recv_time) 1 7 (encode_OMClientRequest \<lparr>omrq_seq_num = 1,
        omrq_request = \<lparr>rq_requestType = Request_NEW, rq_clientId = 4, rq_tickerId = 0, rq_orderId = 9,
          rq_price = 100, rq_qty = 5, rq_side = BUY\<rparr>\<rparr>) 1
      (x\<lparr>tcp_server := (tcp_server x)\<lparr>recv_sockets := [1]\<rparr>\<rparr>) =
      Inr (x', [encode_MDPMarketUpdate \<lparr>mdp_seq_num = 1, mdp_update = add_update 1 0 BUY 100 5 1\<rparr>]) \<and>
    lfq_list (client_responses x') = [accepted_response 4 9 0 BUY 100 5 1]"
proof -
  let ?r = "\<lparr>rq_requestType = Request_NEW, rq_clientId = 4, rq_tickerId = 0, rq_orderId = 9,
    rq_price = 100, rq_qty = 5, rq_side = BUY\<rparr>"
  obtain x0 where start: "exchange_main 3 = Inr x0"
    by (simp add: exchange_main_def MarketDataPublisher_ctor_def mc_init_def Let_def)
  let ?x = "x0\<lparr>tcp_server := (tcp_server x0)\<lparr>recv_sockets := [1]\<rparr>\<rparr>"
  have x0: "tcp_server x0 = TCPServer_ctor" "client_requests x0 = LFQueue_ctor ME_MAX_CLIENT_UPDATES MEClientRequest_default"
    "client_responses x0 = LFQueue_ctor ME_MAX_CLIENT_UPDATES MEClientResponse_default"
    "market_updates x0 = LFQueue_ctor ME_MAX_MARKET_UPDATES MEMarketUpdate_default"
    "order_server x0 = OrderServer_ctor (client_requests x0) (client_responses x0)"
    "\<exists>io. matching_engine x0 = MatchingEngine_ctor (client_requests x0) io"
    "outbound_data (incremental_socket (market_data_publisher x0)) = []" "next_inc_seq_num (market_data_publisher x0) = 1"
    using start by (auto simp: exchange_main_def MarketDataPublisher_ctor_def mc_init_def MulticastSocket_ctor_def Let_def)
  have conn: "one_connection 1 (tcp_server ?x)"
    by (simp add: x0(1) one_connection_def TCPServer_ctor_def TCPSocket_ctor_def)
  have client: "from_client 4 [?r]" by (simp add: from_client_def limit_defs request_canonical_def)
  have spec: "\<exists>B. spec_requests [?r] (abs_engine (matching_engine x0)) =
      Inr (B, [accepted_response 4 9 0 BUY 100 5 1], [add_update 1 0 BUY 100 5 1])"
    using x0(6) by (auto simp: abs_engine_ctor spec_defs limit_defs priceToIndex_def)
  have pub: "published (sort_key recv_time) 7 [?r] = [?r]" by (simp add: published_def)
  have "mset (published (sort_key recv_time) 7 [?r]) = mset [?r] \<and>
    (case spec_requests (published (sort_key recv_time) 7 [?r]) (abs_engine (matching_engine ?x)) of
       Inl f \<Rightarrow> exchange_cycle (sort_key recv_time) 1 7 (concat (map encode_OMClientRequest (numbered 1 [?r]))) 1 ?x = Inl f
     | Inr (B, ps, us) \<Rightarrow> \<exists>x'. exchange_cycle (sort_key recv_time) 1 7 (concat (map encode_OMClientRequest (numbered 1 [?r]))) 1 ?x =
         Inr (x', if us = [] then []
           else [update_stream (numbered_updates (next_inc_seq_num (market_data_publisher ?x)) us)]) \<and>
         abs_engine (matching_engine x') = B \<and> lfq_list (client_responses x') = ps \<and>
         lfq_list (client_requests x') = [] \<and> lfq_list (market_updates x') = [])"
    by (rule exchange_cycle_refines [OF stable.std_sort_axioms conn client])
      (use x0 in \<open>auto simp: OrderServer_ctor_def FIFOSequencer_ctor_def limit_defs ME_MAX_PENDING_REQUESTS_def\<close>)
  then show ?thesis using start spec by (auto simp: pub x0(8))
qed

end
