(* ===== verification/SnapshotSynthesizer.thy ===== *)
theory SnapshotSynthesizer
  imports MulticastSocket LFQueue MemPool
begin

text \<open>
  exchange/market_data/snapshot_synthesizer.h and snapshot_synthesizer.cpp: the live orders of
  every instrument, rebuilt from the numbered update stream, and the snapshot that is multicast
  from them. An order is a pointer into the pool, kept in a table by ticker and order number.
\<close>

record SnapshotSynthesizer =
  snapshot_marker_updates :: "MDPMarketUpdate LFQueue"
  ss_is_running :: bool
  snapshot_socket :: MulticastSocket
  orders_per_ticker :: "nat \<Rightarrow> nat \<Rightarrow> ptr"
  last_inc_seq_num :: u64
  last_snapshot_time :: int
  ss_order_pool :: "MEMarketUpdate MemPool"

text \<open>The table has no initializer: it starts with what the memory holds.\<close>

definition SnapshotSynthesizer_ctor ::
    "(nat \<Rightarrow> nat \<Rightarrow> ptr) \<Rightarrow> MDPMarketUpdate LFQueue \<Rightarrow> int \<Rightarrow> SnapshotSynthesizer res" where
  "SnapshotSynthesizer_ctor memory updates new_fd =
     (let (sock, fd) = mc_init new_fd MulticastSocket_ctor in
      ASSERT (0 \<le> fd) ''Unable to create snapshot mcast socket.''
        (Inr \<lparr>snapshot_marker_updates = updates, ss_is_running = False, snapshot_socket = sock,
              orders_per_ticker = memory, last_inc_seq_num = 0, last_snapshot_time = 0,
              ss_order_pool = MemPool_ctor ME_MAX_ORDER_IDS MEMarketUpdate_default\<rparr>))"

text \<open>\<open>orders_per_ticker_.at(ticker).at(id)\<close>, reading and writing.\<close>

definition ss_find :: "SnapshotSynthesizer \<Rightarrow> MEMarketUpdate \<Rightarrow> ptr res" where
  "ss_find s u =
     bindR (arr_at ME_MAX_TICKERS (orders_per_ticker s) (unat (mu_tickerId u))) (\<lambda>orders.
       arr_at ME_MAX_ORDER_IDS orders (unat (mu_orderId u)))"

definition ss_set :: "SnapshotSynthesizer \<Rightarrow> MEMarketUpdate \<Rightarrow> ptr \<Rightarrow> SnapshotSynthesizer" where
  "ss_set s u p = s\<lparr>orders_per_ticker := (orders_per_ticker s)(unat (mu_tickerId u) :=
     (orders_per_ticker s (unat (mu_tickerId u)))(unat (mu_orderId u) := p))\<rparr>"

definition ss_order :: "SnapshotSynthesizer \<Rightarrow> nat \<Rightarrow> MEMarketUpdate" where
  "ss_order s p = pool_get (ss_order_pool s) p"

text \<open>The three checks that open the cases of \<open>MODIFY\<close> and \<open>CANCEL\<close>.\<close>

definition ss_known ::
    "SnapshotSynthesizer \<Rightarrow> MEMarketUpdate \<Rightarrow> ptr \<Rightarrow> (nat \<Rightarrow> SnapshotSynthesizer res) \<Rightarrow> SnapshotSynthesizer res" where
  "ss_known s u order k =
     ASSERT (order \<noteq> None) (''Recieved: + '' @ MEMarketUpdate_toString u @ '' but order does not exist.'')
       (bindR (deref order) (\<lambda>p.
        ASSERT (mu_orderId (ss_order s p) = mu_orderId u)
            ''Market update order_id does not match exisitng one''
          (ASSERT (mu_side (ss_order s p) = mu_side u)
              ''Market update side does not match order side'' (k p))))"

definition addToSnapshot :: "MDPMarketUpdate \<Rightarrow> SnapshotSynthesizer \<Rightarrow> SnapshotSynthesizer res" where
  "addToSnapshot market_update s =
     (let u = mdp_update market_update in
      bindR (arr_at ME_MAX_TICKERS (orders_per_ticker s) (unat (mu_tickerId u))) (\<lambda>_.
      bindR (case mu_type u of
          ADD \<Rightarrow>
            bindR (ss_find s u) (\<lambda>order.
            ASSERT (order = None) (''Recieved: + '' @ MEMarketUpdate_toString u @
                '' but order already exists:'' @
                (case order of None \<Rightarrow> '''' | Some p \<Rightarrow> MEMarketUpdate_toString (ss_order s p)))
              (bindR (allocate (ss_order_pool s) u) (\<lambda>(pool, p).
                Inr (ss_set (s\<lparr>ss_order_pool := pool\<rparr>) u (Some p)))))
        | MODIFY \<Rightarrow>
            bindR (ss_find s u) (\<lambda>order. ss_known s u order (\<lambda>p.
              Inr (s\<lparr>ss_order_pool := pool_put (ss_order_pool s) p
                ((ss_order s p)\<lparr>mu_qty := mu_qty u, mu_price := mu_price u\<rparr>)\<rparr>)))
        | CANCEL \<Rightarrow>
            bindR (ss_find s u) (\<lambda>order. ss_known s u order (\<lambda>p.
              bindR (deallocate (ss_order_pool s) p) (\<lambda>pool.
                Inr (ss_set (s\<lparr>ss_order_pool := pool\<rparr>) u None))))
        | _ \<Rightarrow> Inr s) (\<lambda>s'.
      ASSERT (mdp_seq_num market_update = last_inc_seq_num s' + 1)
        ''Expected incremental seq number to increase.''
        (Inr (s'\<lparr>last_inc_seq_num := mdp_seq_num market_update\<rparr>)))))"

section \<open>Publishing\<close>

text \<open>
  The state of \<open>publishSnapshot\<close>: the running number, the socket, the datagrams sent so far and
  the number of calls of \<open>sendAndRecv\<close>. The kernel is the function \<open>net\<close>: the bytes that arrive
  and whether the datagram leaves, for each of these calls.
\<close>

type_synonym snap_net = "nat \<Rightarrow> u8 list \<times> bool"

type_synonym snap_out = "u64 \<times> MulticastSocket \<times> u8 list list \<times> nat"

definition snap_send :: "MEMarketUpdate \<Rightarrow> snap_out \<Rightarrow> snap_out res" where
  "snap_send u = (\<lambda>(snapshot_size, sock, out, calls).
     bindR (mc_send (encode_MDPMarketUpdate \<lparr>mdp_seq_num = snapshot_size, mdp_update = u\<rparr>) sock)
       (\<lambda>sock'. Inr (snapshot_size + 1, sock', out, calls)))"

definition snap_flush :: "snap_net \<Rightarrow> snap_out \<Rightarrow> snap_out res" where
  "snap_flush net = (\<lambda>(snapshot_size, sock, out, calls).
     bindR (mc_sendAndRecv (fst (net calls)) (snd (net calls)) (None :: unit mc_callback) sock ())
       (\<lambda>(sock', _, sent, _). Inr (snapshot_size, sock', out @ sent, Suc calls)))"

definition snap_send_order :: "snap_net \<Rightarrow> SnapshotSynthesizer \<Rightarrow> nat \<Rightarrow> nat \<Rightarrow> snap_out \<Rightarrow> snap_out res" where
  "snap_send_order net s tickerId i st =
     (case orders_per_ticker s tickerId i of
        None \<Rightarrow> Inr st
      | Some p \<Rightarrow> bindR (snap_send (ss_order s p) st) (snap_flush net))"

definition clear_update :: "nat \<Rightarrow> MEMarketUpdate" where
  "clear_update tickerId = MEMarketUpdate_default\<lparr>mu_type := CLEAR, mu_tickerId := of_nat tickerId\<rparr>"

definition marker_update :: "MarketUpdateType \<Rightarrow> u64 \<Rightarrow> MEMarketUpdate" where
  "marker_update ty seq = MEMarketUpdate_default\<lparr>mu_type := ty, mu_orderId := seq\<rparr>"

definition snap_send_ticker :: "snap_net \<Rightarrow> SnapshotSynthesizer \<Rightarrow> nat \<Rightarrow> snap_out \<Rightarrow> snap_out res" where
  "snap_send_ticker net s tickerId st =
     bindR (snap_send (clear_update tickerId) st)
       (foldR (snap_send_order net s tickerId) [0..<ME_MAX_ORDER_IDS])"

definition publishSnapshot :: "snap_net \<Rightarrow> SnapshotSynthesizer \<Rightarrow> (SnapshotSynthesizer \<times> u8 list list) res" where
  "publishSnapshot net s =
     bindR (snap_send (marker_update SNAPSHOT_START (last_inc_seq_num s)) (0, snapshot_socket s, [], 0)) (\<lambda>st.
     bindR (foldR (snap_send_ticker net s) [0..<ME_MAX_TICKERS] st) (\<lambda>st1.
     bindR (snap_send (marker_update SNAPSHOT_END (last_inc_seq_num s)) st1) (\<lambda>st2.
     bindR (snap_flush net st2) (\<lambda>(_, sock, out, _).
       Inr (s\<lparr>snapshot_socket := sock\<rparr>, out)))))"

text \<open>
  One round of \<open>run\<close>, with what the clock gives each time it is read. \<open>start\<close> creates the thread without setting
  \<open>is_running\<close>, so the loop condition is part of the round.
\<close>

definition synthesizer_start :: "SnapshotSynthesizer \<Rightarrow> SnapshotSynthesizer" where
  "synthesizer_start s = s"

definition synthesizer_round ::
    "snap_net \<Rightarrow> int \<Rightarrow> int \<Rightarrow> SnapshotSynthesizer \<Rightarrow> (SnapshotSynthesizer \<times> u8 list list) res" where
  "synthesizer_round net now now' s =
     (if ss_is_running s then
        bindR (lfq_drain addToSnapshot (snapshot_marker_updates s) s) (\<lambda>(q, s1).
          let s2 = s1\<lparr>snapshot_marker_updates := q\<rparr> in
          if 60 * NANOS_TO_SECS < now - last_snapshot_time s2
          then publishSnapshot net (s2\<lparr>last_snapshot_time := now'\<rparr>) else Inr (s2, []))
      else Inr (s, []))"

section \<open>The table as a map\<close>

text \<open>The live orders, by ticker and order number, and what one update does to them.\<close>

type_synonym live_orders = "nat \<Rightarrow> nat \<Rightarrow> MEMarketUpdate option"

definition snap_abs :: "SnapshotSynthesizer \<Rightarrow> live_orders" where
  "snap_abs s = (\<lambda>t i. map_option (ss_order s) (orders_per_ticker s t i))"

definition spec_put :: "MEMarketUpdate \<Rightarrow> MEMarketUpdate option \<Rightarrow> live_orders \<Rightarrow> live_orders" where
  "spec_put u x T = T(unat (mu_tickerId u) := (T (unat (mu_tickerId u)))(unat (mu_orderId u) := x))"

definition spec_apply :: "MEMarketUpdate \<Rightarrow> live_orders \<Rightarrow> live_orders" where
  "spec_apply u T = (case mu_type u of
      ADD \<Rightarrow> spec_put u (Some u) T
    | MODIFY \<Rightarrow> spec_put u (map_option (\<lambda>x. x\<lparr>mu_qty := mu_qty u, mu_price := mu_price u\<rparr>)
        (T (unat (mu_tickerId u)) (unat (mu_orderId u)))) T
    | CANCEL \<Rightarrow> spec_put u None T
    | _ \<Rightarrow> T)"

definition snap_inv :: "SnapshotSynthesizer \<Rightarrow> bool" where
  "snap_inv s \<longleftrightarrow> pool_inv (ss_order_pool s) \<and> pool_size (ss_order_pool s) = ME_MAX_ORDER_IDS \<and>
     (\<forall>t i p. orders_per_ticker s t i = Some p \<longrightarrow> pool_live (ss_order_pool s) p \<and>
       unat (mu_tickerId (ss_order s p)) = t \<and> unat (mu_orderId (ss_order s p)) = i)"

text \<open>When an update can be processed at all.\<close>

definition snap_accepts :: "SnapshotSynthesizer \<Rightarrow> MDPMarketUpdate \<Rightarrow> bool" where
  "snap_accepts s m \<longleftrightarrow> (let u = mdp_update m; t = unat (mu_tickerId u); i = unat (mu_orderId u) in
     t < ME_MAX_TICKERS \<and> mdp_seq_num m = last_inc_seq_num s + 1 \<and>
     (mu_type u = ADD \<longrightarrow> i < ME_MAX_ORDER_IDS \<and> snap_abs s t i = None \<and>
        Suc (next_free_index (ss_order_pool s)) < ME_MAX_ORDER_IDS) \<and>
     (mu_type u = MODIFY \<or> mu_type u = CANCEL \<longrightarrow> i < ME_MAX_ORDER_IDS \<and>
        (\<exists>x. snap_abs s t i = Some x \<and> mu_side x = mu_side u)))"

lemma ss_order_upd [simp]:
  "ss_order (ss_set s u p) = ss_order s" "ss_order (s\<lparr>last_inc_seq_num := n\<rparr>) = ss_order s"
  "ss_order (s\<lparr>ss_order_pool := pl\<rparr>) q = pool_get pl q"
  by (simp_all add: ss_order_def ss_set_def fun_eq_iff)

lemma ss_set_fields [simp]:
  "ss_order_pool (ss_set s u p) = ss_order_pool s" "last_inc_seq_num (ss_set s u p) = last_inc_seq_num s"
  "orders_per_ticker (ss_set s u p) = (orders_per_ticker s)(unat (mu_tickerId u) :=
     (orders_per_ticker s (unat (mu_tickerId u)))(unat (mu_orderId u) := p))"
  by (simp_all add: ss_set_def)

lemma ss_find_eq:
  "unat (mu_tickerId u) < ME_MAX_TICKERS \<Longrightarrow> ss_find s u =
    (if unat (mu_orderId u) < ME_MAX_ORDER_IDS
     then Inr (orders_per_ticker s (unat (mu_tickerId u)) (unat (mu_orderId u))) else Inl Out_of_range)"
  by (simp add: ss_find_def)

lemma snap_inv_seq [simp]: "snap_inv (s\<lparr>last_inc_seq_num := n\<rparr>) = snap_inv s"
  and snap_abs_seq [simp]: "snap_abs (s\<lparr>last_inc_seq_num := n\<rparr>) = snap_abs s"
  by (simp_all add: snap_inv_def snap_abs_def)

lemma snap_unique:
  "snap_inv s \<Longrightarrow> orders_per_ticker s t i = Some p \<Longrightarrow> orders_per_ticker s t' i' = Some p \<Longrightarrow>
   t = t' \<and> i = i'"
  unfolding snap_inv_def by metis

lemma snap_add:
  assumes inv: "snap_inv s" and room: "Suc (next_free_index (ss_order_pool s)) < ME_MAX_ORDER_IDS"
    and s'_def: "s' = ss_set (s\<lparr>ss_order_pool := pool_alloc (ss_order_pool s) u\<rparr>) u
    (Some (next_free_index (ss_order_pool s)))"
  shows "snap_inv s'" and "snap_abs s' = spec_put u (Some u) (snap_abs s)"
proof -
  let ?n = "next_free_index (ss_order_pool s)"
  have pool: "pool_inv (ss_order_pool s)" "pool_size (ss_order_pool s) = ME_MAX_ORDER_IDS"
    using inv by (simp_all add: snap_inv_def)
  have live: "pool_live (pool_alloc (ss_order_pool s) u) q = (pool_live (ss_order_pool s) q \<or> q = ?n)" for q
    by (rule pool_live_alloc) (use pool room in simp)
  have old: "q \<noteq> ?n" if "orders_per_ticker s t i = Some q" for t i q
    using that inv pool_next_not_live [OF pool(1)] by (auto simp: snap_inv_def)
  show "snap_inv s'"
    using inv pool_inv_alloc [OF pool(1), of u] pool room old
    by (auto simp: snap_inv_def s'_def live ss_order_def [symmetric])
  show "snap_abs s' = spec_put u (Some u) (snap_abs s)"
    using old by (auto simp: snap_abs_def spec_put_def s'_def fun_eq_iff ss_order_def
        intro!: map_option_cong)
qed

lemma snap_modify:
  assumes inv: "snap_inv s" and p: "orders_per_ticker s (unat (mu_tickerId u)) (unat (mu_orderId u)) = Some p"
    and s'_def: "s' = s\<lparr>ss_order_pool := pool_put (ss_order_pool s) p
    ((ss_order s p)\<lparr>mu_qty := mu_qty u, mu_price := mu_price u\<rparr>)\<rparr>"
  shows "snap_inv s'" and "snap_abs s' = spec_put u (map_option
    (\<lambda>x. x\<lparr>mu_qty := mu_qty u, mu_price := mu_price u\<rparr>)
    (snap_abs s (unat (mu_tickerId u)) (unat (mu_orderId u)))) (snap_abs s)"
proof -
  have uniq: "t = unat (mu_tickerId u) \<and> i = unat (mu_orderId u)"
    if "orders_per_ticker s t i = Some p" for t i
    using snap_unique [OF inv that p] .
  show "snap_inv s'" using inv by (auto simp: snap_inv_def s'_def ss_order_def)
  show "snap_abs s' = spec_put u (map_option (\<lambda>x. x\<lparr>mu_qty := mu_qty u, mu_price := mu_price u\<rparr>)
    (snap_abs s (unat (mu_tickerId u)) (unat (mu_orderId u)))) (snap_abs s)"
  proof (intro ext)
    fix t i
    show "snap_abs s' t i = spec_put u (map_option (\<lambda>x. x\<lparr>mu_qty := mu_qty u, mu_price := mu_price u\<rparr>)
      (snap_abs s (unat (mu_tickerId u)) (unat (mu_orderId u)))) (snap_abs s) t i"
    proof (cases "orders_per_ticker s t i = Some p")
      case True
      then show ?thesis using uniq [OF True] by (simp add: snap_abs_def spec_put_def s'_def)
    next
      case False
      then show ?thesis
        using p by (cases "orders_per_ticker s t i") (auto simp: snap_abs_def spec_put_def s'_def ss_order_def)
    qed
  qed
qed

lemma snap_cancel:
  assumes inv: "snap_inv s" and p: "orders_per_ticker s (unat (mu_tickerId u)) (unat (mu_orderId u)) = Some p"
    and s'_def: "s' = ss_set (s\<lparr>ss_order_pool := pool_free (ss_order_pool s) p\<rparr>) u None"
  shows "snap_inv s'" and "snap_abs s' = spec_put u None (snap_abs s)"
proof -
  have uniq: "t = unat (mu_tickerId u) \<and> i = unat (mu_orderId u)"
    if "orders_per_ticker s t i = Some p" for t i
    using snap_unique [OF inv that p] .
  show "snap_inv s'"
    using inv uniq pool_inv_free [of "ss_order_pool s" p] by (auto simp: snap_inv_def s'_def ss_order_def)
  show "snap_abs s' = spec_put u None (snap_abs s)"
    by (auto simp: snap_abs_def spec_put_def s'_def fun_eq_iff ss_order_def intro!: map_option_cong)
qed

text \<open>One update, type by type: what the switch does.\<close>

definition snap_result :: "SnapshotSynthesizer \<Rightarrow> MDPMarketUpdate \<Rightarrow> SnapshotSynthesizer res \<Rightarrow> bool" where
  "snap_result s m r \<longleftrightarrow> (case r of
     Inr s' \<Rightarrow> snap_accepts s m \<and> snap_inv s' \<and> snap_abs s' = spec_apply (mdp_update m) (snap_abs s) \<and>
       last_inc_seq_num s' = mdp_seq_num m
   | Inl _ \<Rightarrow> \<not> snap_accepts s m)"

lemma snap_result_seq:
  assumes "snap_inv s'" and "snap_abs s' = spec_apply (mdp_update m) (snap_abs s)"
    and "last_inc_seq_num s' = last_inc_seq_num s"
    and "mdp_seq_num m = last_inc_seq_num s + 1 \<longleftrightarrow> snap_accepts s m"
  shows "snap_result s m (ASSERT (mdp_seq_num m = last_inc_seq_num s' + 1) msg
    (Inr (s'\<lparr>last_inc_seq_num := mdp_seq_num m\<rparr>)))"
  using assms by (simp add: snap_result_def ASSERT_def)

lemma addToSnapshot_add:
  assumes inv: "snap_inv s" and t: "unat (mu_tickerId (mdp_update m)) < ME_MAX_TICKERS"
    and ty: "mu_type (mdp_update m) = ADD"
  shows "snap_result s m (addToSnapshot m s)"
proof -
  let ?u = "mdp_update m" and ?n = "next_free_index (ss_order_pool s)"
  let ?p = "orders_per_ticker s (unat (mu_tickerId ?u)) (unat (mu_orderId ?u))"
  have pool: "pool_inv (ss_order_pool s)" "pool_size (ss_order_pool s) = ME_MAX_ORDER_IDS"
    using inv by (simp_all add: snap_inv_def)
  have none: "snap_abs s (unat (mu_tickerId ?u)) (unat (mu_orderId ?u)) = None \<longleftrightarrow> ?p = None"
    by (simp add: snap_abs_def)
  show ?thesis
  proof (cases "unat (mu_orderId ?u) < ME_MAX_ORDER_IDS \<and> ?p = None \<and> Suc ?n < ME_MAX_ORDER_IDS")
    case False
    then have "\<not> snap_accepts s m" using none ty by (auto simp: snap_accepts_def Let_def)
    then show ?thesis
      using False t ty pool
      by (auto simp: snap_result_def addToSnapshot_def Let_def ss_find_eq allocate_eq ASSERT_def)
  next
    case True
    let ?s' = "ss_set (s\<lparr>ss_order_pool := pool_alloc (ss_order_pool s) ?u\<rparr>) ?u (Some ?n)"
    note add = snap_add [OF inv conjunct2 [OF conjunct2 [OF True]] refl]
    have "addToSnapshot m s = ASSERT (mdp_seq_num m = last_inc_seq_num ?s' + 1)
      ''Expected incremental seq number to increase.'' (Inr (?s'\<lparr>last_inc_seq_num := mdp_seq_num m\<rparr>))"
      using True t ty pool by (simp add: addToSnapshot_def Let_def ss_find_eq allocate_eq)
    moreover have "mdp_seq_num m = last_inc_seq_num s + 1 \<longleftrightarrow> snap_accepts s m"
      using True none t ty by (simp add: snap_accepts_def Let_def)
    ultimately show ?thesis
      using snap_result_seq [OF add(1)] add(2) ty by (simp add: spec_apply_def)
  qed
qed

lemma ss_known_eq:
  assumes inv: "snap_inv s" and "orders_per_ticker s (unat (mu_tickerId u)) (unat (mu_orderId u)) = Some p"
  shows "ss_known s u (Some p) k = ASSERT (mu_side (ss_order s p) = mu_side u)
    ''Market update side does not match order side'' (k p)"
proof -
  have "unat (mu_orderId (ss_order s p)) = unat (mu_orderId u)" using assms by (auto simp: snap_inv_def)
  then have "mu_orderId (ss_order s p) = mu_orderId u" by (simp add: word_unat_eq_iff)
  then show ?thesis by (simp add: ss_known_def)
qed

text \<open>\<open>MODIFY\<close> and \<open>CANCEL\<close>, given what they do to a known order.\<close>

lemma addToSnapshot_known:
  assumes inv: "snap_inv s" and t: "unat (mu_tickerId (mdp_update m)) < ME_MAX_TICKERS"
    and ty: "mu_type (mdp_update m) \<in> {MODIFY, CANCEL}"
    and step: "addToSnapshot m s = bindR (bindR (ss_find s (mdp_update m)) (\<lambda>order.
        ss_known s (mdp_update m) order (\<lambda>p. Inr (f p)))) (\<lambda>s'.
      ASSERT (mdp_seq_num m = last_inc_seq_num s' + 1) ''Expected incremental seq number to increase.''
        (Inr (s'\<lparr>last_inc_seq_num := mdp_seq_num m\<rparr>)))"
    and f: "\<And>p. orders_per_ticker s (unat (mu_tickerId (mdp_update m))) (unat (mu_orderId (mdp_update m))) = Some p \<Longrightarrow>
      snap_inv (f p) \<and> snap_abs (f p) = spec_apply (mdp_update m) (snap_abs s) \<and>
      last_inc_seq_num (f p) = last_inc_seq_num s"
  shows "snap_result s m (addToSnapshot m s)"
proof -
  let ?u = "mdp_update m"
  let ?p = "orders_per_ticker s (unat (mu_tickerId ?u)) (unat (mu_orderId ?u))"
  have abs: "snap_abs s (unat (mu_tickerId ?u)) (unat (mu_orderId ?u)) = map_option (ss_order s) ?p"
    by (simp add: snap_abs_def)
  show ?thesis
  proof (cases "unat (mu_orderId ?u) < ME_MAX_ORDER_IDS \<and> (\<exists>p. ?p = Some p \<and> mu_side (ss_order s p) = mu_side ?u)")
    case False
    then have "\<not> snap_accepts s m" using ty abs by (auto simp: snap_accepts_def Let_def)
    moreover have "\<exists>e. addToSnapshot m s = Inl e"
    proof (cases "unat (mu_orderId ?u) < ME_MAX_ORDER_IDS")
      case True
      then show ?thesis
        using False t by (cases ?p) (auto simp: step ss_find_eq ss_known_eq [OF inv] ss_known_def ASSERT_def)
    qed (simp add: step ss_find_eq t)
    ultimately show ?thesis by (auto simp: snap_result_def)
  next
    case True
    then obtain p where p: "?p = Some p" and side: "mu_side (ss_order s p) = mu_side ?u" by blast
    have "addToSnapshot m s = ASSERT (mdp_seq_num m = last_inc_seq_num (f p) + 1)
      ''Expected incremental seq number to increase.'' (Inr ((f p)\<lparr>last_inc_seq_num := mdp_seq_num m\<rparr>))"
      using True t p side by (simp add: step ss_find_eq ss_known_eq [OF inv])
    moreover have "mdp_seq_num m = last_inc_seq_num s + 1 \<longleftrightarrow> snap_accepts s m"
      using True abs p side t ty by (auto simp: snap_accepts_def Let_def)
    ultimately show ?thesis using snap_result_seq [of "f p" m s] f [OF p] by simp
  qed
qed

lemma addToSnapshot_modify:
  assumes inv: "snap_inv s" and t: "unat (mu_tickerId (mdp_update m)) < ME_MAX_TICKERS"
    and ty: "mu_type (mdp_update m) = MODIFY"
  shows "snap_result s m (addToSnapshot m s)"
proof -
  let ?u = "mdp_update m"
  let ?f = "\<lambda>p. s\<lparr>ss_order_pool := pool_put (ss_order_pool s) p
    ((ss_order s p)\<lparr>mu_qty := mu_qty ?u, mu_price := mu_price ?u\<rparr>)\<rparr>"
  show ?thesis
    by (rule addToSnapshot_known [OF inv t, where f = ?f])
       (use ty t snap_modify [OF inv _ refl] in \<open>auto simp: addToSnapshot_def Let_def spec_apply_def\<close>)
qed

lemma addToSnapshot_cancel:
  assumes inv: "snap_inv s" and t: "unat (mu_tickerId (mdp_update m)) < ME_MAX_TICKERS"
    and ty: "mu_type (mdp_update m) = CANCEL"
  shows "snap_result s m (addToSnapshot m s)"
proof -
  let ?u = "mdp_update m"
  let ?f = "\<lambda>p. ss_set (s\<lparr>ss_order_pool := pool_free (ss_order_pool s) p\<rparr>) ?u None"
  have free: "ss_known s ?u x (\<lambda>p. bindR (deallocate (ss_order_pool s) p) (\<lambda>pool.
      Inr (ss_set (s\<lparr>ss_order_pool := pool\<rparr>) ?u None))) = ss_known s ?u x (\<lambda>p. Inr (?f p))"
    if "ss_find s ?u = Inr x" for x
  proof (cases x)
    case (Some p)
    then have "pool_live (ss_order_pool s) p"
      using that t inv by (auto simp: ss_find_eq snap_inv_def split: if_splits)
    then show ?thesis by (simp add: ss_known_def Some deallocate_eq)
  qed (simp add: ss_known_def)
  show ?thesis
    by (rule addToSnapshot_known [OF inv t, where f = ?f])
       (use ty t snap_cancel [OF inv _ refl] free in
         \<open>auto simp: addToSnapshot_def Let_def spec_apply_def cong: bindR_cong\<close>)
qed

lemma addToSnapshot_other:
  assumes inv: "snap_inv s" and t: "unat (mu_tickerId (mdp_update m)) < ME_MAX_TICKERS"
    and ty: "mu_type (mdp_update m) \<notin> {ADD, MODIFY, CANCEL}"
  shows "snap_result s m (addToSnapshot m s)"
proof -
  have "addToSnapshot m s = ASSERT (mdp_seq_num m = last_inc_seq_num s + 1)
    ''Expected incremental seq number to increase.'' (Inr (s\<lparr>last_inc_seq_num := mdp_seq_num m\<rparr>))"
    using ty t by (cases "mu_type (mdp_update m)") (simp_all add: addToSnapshot_def Let_def)
  moreover have "snap_abs s = spec_apply (mdp_update m) (snap_abs s)"
    using ty by (cases "mu_type (mdp_update m)") (simp_all add: spec_apply_def)
  moreover have "mdp_seq_num m = last_inc_seq_num s + 1 \<longleftrightarrow> snap_accepts s m"
    using ty t by (auto simp: snap_accepts_def Let_def)
  ultimately show ?thesis using snap_result_seq [OF inv, of m s] by simp
qed

text \<open>
  C27. The snapshot synthesizer keeps the live orders: from any state of its invariant it processes
  an update exactly when the ticker exists, the sequence number follows the last one, an added
  order is new and finds a block, and a modified or cancelled one is known with the same side; the
  table then is the old one with that order put in, given its new price and quantity, or taken
  out. In every other case it stops the process.
\<close>

theorem addToSnapshot_refines:
  assumes inv: "snap_inv s"
  shows "case addToSnapshot m s of
      Inr s' \<Rightarrow> snap_accepts s m \<and> snap_inv s' \<and>
        snap_abs s' = spec_apply (mdp_update m) (snap_abs s) \<and> last_inc_seq_num s' = mdp_seq_num m
    | Inl _ \<Rightarrow> \<not> snap_accepts s m"
proof -
  have "snap_result s m (addToSnapshot m s)"
  proof (cases "unat (mu_tickerId (mdp_update m)) < ME_MAX_TICKERS")
    case False
    then show ?thesis by (simp add: snap_result_def addToSnapshot_def Let_def snap_accepts_def)
  next
    case True
    then show ?thesis
      using addToSnapshot_add addToSnapshot_modify addToSnapshot_cancel addToSnapshot_other inv by blast
  qed
  then show ?thesis by (auto simp: snap_result_def split: sum.splits)
qed

text \<open>A fresh synthesizer in zero filled memory.\<close>

definition snap_zeroed :: SnapshotSynthesizer where
  "snap_zeroed = \<lparr>snapshot_marker_updates = LFQueue_ctor ME_MAX_MARKET_UPDATES
       \<lparr>mdp_seq_num = 0, mdp_update = MEMarketUpdate_default\<rparr>, ss_is_running = False,
     snapshot_socket = MulticastSocket_ctor\<lparr>socket_fd := 3\<rparr>,
     orders_per_ticker = (\<lambda>_ _. None), last_inc_seq_num = 0, last_snapshot_time = 0,
     ss_order_pool = MemPool_ctor ME_MAX_ORDER_IDS MEMarketUpdate_default\<rparr>"

lemma snap_zeroed_ctor: "SnapshotSynthesizer_ctor (\<lambda>_ _. None)
    (LFQueue_ctor ME_MAX_MARKET_UPDATES \<lparr>mdp_seq_num = 0, mdp_update = MEMarketUpdate_default\<rparr>) 3 = Inr snap_zeroed"
  by (simp add: SnapshotSynthesizer_ctor_def snap_zeroed_def mc_init_def Let_def)

lemma snap_zeroed_facts:
  "snap_inv snap_zeroed" "snap_abs snap_zeroed = (\<lambda>_ _. None)" "last_inc_seq_num snap_zeroed = 0"
  "next_free_index (ss_order_pool snap_zeroed) = 0"
  by (simp_all add: snap_inv_def snap_zeroed_def snap_abs_def)

definition demo_add :: MDPMarketUpdate where
  "demo_add = \<lparr>mdp_seq_num = 1, mdp_update = \<lparr>mu_type = ADD, mu_orderId = 9, mu_tickerId = 3,
     mu_side = BUY, mu_price = 100, mu_qty = 10, mu_priority = 1\<rparr>\<rparr>"

theorem addToSnapshot_refines_witness:
  "\<exists>s'. addToSnapshot demo_add snap_zeroed = Inr s' \<and> snap_abs s' 3 9 = Some (mdp_update demo_add)"
  using addToSnapshot_refines [OF snap_zeroed_facts(1), of demo_add]
  by (auto simp: demo_add_def snap_accepts_def snap_zeroed_facts limit_defs spec_apply_def spec_put_def
      split: sum.splits)

section \<open>The snapshot\<close>

definition snapshot_orders :: "SnapshotSynthesizer \<Rightarrow> nat \<Rightarrow> nat list \<Rightarrow> MEMarketUpdate list" where
  "snapshot_orders s t is = List.map_filter (snap_abs s t) is"

definition snapshot_messages :: "SnapshotSynthesizer \<Rightarrow> MEMarketUpdate list" where
  "snapshot_messages s = [marker_update SNAPSHOT_START (last_inc_seq_num s)] @
     concat (map (\<lambda>t. clear_update t # snapshot_orders s t [0..<ME_MAX_ORDER_IDS]) [0..<ME_MAX_TICKERS]) @
     [marker_update SNAPSHOT_END (last_inc_seq_num s)]"

text \<open>
  What holds between two calls of \<open>publishSnapshot\<close>'s body: the messages so far are numbered from
  zero, sent or still in the buffer, which holds at most \<open>k\<close> of them.
\<close>

definition snap_out_ok :: "MEMarketUpdate list \<Rightarrow> nat \<Rightarrow> snap_out \<Rightarrow> bool" where
  "snap_out_ok us k = (\<lambda>(n, sock, out, calls). n = of_nat (length us) \<and>
     concat out @ outbound_data sock = update_stream (numbered_updates 0 us) \<and>
     length (outbound_data sock) \<le> sizeof_MDPMarketUpdate * k)"

lemma snap_send_ok:
  assumes "snap_out_ok us k st" and "k < 100"
  shows "\<exists>st'. snap_send u st = Inr st' \<and> snap_out_ok (us @ [u]) (Suc k) st'"
proof -
  obtain n sock out calls where st: "st = (n, sock, out, calls)" by (cases st)
  have "length (outbound_data sock) \<le> 42 * k" using assms(1) by (simp add: st snap_out_ok_def sizeof_defs)
  then have "length (outbound_data sock) + sizeof_MDPMarketUpdate < MulticastBufferSize"
    using assms(2) by (simp add: sizeof_defs MulticastBufferSize_def)
  then show ?thesis
    using assms(1)
    by (auto simp: st snap_send_def mc_send_ok mdp_codec.length_encode snap_out_ok_def numbered_updates_append
        simp flip: append_assoc)
qed

definition quiet_net :: "snap_net \<Rightarrow> bool" where
  "quiet_net net \<longleftrightarrow> net = (\<lambda>_. ([], True))"

lemma snap_flush_ok:
  "snap_out_ok us k st \<Longrightarrow> quiet_net net \<Longrightarrow> \<exists>st'. snap_flush net st = Inr st' \<and> snap_out_ok us 0 st' \<and>
   outbound_data (fst (snd st')) = []"
  by (cases st) (auto simp: snap_flush_def quiet_net_def mc_sendAndRecv_quiet snap_out_ok_def)

lemma snap_out_ok_mono: "snap_out_ok us j st \<Longrightarrow> j \<le> k \<Longrightarrow> snap_out_ok us k st"
  by (auto simp: snap_out_ok_def intro: order_trans)

lemma snap_send_orders_ok:
  assumes "snap_out_ok us k st" and "k < 100" and net: "quiet_net net"
  shows "\<exists>st'. foldR (snap_send_order net s t) is st = Inr st' \<and> snap_out_ok (us @ snapshot_orders s t is) k st'"
  using assms(1)
proof (induction "is" arbitrary: us st)
  case Nil
  then show ?case by (simp add: snapshot_orders_def List.map_filter_def)
next
  case (Cons i ns)
  show ?case
  proof (cases "orders_per_ticker s t i")
    case None
    then show ?thesis
      using Cons.IH [OF Cons.prems]
      by (simp add: snap_send_order_def snapshot_orders_def snap_abs_def List.map_filter_def)
  next
    case (Some p)
    obtain st1 where one: "snap_send (ss_order s p) st = Inr st1" and ok1: "snap_out_ok (us @ [ss_order s p]) (Suc k) st1"
      using snap_send_ok [OF Cons.prems assms(2)] by blast
    obtain st2 where two: "snap_flush net st1 = Inr st2" and ok2: "snap_out_ok (us @ [ss_order s p]) 0 st2"
      using snap_flush_ok [OF ok1 net] by blast
    have "snap_out_ok (us @ [ss_order s p]) k st2" by (rule snap_out_ok_mono [OF ok2]) simp
    from Cons.IH [OF this] show ?thesis
      using one two Some
      by (simp add: snap_send_order_def snapshot_orders_def snap_abs_def List.map_filter_def)
  qed
qed

lemma snap_send_tickers_ok:
  assumes "snap_out_ok us k st" and "k + length ts < 100" and net: "quiet_net net"
  shows "\<exists>st'. foldR (snap_send_ticker net s) ts st = Inr st' \<and>
    snap_out_ok (us @ concat (map (\<lambda>t. clear_update t # snapshot_orders s t [0..<ME_MAX_ORDER_IDS]) ts))
      (k + length ts) st'"
  using assms(1,2)
proof (induction ts arbitrary: us k st)
  case (Cons t ts)
  have k: "k < 100" "Suc k < 100" using Cons.prems(2) by simp_all
  obtain st1 where one: "snap_send (clear_update t) st = Inr st1" and ok1: "snap_out_ok (us @ [clear_update t]) (Suc k) st1"
    using snap_send_ok [OF Cons.prems(1) k(1)] by blast
  obtain st2 where two: "foldR (snap_send_order net s t) [0..<ME_MAX_ORDER_IDS] st1 = Inr st2"
    and ok2: "snap_out_ok ((us @ [clear_update t]) @ snapshot_orders s t [0..<ME_MAX_ORDER_IDS]) (Suc k) st2"
    using snap_send_orders_ok [OF ok1 k(2) net] by blast
  have "Suc k + length ts < 100" using Cons.prems(2) by simp
  from Cons.IH [OF ok2 this] show ?case using one two by (simp add: snap_send_ticker_def)
qed simp

text \<open>
  C28. A snapshot is complete and well framed: over a quiet network the datagrams of one
  \<open>publishSnapshot\<close> are the start marker with the last incremental sequence number, for every
  ticker a CLEAR and then its live orders by order number, and the end marker, numbered from zero
  without a gap, and nothing stays in the buffer.
\<close>

theorem publishSnapshot_complete:
  assumes "outbound_data (snapshot_socket s) = []" and net: "quiet_net net"
  shows "\<exists>s' out. publishSnapshot net s = Inr (s', out) \<and>
    concat out = update_stream (numbered_updates 0 (snapshot_messages s)) \<and>
    outbound_data (snapshot_socket s') = []"
proof -
  let ?start = "marker_update SNAPSHOT_START (last_inc_seq_num s)"
    and ?stop = "marker_update SNAPSHOT_END (last_inc_seq_num s)"
  have "snap_out_ok [] 0 (0, snapshot_socket s, [], 0)" using assms by (simp add: snap_out_ok_def)
  from snap_send_ok [OF this, of ?start] obtain st where
    a: "snap_send ?start (0, snapshot_socket s, [], 0) = Inr st" "snap_out_ok [?start] 1 st" by auto
  from snap_send_tickers_ok [OF a(2), of "[0..<ME_MAX_TICKERS]" net s] net obtain st1 where
    b: "foldR (snap_send_ticker net s) [0..<ME_MAX_TICKERS] st = Inr st1"
    and okb: "snap_out_ok ([?start] @ concat (map (\<lambda>t. clear_update t #
      snapshot_orders s t [0..<ME_MAX_ORDER_IDS]) [0..<ME_MAX_TICKERS])) (1 + ME_MAX_TICKERS) st1"
    by (auto simp: ME_MAX_TICKERS_def simp del: upt_Suc)
  have "1 + ME_MAX_TICKERS < 100" by (simp add: limit_defs)
  from snap_send_ok [OF okb this, of ?stop] obtain st2 where
    c: "snap_send ?stop st1 = Inr st2" "snap_out_ok (snapshot_messages s) (Suc (1 + ME_MAX_TICKERS)) st2"
    unfolding snapshot_messages_def append_assoc by blast
  from snap_flush_ok [OF c(2) net] obtain n sock out calls where
    d: "snap_flush net st2 = Inr (n, sock, out, calls)"
      "snap_out_ok (snapshot_messages s) 0 (n, sock, out, calls)"
      "outbound_data sock = []"
    by (metis prod.collapse fst_conv snd_conv)
  have "publishSnapshot net s = Inr (s\<lparr>snapshot_socket := sock\<rparr>, out)"
    by (simp add: publishSnapshot_def a(1) b c(1) d(1))
  then show ?thesis using d(2,3) by (simp add: snap_out_ok_def)
qed

theorem publishSnapshot_complete_witness:
  "\<exists>s' out. publishSnapshot (\<lambda>_. ([], True)) snap_zeroed = Inr (s', out) \<and>
    concat out = update_stream (numbered_updates 0 (snapshot_messages snap_zeroed))"
  using publishSnapshot_complete [of snap_zeroed "\<lambda>_. ([], True)"]
  by (auto simp: quiet_net_def snap_zeroed_def MulticastSocket_ctor_def)

text \<open>
  The synthesizer never runs: its constructor clears the flag its loop tests and \<open>start\<close> does
  not set it, so the thread of a started synthesizer leaves its loop at once, whatever time it is,
  and publishes nothing.
\<close>

theorem synthesizer_never_publishes:
  assumes "SnapshotSynthesizer_ctor memory updates new_fd = Inr s"
  shows "synthesizer_round net now now' (synthesizer_start s) = Inr (s, [])"
  using assms
  by (auto simp: SnapshotSynthesizer_ctor_def mc_init_def Let_def ASSERT_eq_Inr synthesizer_start_def
      synthesizer_round_def)

theorem synthesizer_never_publishes_witness:
  "synthesizer_round (\<lambda>_. ([], True)) (61 * NANOS_TO_SECS) (61 * NANOS_TO_SECS) (synthesizer_start snap_zeroed) = Inr (snap_zeroed, [])"
  by (rule synthesizer_never_publishes [OF snap_zeroed_ctor])

end
