(* ===== verification/OrderGateway.thy ===== *)
theory OrderGateway
  imports OrderServer
begin

text \<open>
  trading_system/order_gw/order_gateway.h and order_gateway.cpp: the client's end of the
  connection to the exchange. It sends the trading engine's requests with a running number and is
  meant to pass the exchange's responses on. The socket is kept beside the gateway's record.
\<close>

record OrderGateway =
  gw_client_id :: ClientId
  gw_port :: int
  gw_outgoing_requests :: "MEClientRequest LFQueue"
  gw_incoming_responses :: "MEClientResponse LFQueue"
  next_outgoing_seq_num :: u64
  next_exp_response_seq_num :: u64

text \<open>
  The constructor initializes the port with itself, so the argument is lost and the member keeps
  what the memory held, \<open>mem_port\<close>.
\<close>

definition OrderGateway_ctor ::
    "int \<Rightarrow> ClientId \<Rightarrow> MEClientRequest LFQueue \<Rightarrow> MEClientResponse LFQueue \<Rightarrow> int \<Rightarrow> OrderGateway" where
  "OrderGateway_ctor mem_port client_id outgoing_requests incoming_responses port =
     \<lparr>gw_client_id = client_id, gw_port = mem_port, gw_outgoing_requests = outgoing_requests,
      gw_incoming_responses = incoming_responses, next_outgoing_seq_num = 1,
      next_exp_response_seq_num = 1\<rparr>"

text \<open>
  \<open>start\<close>: \<open>open_port\<close> is what creating a socket for a port of the configured address returns.
\<close>

definition gateway_start :: "(int \<Rightarrow> int) \<Rightarrow> OrderGateway \<Rightarrow> TCPSocket \<Rightarrow> TCPSocket res" where
  "gateway_start open_port g sock =
     (let (sock', new_fd) = tcp_connect (open_port (gw_port g)) sock in
      ASSERT (0 \<le> new_fd) ''Unable to connect to ip: '' (Inr sock'))"

section \<open>Receiving\<close>

text \<open>What the body of the loop of \<open>recvCallback\<close> does with the response it has read.\<close>

definition gw_response :: "OMClientResponse \<Rightarrow> OrderGateway \<Rightarrow> OrderGateway" where
  "gw_response response g =
     (if rs_clientId (omrs_response response) \<noteq> gw_client_id g then g
      else if omrs_seq_num response \<noteq> next_exp_response_seq_num g then g
      else g\<lparr>next_exp_response_seq_num := next_exp_response_seq_num g + 1,
             gw_incoming_responses := lfq_push (gw_incoming_responses g) (omrs_response response)\<rparr>)"

text \<open>
  The loop. Its third expression is \<open>i + sizeof(OMClientResponse)\<close>, whose value is dropped, so
  the offset \<open>i\<close> is the same in every round.
\<close>

definition gw_recv_step ::
    "TCPSocket \<Rightarrow> nat \<times> OrderGateway \<Rightarrow> (nat \<times> OrderGateway, TCPSocket \<times> OrderGateway) flow" where
  "gw_recv_step sock = (\<lambda>(i, g).
     if i + sizeof_OMClientResponse \<le> length (rcv_data sock)
     then Continue (i, gw_response (decode_OMClientResponse (drop i (rcv_data sock))) g)
     else Return (Inr (sock\<lparr>rcv_data := drop i (rcv_data sock)\<rparr>, g)))"

definition gw_recvCallback :: "OrderGateway recv_callback" where
  "gw_recvCallback rx_time sock g =
     (if sizeof_OMClientResponse \<le> length (rcv_data sock)
      then loopR (gw_recv_step sock) (0, g) else Inr (sock, g))"

section \<open>Sending\<close>

definition gw_send_request ::
    "MEClientRequest \<Rightarrow> TCPSocket \<times> OrderGateway \<Rightarrow> (TCPSocket \<times> OrderGateway) res" where
  "gw_send_request request = (\<lambda>(sock, g).
     bindR (tcp_send (put64 (next_outgoing_seq_num g)) sock) (\<lambda>sock1.
     bindR (tcp_send (encode_request request) sock1) (\<lambda>sock2.
       Inr (sock2, g\<lparr>next_outgoing_seq_num := next_outgoing_seq_num g + 1\<rparr>))))"

definition gw_send_requests :: "TCPSocket \<times> OrderGateway \<Rightarrow> (TCPSocket \<times> OrderGateway) res" where
  "gw_send_requests = (\<lambda>(sock, g).
     bindR (lfq_drain_unchecked gw_send_request (gw_outgoing_requests g) (sock, g)) (\<lambda>(q, sock', g').
       Inr (sock', g'\<lparr>gw_outgoing_requests := q\<rparr>)))"

text \<open>One round of \<open>run\<close>; the result also holds the bytes the kernel took.\<close>

definition gateway_round ::
    "(Nanos \<times> u8 list) option \<Rightarrow> (nat \<Rightarrow> send_result) \<Rightarrow> TCPSocket \<Rightarrow> OrderGateway \<Rightarrow>
     (TCPSocket \<times> OrderGateway \<times> u8 list) res" where
  "gateway_round incoming os sock g =
     bindR (tcp_sendAndRecv incoming os gw_recvCallback sock g) (\<lambda>(sock1, g1, sent, received).
     bindR (gw_send_requests (sock1, g1)) (\<lambda>(sock2, g2). Inr (sock2, g2, sent)))"

section \<open>Responses\<close>

lemma gw_recvCallback_cases:
  "gw_recvCallback t sock g =
    (if sizeof_OMClientResponse \<le> length (rcv_data sock) then Inl Diverges else Inr (sock, g))"
proof (cases "sizeof_OMClientResponse \<le> length (rcv_data sock)")
  case True
  have "loopR (gw_recv_step sock) (0, g) = Inl Diverges"
  proof (rule loopR_diverges [where I = "\<lambda>(i, g). i = 0"])
    fix s :: "nat \<times> OrderGateway"
    assume "case s of (i, g) \<Rightarrow> i = 0"
    then show "\<exists>s'. gw_recv_step sock s = Continue s' \<and> (case s' of (i, g) \<Rightarrow> i = 0)"
      using True by (auto simp: gw_recv_step_def)
  qed simp
  then show ?thesis using True by (simp add: gw_recvCallback_def)
qed (simp add: gw_recvCallback_def)

text \<open>
  The gateway's first response is its last act: a round in which the buffer holds a whole
  response, after the bytes just received, never returns, so no further response is read and no
  further request is sent, whatever the bytes are.
\<close>

theorem gateway_hangs_on_response:
  assumes "bytes \<noteq> []" and "length (rcv_data sock) + length bytes \<le> TCPBufferSize"
    and "sizeof_OMClientResponse \<le> length (rcv_data sock) + length bytes"
  shows "gateway_round (Some (t, bytes)) os sock g = Inl Diverges"
proof -
  have "length (rcv_data sock) < TCPBufferSize" using assms(1,2) by (cases bytes) auto
  then show ?thesis
    using assms by (simp add: gateway_round_def tcp_sendAndRecv_def gw_recvCallback_cases)
qed

definition demo_gateway :: OrderGateway where
  "demo_gateway = OrderGateway_ctor 0 4 (LFQueue_ctor 8 MEClientRequest_default)
     (LFQueue_ctor 8 MEClientResponse_default) 12345"

theorem gateway_hangs_on_response_witness:
  "gateway_round (Some (7, encode_OMClientResponse \<lparr>omrs_seq_num = 1,
       omrs_response = MEClientResponse_default\<lparr>rs_clientId := 4\<rparr>\<rparr>))
     (\<lambda>_. Sent 0) TCPSocket_ctor demo_gateway = Inl Diverges"
proof (rule gateway_hangs_on_response)
  let ?m = "encode_OMClientResponse \<lparr>omrs_seq_num = 1,
       omrs_response = MEClientResponse_default\<lparr>rs_clientId := 4\<rparr>\<rparr>"
  have l: "length ?m = 50" by (simp add: om_response.length_encode sizeof_defs)
  then show "?m \<noteq> []" by auto
  show "length (rcv_data TCPSocket_ctor) + length ?m \<le> TCPBufferSize"
    unfolding l by (simp add: TCPSocket_ctor_def TCPBufferSize_def)
  show "sizeof_OMClientResponse \<le> length (rcv_data TCPSocket_ctor) + length ?m"
    unfolding l by (simp add: sizeof_defs)
qed

text \<open>
  While it spins, the gateway has handed over at most that one response: after every number of
  rounds but zero of the loop its state is the same, and the response at the front of the buffer
  has been pushed once if it carries the gateway's client and the expected number, else never.
\<close>

theorem gateway_spins_on_one_response:
  "(gw_response r ^^ Suc n) g =
    (if rs_clientId (omrs_response r) = gw_client_id g \<and> omrs_seq_num r = next_exp_response_seq_num g
     then g\<lparr>next_exp_response_seq_num := next_exp_response_seq_num g + 1,
            gw_incoming_responses := lfq_push (gw_incoming_responses g) (omrs_response r)\<rparr>
     else g)"
proof (induction n)
  case (Suc n)
  have "(gw_response r ^^ Suc (Suc n)) g = gw_response r ((gw_response r ^^ Suc n) g)" by simp
  also have "\<dots> = (gw_response r ^^ Suc n) g" unfolding Suc by (simp add: gw_response_def)
  finally show ?case using Suc by simp
qed (simp add: gw_response_def)

section \<open>Requests\<close>

lemma encode_request_nonempty [simp]: "encode_request r \<noteq> []"
  by (simp add: encode_request_def)

lemma put64_nonempty [simp]: "put64 n \<noteq> []"
  by (simp flip: length_greater_0_conv)

lemma gw_send_request_ok:
  assumes "length (send_data sock) + sizeof_OMClientRequest \<le> TCPBufferSize"
  shows "gw_send_request r (sock, g) = Inr (sock\<lparr>send_data := send_data sock @
      encode_OMClientRequest \<lparr>omrq_seq_num = next_outgoing_seq_num g, omrq_request = r\<rparr>\<rparr>,
    g\<lparr>next_outgoing_seq_num := next_outgoing_seq_num g + 1\<rparr>)"
  using assms by (simp add: gw_send_request_def tcp_send_ok sizeof_defs encode_OMClientRequest_def)

lemma gw_send_list:
  assumes "length (send_data sock) + length rs * sizeof_OMClientRequest \<le> TCPBufferSize"
  shows "foldR gw_send_request rs (sock, g) = Inr (sock\<lparr>send_data := send_data sock @
      concat (map encode_OMClientRequest (numbered (next_outgoing_seq_num g) rs))\<rparr>,
    g\<lparr>next_outgoing_seq_num := next_outgoing_seq_num g + of_nat (length rs)\<rparr>)"
  using assms
proof (induction rs arbitrary: sock g)
  case (Cons r rs)
  have "length (send_data sock) + sizeof_OMClientRequest \<le> TCPBufferSize" using Cons.prems by simp
  note step = gw_send_request_ok [OF this, of r g]
  show ?case
    using Cons.prems by (simp add: step Cons.IH om_request.length_encode algebra_simps)
qed simp

lemma gw_send_requests_eq:
  assumes "lfq_inv (gw_outgoing_requests g)"
    and "length (send_data sock) +
      length (lfq_list (gw_outgoing_requests g)) * sizeof_OMClientRequest \<le> TCPBufferSize"
  shows "gw_send_requests (sock, g) = Inr (sock\<lparr>send_data := send_data sock @ concat (map
      encode_OMClientRequest (numbered (next_outgoing_seq_num g) (lfq_list (gw_outgoing_requests g))))\<rparr>,
    g\<lparr>next_outgoing_seq_num := next_outgoing_seq_num g + of_nat (length (lfq_list (gw_outgoing_requests g))),
      gw_outgoing_requests := lfq_emptied (gw_outgoing_requests g)\<rparr>)"
  using assms
  by (simp add: gw_send_requests_def lfq_drain_unchecked_eq lfq_drain_eq gw_send_list del: length_lfq_list)

text \<open>
  The gateway frames and numbers its requests: as long as the send buffer has room, it takes all
  requests of its queue in order and appends exactly the encoded messages with the numbers that
  follow the last one used, although it sends number and request separately.
\<close>

theorem gateway_numbers_requests:
  assumes "lfq_inv (gw_outgoing_requests g)"
    and "length (send_data sock) +
      length (lfq_list (gw_outgoing_requests g)) * sizeof_OMClientRequest \<le> TCPBufferSize"
  shows "gw_send_requests (sock, g) = Inr (sock\<lparr>send_data := send_data sock @ concat (map
      encode_OMClientRequest (numbered (next_outgoing_seq_num g) (lfq_list (gw_outgoing_requests g))))\<rparr>,
    g\<lparr>next_outgoing_seq_num := next_outgoing_seq_num g + of_nat (length (lfq_list (gw_outgoing_requests g))),
      gw_outgoing_requests := lfq_emptied (gw_outgoing_requests g)\<rparr>)"
  using assms by (rule gw_send_requests_eq)

theorem gateway_numbers_requests_witness:
  "\<exists>sock g. gw_send_requests (TCPSocket_ctor, demo_gateway\<lparr>gw_outgoing_requests :=
      lfq_push (gw_outgoing_requests demo_gateway) MEClientRequest_default\<rparr>) = Inr (sock, g) \<and>
    send_data sock = encode_OMClientRequest \<lparr>omrq_seq_num = 1, omrq_request = MEClientRequest_default\<rparr> \<and>
    next_outgoing_seq_num g = 2"
proof -
  let ?q = "LFQueue_ctor 8 MEClientRequest_default"
  let ?g = "demo_gateway\<lparr>gw_outgoing_requests := lfq_push (gw_outgoing_requests demo_gateway) MEClientRequest_default\<rparr>"
  have q: "gw_outgoing_requests ?g = lfq_push ?q MEClientRequest_default" "next_outgoing_seq_num ?g = 1"
    by (simp_all add: demo_gateway_def OrderGateway_ctor_def)
  have inv: "lfq_inv (lfq_push ?q MEClientRequest_default)"
    and list: "lfq_list (lfq_push ?q MEClientRequest_default) = [MEClientRequest_default]"
    using lfq_push_list [of ?q MEClientRequest_default] by simp_all
  have "length (send_data TCPSocket_ctor) + 1 * sizeof_OMClientRequest \<le> TCPBufferSize"
    by (simp add: TCPSocket_ctor_def TCPBufferSize_def sizeof_defs)
  then show ?thesis
    using gateway_numbers_requests [of ?g TCPSocket_ctor] unfolding q list
    by (simp add: inv list TCPSocket_ctor_def)
qed

end
