(* ===== verification/OrderedMap.thy ===== *)
theory OrderedMap
  imports Prelude
begin

text \<open>
  \<open>std::map\<close> with a 64 bit key, as the market data consumer uses it: a list of entries in
  ascending key order, and the contract a client relies on.
\<close>

type_synonym 'v omap = "(u64 \<times> 'v) list"

fun om_put :: "u64 \<Rightarrow> 'v \<Rightarrow> 'v omap \<Rightarrow> 'v omap" where
  "om_put k v [] = [(k, v)]"
| "om_put k v ((k', v') # xs) =
     (if k < k' then (k, v) # (k', v') # xs
      else if k = k' then (k, v) # xs
      else (k', v') # om_put k v xs)"

definition om_find :: "u64 \<Rightarrow> 'v omap \<Rightarrow> 'v option" where
  "om_find k m = map_of m k"

definition om_inv :: "'v omap \<Rightarrow> bool" where
  "om_inv m \<longleftrightarrow> sorted_wrt (<) (map fst m)"

locale ordered_map =
  fixes empty :: 'm
    and put :: "u64 \<Rightarrow> 'v \<Rightarrow> 'm \<Rightarrow> 'm"
    and find :: "u64 \<Rightarrow> 'm \<Rightarrow> 'v option"
    and entries :: "'m \<Rightarrow> (u64 \<times> 'v) list"
    and inv :: "'m \<Rightarrow> bool"
  assumes inv_empty: "inv empty" and entries_empty: "entries empty = []"
    and inv_put: "inv m \<Longrightarrow> inv (put k v m)"
    and find_put: "inv m \<Longrightarrow> find j (put k v m) = (if j = k then Some v else find j m)"
    and find_entries: "inv m \<Longrightarrow> find k m = map_of (entries m) k"
    and entries_sorted: "inv m \<Longrightarrow> sorted_wrt (<) (map fst (entries m))"
begin

lemma keys_distinct: "inv m \<Longrightarrow> distinct (map fst (entries m))"
  using entries_sorted [of m] by (simp add: strict_sorted_iff)

text \<open>A map all of whose keys are one key has at most one entry.\<close>

lemma one_key:
  assumes "inv m" and "\<forall>e \<in> set (entries m). fst e = k" and "entries m \<noteq> []"
  shows "\<exists>v. entries m = [(k, v)]"
proof -
  obtain e es where m: "entries m = e # es" using assms(3) by (cases "entries m") auto
  have "es = []"
  proof (rule ccontr)
    assume "es \<noteq> []"
    then obtain e' es' where "es = e' # es'" by (cases es) auto
    then show False using keys_distinct [OF assms(1)] assms(2) m by auto
  qed
  then show ?thesis using m assms(2) by (cases e) auto
qed

lemma entries_put_empty: "entries (put k v empty) = [(k, v)]"
proof -
  let ?m = "put k v empty"
  have inv: "inv ?m" using inv_empty inv_put by blast
  have find: "find j ?m = (if j = k then Some v else None)" for j
    using find_put [OF inv_empty] find_entries [OF inv_empty] by (simp add: entries_empty)
  have keys: "fst e = k \<and> snd e = v" if "e \<in> set (entries ?m)" for e
  proof -
    have "map_of (entries ?m) (fst e) = Some (snd e)"
      by (metis keys_distinct [OF inv] map_of_is_SomeI prod.collapse that)
    then show ?thesis using find [of "fst e"] find_entries [OF inv] by (simp split: if_splits)
  qed
  have "entries ?m \<noteq> []" using find [of k] find_entries [OF inv, of k] by auto
  then obtain w where "entries ?m = [(k, w)]" using one_key [OF inv] keys by blast
  then show ?thesis using keys by auto
qed

end

lemma keys_om_put: "fst ` set (om_put k v m) = insert k (fst ` set m)"
  by (induction k v m rule: om_put.induct) (simp_all, blast)

lemma om_inv_Cons: "om_inv ((a, b) # m) \<longleftrightarrow> (\<forall>x \<in> fst ` set m. a < x) \<and> om_inv m"
  by (simp add: om_inv_def)

lemma om_inv_put: "om_inv m \<Longrightarrow> om_inv (om_put k v m)"
proof (induction k v m rule: om_put.induct)
  case (2 k v a b m)
  then have tail: "\<forall>x \<in> fst ` set m. a < x" and inv: "om_inv m" by (simp_all add: om_inv_Cons)
  consider "k < a" | "k = a" | "a < k" by (rule linorder_cases)
  then show ?case
  proof cases
    case 1
    then have "\<forall>x \<in> fst ` set m. k < x" using tail by (meson order.strict_trans)
    then show ?thesis using 1 2 by (simp add: om_inv_Cons)
  next
    case 2
    then show ?thesis using tail inv by (simp add: om_inv_Cons)
  next
    case 3
    then have "om_inv (om_put k v m)" using "2.IH" inv by auto
    moreover have "\<not> k < a" "k \<noteq> a" using 3 by auto
    ultimately show ?thesis using 3 tail by (simp add: om_inv_Cons keys_om_put)
  qed
qed (simp add: om_inv_def)

lemma om_find_put: "om_inv m \<Longrightarrow> om_find j (om_put k v m) = (if j = k then Some v else om_find j m)"
proof (induction m)
  case (Cons e m)
  then show ?case by (cases e) (auto simp: om_find_def om_inv_def)
qed (simp add: om_find_def)

interpretation om: ordered_map "[] :: 'v omap" om_put om_find "\<lambda>m. m" om_inv
proof
  fix m :: "'v omap" and k j v
  show "om_inv ([] :: 'v omap)" and "([] :: 'v omap) = []" by (simp_all add: om_inv_def)
  assume inv: "om_inv m"
  show "om_inv (om_put k v m)" by (rule om_inv_put [OF inv])
  show "om_find j (om_put k v m) = (if j = k then Some v else om_find j m)" by (rule om_find_put [OF inv])
  show "om_find k m = map_of m k" by (simp add: om_find_def)
  show "sorted_wrt (<) (map fst m)" using inv by (simp add: om_inv_def)
qed

end
