(* ===== verification/MarketDataConsumer.thy ===== *)
theory MarketDataConsumer
  imports OrderedMap MulticastSocket LFQueue
begin

text \<open>
  trading_system/market_data/market_data_consumer.h and market_data_consumer.cpp: the client's end
  of the market data channels. Updates in sequence go to the trading engine's queue; a gap starts
  a recovery, which is meant to end when a snapshot and the incremental updates after it are
  complete. The two maps are ordered maps by sequence number.
\<close>

record MarketDataConsumer =
  incoming_md_updates :: "MEMarketUpdate LFQueue"
  next_update_seq_num :: u64
  incremental_mcast_socket :: MulticastSocket
  incremental_queued :: "MEMarketUpdate omap"
  in_recovery_mode :: bool
  snapshot_mcast_socket :: MulticastSocket
  snapshot_queued :: "MEMarketUpdate omap"

text \<open>\<open>new_fd\<close> is what \<open>init\<close> returns; a joined group is a boolean, which is never negative.\<close>

definition MarketDataConsumer_ctor :: "MEMarketUpdate LFQueue \<Rightarrow> int \<Rightarrow> MarketDataConsumer res" where
  "MarketDataConsumer_ctor updates new_fd =
     (let (sock, fd) = mc_init new_fd MulticastSocket_ctor in
      ASSERT (0 \<le> fd) ''Unable to init socket for incremental market updates.''
        (Inr \<lparr>incoming_md_updates = updates, next_update_seq_num = 0,
              incremental_mcast_socket = sock, incremental_queued = [], in_recovery_mode = False,
              snapshot_mcast_socket = MulticastSocket_ctor, snapshot_queued = []\<rparr>))"

definition is_marker :: "MEMarketUpdate \<Rightarrow> bool" where
  "is_marker u \<longleftrightarrow> mu_type u = SNAPSHOT_START \<or> mu_type u = SNAPSHOT_END"

section \<open>Recovery\<close>

text \<open>
  The first loop of \<open>checkSnapshotSync\<close>: every key is compared with the same number, the consumer's
  next incremental one.
\<close>

fun scan_snapshot :: "u64 \<Rightarrow> MEMarketUpdate omap \<Rightarrow> MEMarketUpdate list \<Rightarrow> bool \<times> MEMarketUpdate list" where
  "scan_snapshot next_seq [] final_events = (True, final_events)"
| "scan_snapshot next_seq ((k, u) # rest) final_events =
     (if k \<noteq> next_seq then (False, final_events)
      else scan_snapshot next_seq rest (if is_marker u then final_events else final_events @ [u]))"

text \<open>The second loop.\<close>

fun scan_incremental :: "u64 \<Rightarrow> MEMarketUpdate omap \<Rightarrow> MEMarketUpdate list \<Rightarrow> bool \<times> MEMarketUpdate list" where
  "scan_incremental next_seq [] final_events = (True, final_events)"
| "scan_incremental next_seq ((k, u) # rest) final_events =
     (if k < next_seq then scan_incremental next_seq rest final_events
      else if k \<noteq> next_seq then (False, final_events)
      else if is_marker u then scan_incremental next_seq rest final_events
      else scan_incremental (next_seq + 1) rest (final_events @ [u]))"

definition checkSnapshotSync :: "MarketDataConsumer \<Rightarrow> MarketDataConsumer" where
  "checkSnapshotSync s =
     (case snapshot_queued s of
        [] \<Rightarrow> s
      | first # _ \<Rightarrow>
          if mu_type (snd first) \<noteq> SNAPSHOT_START then s
          else let (is_snapshot_complete, events) =
                 scan_snapshot (next_update_seq_num s) (snapshot_queued s) []
            in if \<not> is_snapshot_complete then s\<lparr>snapshot_queued := []\<rparr>
               else let last_snapshot_msg = snd (last (snapshot_queued s))
                 in if mu_type last_snapshot_msg \<noteq> SNAPSHOT_END then s
                    else let (is_incremental_complete, final_events) =
                           scan_incremental (mu_orderId last_snapshot_msg + 1) (incremental_queued s) events
                      in if \<not> is_incremental_complete then s\<lparr>snapshot_queued := []\<rparr>
                         else s\<lparr>incoming_md_updates := lfq_push_all (incoming_md_updates s) final_events,
                                snapshot_queued := [], incremental_queued := [], in_recovery_mode := False,
                                snapshot_mcast_socket := mc_leave (snapshot_mcast_socket s)\<rparr>)"

definition queueMessage :: "bool \<Rightarrow> MDPMarketUpdate \<Rightarrow> MarketDataConsumer \<Rightarrow> MarketDataConsumer" where
  "queueMessage is_snapshot request s =
     checkSnapshotSync
       (if is_snapshot then
          let s1 = (if om_find (mdp_seq_num request) (snapshot_queued s) \<noteq> None
                    then s\<lparr>snapshot_queued := []\<rparr> else s)
          in s1\<lparr>snapshot_queued := om_put (mdp_seq_num request) (mdp_update request) (snapshot_queued s1)\<rparr>
        else s\<lparr>incremental_queued := om_put (mdp_seq_num request) (mdp_update request) (incremental_queued s)\<rparr>)"

definition startSnapshotSync :: "int \<Rightarrow> MarketDataConsumer \<Rightarrow> MarketDataConsumer res" where
  "startSnapshotSync new_fd s =
     (let s1 = s\<lparr>incremental_queued := [], snapshot_queued := []\<rparr>;
          (sock, fd) = mc_init new_fd (snapshot_mcast_socket s1)
      in ASSERT (0 \<le> fd) ''Unable to init socket for snapshot mcast.''
           (Inr (s1\<lparr>snapshot_mcast_socket := sock\<rparr>)))"

section \<open>Receiving\<close>

text \<open>
  The body of the loop of \<open>recvCallback\<close> for the message it is about. A recovery that has just
  begun does not start the snapshot subscription; one that is already under way starts it again.
\<close>

definition mdc_process ::
    "int \<Rightarrow> bool \<Rightarrow> MDPMarketUpdate \<Rightarrow> MarketDataConsumer \<Rightarrow> MarketDataConsumer res" where
  "mdc_process new_fd is_snapshot request s =
     (let already_in_recovery_mode = in_recovery_mode s;
          s1 = s\<lparr>in_recovery_mode := (in_recovery_mode s \<or> mdp_seq_num request \<noteq> next_update_seq_num s)\<rparr>
      in if in_recovery_mode s1 then
           bindR (if already_in_recovery_mode then startSnapshotSync new_fd s1 else Inr s1)
             (\<lambda>s2. Inr (queueMessage is_snapshot request s2))
         else if \<not> is_snapshot then
           Inr (s1\<lparr>next_update_seq_num := next_update_seq_num s1 + 1,
                   incoming_md_updates := lfq_push (incoming_md_updates s1) (mdp_update request)\<rparr>)
         else Inr s1)"

text \<open>
  \<open>recvCallback\<close>. The address of each message is the number of valid bytes plus the offset, an
  integer cast to a pointer, so reading the first one is a wild access.
\<close>

definition load_at :: "nat \<Rightarrow> MDPMarketUpdate res" where
  "load_at address = Inl Wild_pointer"

definition mdc_recvCallback ::
    "int \<Rightarrow> MulticastSocket \<Rightarrow> MarketDataConsumer \<Rightarrow> (MulticastSocket \<times> MarketDataConsumer) res" where
  "mdc_recvCallback new_fd socket s =
     (let is_snapshot = (socket_fd socket = socket_fd (snapshot_mcast_socket s));
          valid = length (inbound_data socket);
          whole = valid div sizeof_MDPMarketUpdate
      in if is_snapshot \<and> \<not> in_recovery_mode s then Inr (socket, s)
         else if sizeof_MDPMarketUpdate \<le> valid then
           bindR (foldR (\<lambda>k s. bindR (load_at (valid + k * sizeof_MDPMarketUpdate)) (\<lambda>request.
                     mdc_process new_fd is_snapshot request s)) [0..<whole] s) (\<lambda>s'.
             Inr (socket\<lparr>inbound_data := drop (whole * sizeof_MDPMarketUpdate) (inbound_data socket)\<rparr>, s'))
         else Inr (socket, s))"

text \<open>
  One round of \<open>run\<close>: both sockets, with what the kernel has for each. The snapshot socket that is
  read can be opened anew by its own callback, which keeps its buffers.
\<close>

definition consumer_round ::
    "int \<Rightarrow> u8 list \<Rightarrow> u8 list \<Rightarrow> MarketDataConsumer \<Rightarrow> MarketDataConsumer res" where
  "consumer_round new_fd incremental snapshot s =
     bindR (mc_sendAndRecv incremental True (Some (mdc_recvCallback new_fd)) (incremental_mcast_socket s) s)
       (\<lambda>(sock, s1, _, _).
     let s2 = s1\<lparr>incremental_mcast_socket := sock\<rparr> in
     bindR (mc_sendAndRecv snapshot True (Some (mdc_recvCallback new_fd)) (snapshot_mcast_socket s2) s2)
       (\<lambda>(sock', s3, _, _).
       Inr (s3\<lparr>snapshot_mcast_socket := (snapshot_mcast_socket s3)
         \<lparr>outbound_data := outbound_data sock', inbound_data := inbound_data sock'\<rparr>\<rparr>)))"

text \<open>
  The client cannot read a single market update: whatever arrives on the incremental channel,
  the first whole message makes the receive callback dereference a number as a pointer.
\<close>

theorem consumer_reads_wild:
  assumes "sizeof_MDPMarketUpdate \<le> length (inbound_data socket)"
    and "socket_fd socket = socket_fd (snapshot_mcast_socket s) \<Longrightarrow> in_recovery_mode s"
  shows "mdc_recvCallback new_fd socket s = Inl Wild_pointer"
proof -
  obtain n where "length (inbound_data socket) div sizeof_MDPMarketUpdate = Suc n"
    using assms(1) by (cases "length (inbound_data socket) div sizeof_MDPMarketUpdate")
      (auto simp: sizeof_defs div_eq_0_iff)
  then show ?thesis
    using assms by (simp add: mdc_recvCallback_def Let_def load_at_def upt_conv_Cons del: upt_Suc)
qed

theorem consumer_reads_wild_witness:
  "\<exists>s. MarketDataConsumer_ctor (LFQueue_ctor 8 MEMarketUpdate_default) 3 = Inr s \<and>
    mdc_recvCallback 4 ((incremental_mcast_socket s)\<lparr>inbound_data := encode_MDPMarketUpdate
      \<lparr>mdp_seq_num = 0, mdp_update = MEMarketUpdate_default\<rparr>\<rparr>) s = Inl Wild_pointer"
proof -
  obtain s where s: "MarketDataConsumer_ctor (LFQueue_ctor 8 MEMarketUpdate_default) 3 = Inr s"
    and fd: "socket_fd (incremental_mcast_socket s) = 3" "socket_fd (snapshot_mcast_socket s) = - 1"
    by (simp add: MarketDataConsumer_ctor_def mc_init_def MulticastSocket_ctor_def Let_def)
  have "mdc_recvCallback 4 ((incremental_mcast_socket s)\<lparr>inbound_data := encode_MDPMarketUpdate
      \<lparr>mdp_seq_num = 0, mdp_update = MEMarketUpdate_default\<rparr>\<rparr>) s = Inl Wild_pointer"
    by (rule consumer_reads_wild) (simp_all add: mdp_codec.length_encode fd)
  with s show ?thesis by blast
qed

section \<open>In sequence\<close>

text \<open>
  Apart from that address, updates in sequence are passed on as they are: a run of incremental
  updates numbered from the expected number reaches the trading engine's queue in order, and the
  expected number moves past it, as long as the consumer is not recovering.
\<close>

theorem consumer_passes_sequence:
  assumes "\<not> in_recovery_mode s"
  shows "foldR (mdc_process new_fd False) (numbered_updates (next_update_seq_num s) us) s =
    Inr (s\<lparr>next_update_seq_num := next_update_seq_num s + of_nat (length us),
           incoming_md_updates := lfq_push_all (incoming_md_updates s) us\<rparr>)"
  using assms
proof (induction us arbitrary: s)
  case (Cons u us)
  let ?s = "s\<lparr>next_update_seq_num := next_update_seq_num s + 1,
    incoming_md_updates := lfq_push (incoming_md_updates s) u\<rparr>"
  have "s\<lparr>in_recovery_mode := False\<rparr> = s" using Cons.prems by simp
  then have "mdc_process new_fd False \<lparr>mdp_seq_num = next_update_seq_num s, mdp_update = u\<rparr> s = Inr ?s"
    using Cons.prems by (simp add: mdc_process_def Let_def)
  moreover have "\<not> in_recovery_mode ?s" using Cons.prems by simp
  ultimately show ?case using Cons.IH [of ?s] by (simp add: algebra_simps)
qed simp

theorem consumer_passes_sequence_witness:
  "\<exists>s s'. MarketDataConsumer_ctor (LFQueue_ctor 8 MEMarketUpdate_default) 3 = Inr s \<and>
    foldR (mdc_process 4 False) (numbered_updates 0 [MEMarketUpdate_default]) s = Inr s' \<and>
    next_update_seq_num s' = 1 \<and> lfq_list (incoming_md_updates s') = [MEMarketUpdate_default]"
proof -
  obtain s where s: "MarketDataConsumer_ctor (LFQueue_ctor 8 MEMarketUpdate_default) 3 = Inr s"
    and f: "\<not> in_recovery_mode s" "next_update_seq_num s = 0"
      "incoming_md_updates s = LFQueue_ctor 8 MEMarketUpdate_default"
    by (simp add: MarketDataConsumer_ctor_def mc_init_def Let_def)
  show ?thesis
    using consumer_passes_sequence [OF f(1), of 4 "[MEMarketUpdate_default]"] s
      lfq_push_list(1) [of "LFQueue_ctor 8 MEMarketUpdate_default" MEMarketUpdate_default]
    by (simp add: f)
qed

section \<open>Recovery never ends\<close>

lemma scan_snapshot_complete:
  "fst (scan_snapshot n m acc) \<Longrightarrow> \<forall>e \<in> set m. fst e = n"
  by (induction n m acc rule: scan_snapshot.induct) (auto split: if_splits)

text \<open>
  A complete scan means a single entry, which would have to be both markers at once.
\<close>

lemma checkSnapshotSync_stuck:
  assumes "om_inv (snapshot_queued s)"
  shows "checkSnapshotSync s \<in> {s, s\<lparr>snapshot_queued := []\<rparr>}"
proof (cases "snapshot_queued s")
  case Nil
  then show ?thesis by (simp add: checkSnapshotSync_def)
next
  case (Cons e es)
  show ?thesis
  proof (cases "fst (scan_snapshot (next_update_seq_num s) (snapshot_queued s) [])")
    case False
    then show ?thesis using Cons by (auto simp: checkSnapshotSync_def split: prod.splits)
  next
    case True
    obtain v where "snapshot_queued s = [(next_update_seq_num s, v)]"
      using om.one_key [OF assms scan_snapshot_complete [OF True]] Cons by auto
    then show ?thesis by (auto simp: checkSnapshotSync_def)
  qed
qed

definition stuck :: "MarketDataConsumer \<Rightarrow> MEMarketUpdate LFQueue \<Rightarrow> bool" where
  "stuck s q \<longleftrightarrow> in_recovery_mode s \<and> incoming_md_updates s = q \<and> om_inv (snapshot_queued s)"

lemma queueMessage_stuck:
  assumes "stuck s q"
  shows "stuck (queueMessage is_snapshot request s) q"
proof -
  let ?s = "if is_snapshot then
      let s1 = (if om_find (mdp_seq_num request) (snapshot_queued s) \<noteq> None
                then s\<lparr>snapshot_queued := []\<rparr> else s)
      in s1\<lparr>snapshot_queued := om_put (mdp_seq_num request) (mdp_update request) (snapshot_queued s1)\<rparr>
    else s\<lparr>incremental_queued := om_put (mdp_seq_num request) (mdp_update request) (incremental_queued s)\<rparr>"
  have inv: "om_inv (snapshot_queued ?s)"
    using assms by (simp add: stuck_def Let_def om_inv_put om_inv_Cons om.inv_empty)
  have rest: "in_recovery_mode ?s" "incoming_md_updates ?s = q"
    using assms by (simp_all add: stuck_def Let_def)
  have "queueMessage is_snapshot request s = checkSnapshotSync ?s" by (simp add: queueMessage_def)
  then show ?thesis
    using checkSnapshotSync_stuck [OF inv] rest inv om.inv_empty by (auto simp: stuck_def)
qed

lemma mdc_process_stuck:
  assumes "stuck s q" and "mdc_process new_fd is_snapshot request s = Inr s'"
  shows "stuck s' q"
proof -
  let ?s1 = "s\<lparr>in_recovery_mode := True\<rparr>"
  obtain s2 where start: "startSnapshotSync new_fd ?s1 = Inr s2" and s': "s' = queueMessage is_snapshot request s2"
    using assms by (auto simp: mdc_process_def Let_def stuck_def bindR_eq_Inr)
  have "stuck s2 q"
    using start assms(1) om.inv_empty by (auto simp: startSnapshotSync_def Let_def ASSERT_eq_Inr stuck_def mc_init_def)
  then show ?thesis by (simp add: s' queueMessage_stuck)
qed

text \<open>
  A recovery never ends and nothing gets through while it lasts: from the first message out of
  sequence on, whatever snapshot and incremental messages follow, in any number and order, the
  consumer stays in recovery and its output queue is never written again.
\<close>

theorem consumer_never_recovers:
  assumes "in_recovery_mode s" and "om_inv (snapshot_queued s)"
    and "foldR (\<lambda>(is_snapshot, request). mdc_process new_fd is_snapshot request) msgs s = Inr s'"
  shows "in_recovery_mode s' \<and> incoming_md_updates s' = incoming_md_updates s"
proof -
  have "stuck s' (incoming_md_updates s)"
    by (rule foldR_invariant [OF _ _ assms(3), of "\<lambda>s'. stuck s' (incoming_md_updates s)"])
       (use assms(1,2) in \<open>auto simp: stuck_def [of s] intro: mdc_process_stuck\<close>)
  then show ?thesis by (simp add: stuck_def)
qed

theorem consumer_never_recovers_witness:
  "\<exists>s s'. in_recovery_mode s \<and> foldR (\<lambda>(is_snapshot, request). mdc_process 4 is_snapshot request)
      [(True, \<lparr>mdp_seq_num = 0, mdp_update = MEMarketUpdate_default\<lparr>mu_type := SNAPSHOT_START\<rparr>\<rparr>)] s = Inr s' \<and>
    in_recovery_mode s' \<and> incoming_md_updates s' = incoming_md_updates s"
proof -
  let ?m = "\<lparr>mdp_seq_num = 0, mdp_update = MEMarketUpdate_default\<lparr>mu_type := SNAPSHOT_START\<rparr>\<rparr>"
  obtain s :: MarketDataConsumer where f: "in_recovery_mode s" "om_inv (snapshot_queued s)"
    using om.inv_empty [where 'v = MEMarketUpdate]
    by (metis MarketDataConsumer.select_convs(5) MarketDataConsumer.select_convs(7))
  have "\<exists>s'. mdc_process 4 True ?m s = Inr s'"
    using f by (simp add: mdc_process_def startSnapshotSync_def mc_init_def Let_def)
  then obtain s' where run: "foldR (\<lambda>(is_snapshot, request). mdc_process 4 is_snapshot request) [(True, ?m)] s = Inr s'"
    by auto
  show ?thesis using consumer_never_recovers [OF f run] f(1) run by blast
qed

end
