(* ===== verification/Lifecycle.thy ===== *)
theory Lifecycle
  imports Exchange SnapshotSynthesizer OrderGateway MarketDataConsumer
begin

text \<open>
  How the components are started and stopped: the flag each thread tests before every round of
  its loop, \<open>is_running_\<close>, and the functions that set and clear it. Whether a thread could be created
  is a parameter, as is the kernel. The flag is a value beside the component it belongs to.
\<close>

section \<open>Starting and stopping\<close>

definition engine_start :: "bool \<Rightarrow> bool \<Rightarrow> bool res" where
  "engine_start created is_running =
     (let is_running' = True in
      ASSERT created ''Failded to start MatchingEngine thread.'' (Inr is_running'))"

definition engine_stop :: "bool \<Rightarrow> bool" where
  "engine_stop is_running = False"

definition order_server_start ::
    "'a kernel \<Rightarrow> string \<Rightarrow> int \<Rightarrow> bool \<Rightarrow> TCPServer \<times> bool \<Rightarrow> ('a, (TCPServer \<times> bool) res) sys" where
  "order_server_start K iface port created = (\<lambda>(sv, is_running). do {
     let is_running' = True;
     sv' \<leftarrow> sv_listen K iface port sv;
     State_Monad.return (ASSERT created ''Failed to start OrderServer thread.'' (Inr (sv', is_running')))
   })"

definition order_server_stop :: "bool \<Rightarrow> bool" where
  "order_server_stop is_running = False"

definition synthesizer_stop :: "SnapshotSynthesizer \<Rightarrow> SnapshotSynthesizer" where
  "synthesizer_stop s = s\<lparr>ss_is_running := False\<rparr>"

text \<open>The publisher starts its own thread and then the synthesizer's.\<close>

definition publisher_start :: "bool \<Rightarrow> bool \<Rightarrow> bool \<times> SnapshotSynthesizer \<Rightarrow> (bool \<times> SnapshotSynthesizer) res" where
  "publisher_start created synthesizer_created = (\<lambda>(is_running, s).
     let is_running' = True in
     ASSERT created ''Failed to start MarketData thread.''
       (ASSERT synthesizer_created ''Failed to start SnapshotSynthesizer thread.''
         (Inr (is_running', synthesizer_start s))))"

definition publisher_stop :: "bool \<times> SnapshotSynthesizer \<Rightarrow> bool \<times> SnapshotSynthesizer" where
  "publisher_stop = (\<lambda>(is_running, s). (False, synthesizer_stop s))"

definition consumer_start :: "bool \<Rightarrow> bool \<Rightarrow> bool res" where
  "consumer_start created is_running =
     (let is_running' = True in
      ASSERT created ''Failed to start thread for MarketDataConsumer'' (Inr is_running'))"

definition consumer_stop :: "bool \<Rightarrow> bool" where
  "consumer_stop is_running = False"

definition gateway_stop :: "bool \<Rightarrow> bool" where
  "gateway_stop is_running = False"

section \<open>The exchange's threads\<close>

record exchange_threads =
  engine_on :: bool
  publisher_on :: bool
  server_on :: bool
  synthesizer :: SnapshotSynthesizer

text \<open>The three calls of \<open>start\<close> in \<open>main\<close>, on an exchange whose threads can all be created.\<close>

definition start_exchange ::
    "'a kernel \<Rightarrow> Exchange \<Rightarrow> exchange_threads \<Rightarrow> ('a, (Exchange \<times> exchange_threads) res) sys" where
  "start_exchange K x th =
     (case engine_start True (engine_on th) of
        Inl e \<Rightarrow> State_Monad.return (Inl e)
      | Inr engine \<Rightarrow>
          (case publisher_start True True (publisher_on th, synthesizer th) of
             Inl e \<Rightarrow> State_Monad.return (Inl e)
           | Inr (publisher, s) \<Rightarrow> do {
               started \<leftarrow> order_server_start K ''lo'' 12345 True (tcp_server x, server_on th);
               State_Monad.return (bindR started (\<lambda>(sv, server).
                 Inr (x\<lparr>tcp_server := sv\<rparr>,
                   \<lparr>engine_on = engine, publisher_on = publisher, server_on = server, synthesizer = s\<rparr>)))
             }))"

text \<open>
  Starting the exchange tells nothing of its state: \<open>main\<close> goes on in any case, with three threads
  that run and a synthesizer that does not, even when the server could not open its port, in which
  case it polls a descriptor that is not there.
\<close>

theorem exchange_starts_regardless:
  assumes "\<not> ss_is_running (synthesizer th)"
  shows "\<exists>x' th' made'. run_state (start_exchange K x th) made = (Inr (x', th'), made') \<and>
    engine_on th' \<and> publisher_on th' \<and> server_on th' \<and>
    synthesizer_round net now now' (synthesizer th') = Inr (synthesizer th', []) \<and>
    (getaddrinfo K (getIfaceIP K ''lo'') (int_to_string 12345) (socket_hints (getIfaceIP K ''lo'') False True) = None \<longrightarrow>
      fd (sv_heap (tcp_server x') listener_socket) = - 1)"
proof -
  obtain sv made' where listen: "run_state (sv_listen K ''lo'' 12345 (tcp_server x)) made = (sv, made')" by fastforce
  have "fd (sv_heap sv listener_socket) = - 1"
    if "getaddrinfo K (getIfaceIP K ''lo'') (int_to_string 12345) (socket_hints (getIfaceIP K ''lo'') False True) = None"
    using failed_listen_unnoticed [OF that, of "tcp_server x" made] listen by auto
  then show ?thesis
    using assms listen
    by (simp add: start_exchange_def engine_start_def publisher_start_def order_server_start_def
        synthesizer_start_def synthesizer_round_def)
qed

theorem exchange_starts_regardless_witness:
  "\<exists>x s x' th' made'. exchange_main 3 = Inr x \<and>
    SnapshotSynthesizer_ctor (\<lambda>_ _. None) (LFQueue_ctor 8 \<lparr>mdp_seq_num = 0, mdp_update = MEMarketUpdate_default\<rparr>) 4 = Inr s \<and>
    run_state (start_exchange refusing_kernel x \<lparr>engine_on = False, publisher_on = False, server_on = False,
      synthesizer = s\<rparr>) [] = (Inr (x', th'), made') \<and> server_on th' \<and>
    synthesizer_round (\<lambda>_. ([], True)) 0 0 (synthesizer th') = Inr (synthesizer th', [])"
proof -
  obtain x where x: "exchange_main 3 = Inr x"
    by (simp add: exchange_main_def MarketDataPublisher_ctor_def mc_init_def Let_def)
  obtain s where s: "SnapshotSynthesizer_ctor (\<lambda>_ _. None)
      (LFQueue_ctor 8 \<lparr>mdp_seq_num = 0, mdp_update = MEMarketUpdate_default\<rparr>) 4 = Inr s" and off: "\<not> ss_is_running s"
    by (simp add: SnapshotSynthesizer_ctor_def mc_init_def Let_def)
  let ?th = "\<lparr>engine_on = False, publisher_on = False, server_on = False, synthesizer = s\<rparr>"
  have "\<not> ss_is_running (synthesizer ?th)" using off by simp
  from exchange_starts_regardless [OF this, of refusing_kernel x "[]" "\<lambda>_. ([], True)" 0 0] show ?thesis
    using x s by blast
qed

end
