(* ===== verification/Logging.thy ===== *)
theory Logging
  imports CommonTypes LFQueue
begin

text \<open>
  common/logging.h: the asynchronous logger. A call of \<open>log\<close> takes its format string apart and
  pushes one tagged element per character and argument into a ring buffer; the logger's own thread
  prints the elements to the file. The file is the string written so far. How a stream prints
  \<open>float\<close> and \<open>double\<close> is a parameter. At the end, \<open>getCurrentTimeStr\<close> of common/time_utils.h.
\<close>

definition LOG_QUEUE_SIZE :: nat where "LOG_QUEUE_SIZE = 8 * 1024 * 1024"

datatype LogType = LOG_CHAR | INTEGER | LONG_INTEGER | LONG_LONG_INTEGER | UNSIGNED_INTEGER
  | UNSIGNED_LONG_INTEGER | UNSIGNED_LONG_LONG_INTEGER | FLOAT | DOUBLE

text \<open>The union, as the member last written with its value.\<close>

datatype ('f, 'd) log_union = U_c char | U_i u32 | U_li u64 | U_lli u64 | U_u u32 | U_ul u64 | U_ull u64
  | U_f 'f | U_d 'd

record ('f, 'd) LogElement =
  le_type :: LogType
  le_u :: "('f, 'd) log_union"

text \<open>A new element holds \<open>CHAR\<close> and zeros.\<close>

definition LogElement_default :: "('f, 'd) LogElement" where
  "LogElement_default = \<lparr>le_type = LOG_CHAR, le_u = U_c (CHR 0x00)\<rparr>"

record ('f, 'd) Logger =
  lg_file :: string
  lg_queue :: "('f, 'd) LogElement LFQueue"
  lg_running :: bool

text \<open>The constructor, with what opening the file and starting the thread returned.\<close>

definition Logger_ctor :: "bool \<Rightarrow> bool \<Rightarrow> string \<Rightarrow> ('f, 'd) Logger res" where
  "Logger_ctor file_open thread_started file_name =
     ASSERT file_open (''Could not open log file: '' @ file_name)
       (ASSERT thread_started ''Could not start logger thread.''
         (Inr \<lparr>lg_file = '''', lg_queue = LFQueue_ctor LOG_QUEUE_SIZE LogElement_default, lg_running = True\<rparr>))"

section \<open>Pushing values\<close>

definition push_element :: "('f, 'd) LogElement \<Rightarrow> ('f, 'd) Logger \<Rightarrow> ('f, 'd) Logger" where
  "push_element e lg = lg\<lparr>lg_queue := lfq_push (lg_queue lg) e\<rparr>"

definition push_char :: "char \<Rightarrow> ('f, 'd) Logger \<Rightarrow> ('f, 'd) Logger" where
  "push_char v = push_element \<lparr>le_type = LOG_CHAR, le_u = U_c v\<rparr>"

definition push_int :: "u32 \<Rightarrow> ('f, 'd) Logger \<Rightarrow> ('f, 'd) Logger" where
  "push_int v = push_element \<lparr>le_type = INTEGER, le_u = U_i v\<rparr>"

definition push_long :: "u64 \<Rightarrow> ('f, 'd) Logger \<Rightarrow> ('f, 'd) Logger" where
  "push_long v = push_element \<lparr>le_type = LONG_INTEGER, le_u = U_li v\<rparr>"

definition push_long_long :: "u64 \<Rightarrow> ('f, 'd) Logger \<Rightarrow> ('f, 'd) Logger" where
  "push_long_long v = push_element \<lparr>le_type = LONG_LONG_INTEGER, le_u = U_lli v\<rparr>"

definition push_unsigned :: "u32 \<Rightarrow> ('f, 'd) Logger \<Rightarrow> ('f, 'd) Logger" where
  "push_unsigned v = push_element \<lparr>le_type = UNSIGNED_INTEGER, le_u = U_u v\<rparr>"

definition push_unsigned_long :: "u64 \<Rightarrow> ('f, 'd) Logger \<Rightarrow> ('f, 'd) Logger" where
  "push_unsigned_long v = push_element \<lparr>le_type = UNSIGNED_LONG_INTEGER, le_u = U_ul v\<rparr>"

definition push_unsigned_long_long :: "u64 \<Rightarrow> ('f, 'd) Logger \<Rightarrow> ('f, 'd) Logger" where
  "push_unsigned_long_long v = push_element \<lparr>le_type = UNSIGNED_LONG_LONG_INTEGER, le_u = U_ull v\<rparr>"

definition push_float :: "'f \<Rightarrow> ('f, 'd) Logger \<Rightarrow> ('f, 'd) Logger" where
  "push_float v = push_element \<lparr>le_type = FLOAT, le_u = U_f v\<rparr>"

definition push_double :: "'d \<Rightarrow> ('f, 'd) Logger \<Rightarrow> ('f, 'd) Logger" where
  "push_double v = push_element \<lparr>le_type = DOUBLE, le_u = U_d v\<rparr>"

text \<open>
  A C string is its characters, and ends at the first zero among them or at the end of the list;
  a \<open>std::string\<close> can hold zeros and is pushed through \<open>c_str()\<close>.
\<close>

fun push_cstr :: "string \<Rightarrow> ('f, 'd) Logger \<Rightarrow> ('f, 'd) Logger" where
  "push_cstr [] lg = lg"
| "push_cstr (c # cs) lg = (if c \<noteq> CHR 0x00 then push_cstr cs (push_char c lg) else lg)"

definition push_string :: "string \<Rightarrow> ('f, 'd) Logger \<Rightarrow> ('f, 'd) Logger" where
  "push_string value lg = push_cstr value lg"

text \<open>The types an argument can have; the overload is chosen when the call is compiled.\<close>

datatype ('f, 'd) log_arg = Arg_char char | Arg_int u32 | Arg_long u64 | Arg_long_long u64
  | Arg_unsigned u32 | Arg_unsigned_long u64 | Arg_unsigned_long_long u64 | Arg_float 'f | Arg_double 'd
  | Arg_cstr string | Arg_string string

fun pushValue :: "('f, 'd) log_arg \<Rightarrow> ('f, 'd) Logger \<Rightarrow> ('f, 'd) Logger" where
  "pushValue (Arg_char v) = push_char v"
| "pushValue (Arg_int v) = push_int v"
| "pushValue (Arg_long v) = push_long v"
| "pushValue (Arg_long_long v) = push_long_long v"
| "pushValue (Arg_unsigned v) = push_unsigned v"
| "pushValue (Arg_unsigned_long v) = push_unsigned_long v"
| "pushValue (Arg_unsigned_long_long v) = push_unsigned_long_long v"
| "pushValue (Arg_float v) = push_float v"
| "pushValue (Arg_double v) = push_double v"
| "pushValue (Arg_cstr v) = push_cstr v"
| "pushValue (Arg_string v) = push_string v"

section \<open>Formatting\<close>

text \<open>
  A format is a string literal, without a zero among its characters.
  The two overloads of \<open>log\<close>: without arguments, and with a first argument and the rest. The
  second test of a percent sign looks at the next character, which is the final zero at the end.
\<close>

definition percent_next :: "string \<Rightarrow> bool" where
  "percent_next s \<longleftrightarrow> s \<noteq> [] \<and> hd s = CHR ''%''"

function log_plain :: "string \<Rightarrow> ('f, 'd) Logger \<Rightarrow> ('f, 'd) Logger res" where
  "log_plain [] lg = Inr lg"
| "log_plain (c # s) lg =
     (if c = CHR ''%'' then
        if percent_next s then log_plain (tl s) (push_char (hd s) lg)
        else FATAL ''missing arguments to log()''
      else log_plain s (push_char c lg))"
  by pat_completeness auto
termination
  by (relation "measure (\<lambda>(s, lg). length s)") auto

function log_args :: "string \<Rightarrow> ('f, 'd) log_arg \<Rightarrow> ('f, 'd) log_arg list \<Rightarrow> ('f, 'd) Logger \<Rightarrow> ('f, 'd) Logger res" where
  "log_args [] value args lg = FATAL ''extra arguments provided to log()''"
| "log_args (c # s) value args lg =
     (if c = CHR ''%'' then
        if percent_next s then log_args (tl s) value args (push_char (hd s) lg)
        else (case args of
            [] \<Rightarrow> log_plain s (pushValue value lg)
          | value' # args' \<Rightarrow> log_args s value' args' (pushValue value lg))
      else log_args s value args (push_char c lg))"
  by pat_completeness auto
termination
  by (relation "measure (\<lambda>(s, value, args, lg). length s)") auto

definition logger_log :: "string \<Rightarrow> ('f, 'd) log_arg list \<Rightarrow> ('f, 'd) Logger \<Rightarrow> ('f, 'd) Logger res" where
  "logger_log s args lg = (case args of [] \<Rightarrow> log_plain s lg | value # args' \<Rightarrow> log_args s value args' lg)"

section \<open>The logger's thread\<close>

text \<open>
  Printing one element: reading a member of the union that is not the one last written is
  undefined.
\<close>

definition print_element ::
    "('f \<Rightarrow> string) \<Rightarrow> ('d \<Rightarrow> string) \<Rightarrow> ('f, 'd) LogElement \<Rightarrow> string \<Rightarrow> string res" where
  "print_element show_f show_d next file =
     (case (le_type next, le_u next) of
        (LOG_CHAR, U_c v) \<Rightarrow> Inr (file @ [v])
      | (INTEGER, U_i v) \<Rightarrow> Inr (file @ int_to_string (sint v))
      | (LONG_INTEGER, U_li v) \<Rightarrow> Inr (file @ int_to_string (sint v))
      | (LONG_LONG_INTEGER, U_lli v) \<Rightarrow> Inr (file @ int_to_string (sint v))
      | (UNSIGNED_INTEGER, U_u v) \<Rightarrow> Inr (file @ to_string v)
      | (UNSIGNED_LONG_INTEGER, U_ul v) \<Rightarrow> Inr (file @ to_string v)
      | (UNSIGNED_LONG_LONG_INTEGER, U_ull v) \<Rightarrow> Inr (file @ to_string v)
      | (FLOAT, U_f v) \<Rightarrow> Inr (file @ show_f v)
      | (DOUBLE, U_d v) \<Rightarrow> Inr (file @ show_d v)
      | _ \<Rightarrow> Inl Wrong_union_member)"

text \<open>One round of \<open>flushQueue\<close>, and what it does while \<open>running_\<close> is set.\<close>

definition flush_round :: "('f \<Rightarrow> string) \<Rightarrow> ('d \<Rightarrow> string) \<Rightarrow> ('f, 'd) Logger \<Rightarrow> ('f, 'd) Logger res" where
  "flush_round show_f show_d lg =
     (if lg_running lg then
        bindR (lfq_drain (print_element show_f show_d) (lg_queue lg) (lg_file lg)) (\<lambda>(q, file).
          Inr (lg\<lparr>lg_queue := q, lg_file := file\<rparr>))
      else Inr lg)"

text \<open>
  The destructor waits until the counter is zero; while it sleeps, the logger's thread goes round
  once. Then it ends the thread and closes the file.
\<close>

definition dtor_step ::
    "('f \<Rightarrow> string) \<Rightarrow> ('d \<Rightarrow> string) \<Rightarrow> ('f, 'd) Logger \<Rightarrow> (('f, 'd) Logger, ('f, 'd) Logger) flow" where
  "dtor_step show_f show_d lg =
     (if lfq_size (lg_queue lg) \<noteq> 0 then
        (case flush_round show_f show_d lg of Inl e \<Rightarrow> Return (Inl e) | Inr lg' \<Rightarrow> Continue lg')
      else Return (Inr (lg\<lparr>lg_running := False\<rparr>)))"

definition Logger_dtor :: "('f \<Rightarrow> string) \<Rightarrow> ('d \<Rightarrow> string) \<Rightarrow> ('f, 'd) Logger \<Rightarrow> ('f, 'd) Logger res" where
  "Logger_dtor show_f show_d lg = loopR (dtor_step show_f show_d) lg"

section \<open>What is pushed\<close>

definition push_elements :: "('f, 'd) LogElement list \<Rightarrow> ('f, 'd) Logger \<Rightarrow> ('f, 'd) Logger" where
  "push_elements es lg = lg\<lparr>lg_queue := lfq_push_all (lg_queue lg) es\<rparr>"

abbreviation char_element :: "char \<Rightarrow> ('f, 'd) LogElement" where
  "char_element c \<equiv> \<lparr>le_type = LOG_CHAR, le_u = U_c c\<rparr>"

abbreviation c_str :: "string \<Rightarrow> string" where
  "c_str \<equiv> takeWhile (\<lambda>c. c \<noteq> CHR 0x00)"

fun arg_elements :: "('f, 'd) log_arg \<Rightarrow> ('f, 'd) LogElement list" where
  "arg_elements (Arg_char v) = [char_element v]"
| "arg_elements (Arg_int v) = [\<lparr>le_type = INTEGER, le_u = U_i v\<rparr>]"
| "arg_elements (Arg_long v) = [\<lparr>le_type = LONG_INTEGER, le_u = U_li v\<rparr>]"
| "arg_elements (Arg_long_long v) = [\<lparr>le_type = LONG_LONG_INTEGER, le_u = U_lli v\<rparr>]"
| "arg_elements (Arg_unsigned v) = [\<lparr>le_type = UNSIGNED_INTEGER, le_u = U_u v\<rparr>]"
| "arg_elements (Arg_unsigned_long v) = [\<lparr>le_type = UNSIGNED_LONG_INTEGER, le_u = U_ul v\<rparr>]"
| "arg_elements (Arg_unsigned_long_long v) = [\<lparr>le_type = UNSIGNED_LONG_LONG_INTEGER, le_u = U_ull v\<rparr>]"
| "arg_elements (Arg_float v) = [\<lparr>le_type = FLOAT, le_u = U_f v\<rparr>]"
| "arg_elements (Arg_double v) = [\<lparr>le_type = DOUBLE, le_u = U_d v\<rparr>]"
| "arg_elements (Arg_cstr v) = map char_element (c_str v)"
| "arg_elements (Arg_string v) = map char_element (c_str v)"

lemma push_elements_simps [simp]:
  "push_elements [] lg = lg"
  "push_elements es (push_element e lg) = push_elements (e # es) lg"
  "push_elements fs (push_elements es lg) = push_elements (es @ fs) lg"
  by (simp_all add: push_elements_def push_element_def lfq_push_all_def)

lemma push_element_eq: "push_element e = push_elements [e]"
  by (simp add: fun_eq_iff push_elements_def push_element_def lfq_push_all_def)

lemma push_cstr_eq: "push_cstr s lg = push_elements (map char_element (c_str s)) lg"
  by (induction s lg rule: push_cstr.induct) (simp_all add: push_char_def)

lemma pushValue_eq: "pushValue a = push_elements (arg_elements a)"
  by (cases a) (simp_all add: fun_eq_iff push_char_def push_int_def push_long_def push_long_long_def
      push_unsigned_def push_unsigned_long_def push_unsigned_long_long_def push_float_def
      push_double_def push_string_def push_cstr_eq push_element_eq)

text \<open>
  The reference: the text between the placeholders of a format, with doubled percent signs
  resolved, and the pieces woven with the arguments.
\<close>

function pieces :: "string \<Rightarrow> string list" where
  "pieces [] = [[]]"
| "pieces (c # s) =
     (if c = CHR ''%'' then
        if percent_next s then (CHR ''%'' # hd (pieces (tl s))) # tl (pieces (tl s))
        else [] # pieces s
      else (c # hd (pieces s)) # tl (pieces s))"
  by pat_completeness auto
termination
  by (relation "measure length") auto

fun weave :: "'a list list \<Rightarrow> 'a list list \<Rightarrow> 'a list" where
  "weave (p # ps) (a # as) = p @ a @ weave ps as"
| "weave ps [] = concat ps"
| "weave [] as = concat as"

definition placeholders :: "string \<Rightarrow> nat" where
  "placeholders s = length (pieces s) - 1"

definition log_elements :: "string \<Rightarrow> ('f, 'd) log_arg list \<Rightarrow> ('f, 'd) LogElement list" where
  "log_elements s args = weave (map (map char_element) (pieces s)) (map arg_elements args)"

lemma pieces_not_Nil [simp]: "pieces s \<noteq> []"
  by (induction s rule: pieces.induct) auto

lemma placeholders_simps:
  "placeholders [] = 0"
  "placeholders (c # s) =
     (if c = CHR ''%'' then if percent_next s then placeholders (tl s) else Suc (placeholders s)
      else placeholders s)"
proof -
  have "length (pieces t) = Suc (length (pieces t) - 1)" for t
    using pieces_not_Nil [of t] by (cases "pieces t") simp_all
  then show "placeholders (c # s) =
     (if c = CHR ''%'' then if percent_next s then placeholders (tl s) else Suc (placeholders s)
      else placeholders s)"
    by (simp add: placeholders_def)
qed (simp add: placeholders_def)

lemma weave_cons_char: "ps \<noteq> [] \<Longrightarrow> weave ((x # hd ps) # tl ps) as = x # weave ps as"
  by (cases ps; cases as) simp_all

lemma percent_next_hd: "percent_next s \<Longrightarrow> hd s = CHR ''%''"
  by (simp add: percent_next_def)

lemma weave_Nil [simp]: "weave [] as = concat as"
  by (cases as) simp_all

lemma log_elements_simps:
  "log_elements [] args = concat (map arg_elements args)"
  "c = CHR ''%'' \<Longrightarrow> percent_next s \<Longrightarrow>
     log_elements (c # s) args = char_element (CHR ''%'') # log_elements (tl s) args"
  "c = CHR ''%'' \<Longrightarrow> \<not> percent_next s \<Longrightarrow>
     log_elements (c # s) (a # args) = arg_elements a @ log_elements s args"
  "c \<noteq> CHR ''%'' \<Longrightarrow> log_elements (c # s) args = char_element c # log_elements s args"
proof -
  show "log_elements [] args = concat (map arg_elements args)"
    by (cases args) (simp_all add: log_elements_def)
qed (use weave_cons_char [of "map (map char_element) (pieces (tl s))" "char_element (CHR ''%'')" "map arg_elements args"]
    weave_cons_char [of "map (map char_element) (pieces s)" "char_element c" "map arg_elements args"]
  in \<open>auto simp: log_elements_def percent_next_def hd_map map_tl split: if_splits\<close>)

lemma log_plain_eq:
  "log_plain s lg = (if placeholders s = 0 then Inr (push_elements (log_elements s []) lg)
     else FATAL ''missing arguments to log()'')"
proof (induction s lg rule: log_plain.induct)
  case (2 c s lg)
  show ?case
  proof (cases "c = CHR ''%''")
    case True
    then show ?thesis
      using 2 by (cases "percent_next s")
        (simp_all add: placeholders_simps log_elements_simps percent_next_hd push_char_def)
  next
    case False
    then show ?thesis using 2 by (simp add: placeholders_simps log_elements_simps percent_next_hd push_char_def)
  qed
qed (simp add: placeholders_simps log_elements_simps)

lemma log_args_eq:
  "log_args s a args lg =
     (if placeholders s = Suc (length args) then Inr (push_elements (log_elements s (a # args)) lg)
      else FATAL (if placeholders s < Suc (length args) then ''extra arguments provided to log()''
        else ''missing arguments to log()''))"
proof (induction s a args lg rule: log_args.induct)
  case (2 c s a args lg)
  show ?case
  proof (cases "c = CHR ''%''")
    case True
    show ?thesis
    proof (cases "percent_next s")
      case False
      then show ?thesis
        using 2 True False
        by (cases args) (simp_all add: placeholders_simps log_elements_simps pushValue_eq log_plain_eq)
    qed (use 2 True in \<open>simp add: placeholders_simps log_elements_simps percent_next_hd push_char_def\<close>)
  next
    case False
    then show ?thesis using 2 by (simp add: placeholders_simps log_elements_simps percent_next_hd push_char_def)
  qed
qed (simp add: placeholders_simps)

lemma logger_log_eq:
  "logger_log s args lg =
     (if placeholders s = length args then Inr (push_elements (log_elements s args) lg)
      else FATAL (if placeholders s < length args then ''extra arguments provided to log()''
        else ''missing arguments to log()''))"
  by (cases args) (simp_all add: logger_log_def log_plain_eq log_args_eq)


section \<open>What is printed\<close>

fun union_type :: "('f, 'd) log_union \<Rightarrow> LogType" where
  "union_type (U_c _) = LOG_CHAR" | "union_type (U_i _) = INTEGER" | "union_type (U_li _) = LONG_INTEGER"
| "union_type (U_lli _) = LONG_LONG_INTEGER" | "union_type (U_u _) = UNSIGNED_INTEGER"
| "union_type (U_ul _) = UNSIGNED_LONG_INTEGER" | "union_type (U_ull _) = UNSIGNED_LONG_LONG_INTEGER"
| "union_type (U_f _) = FLOAT" | "union_type (U_d _) = DOUBLE"

fun union_text :: "('f \<Rightarrow> string) \<Rightarrow> ('d \<Rightarrow> string) \<Rightarrow> ('f, 'd) log_union \<Rightarrow> string" where
  "union_text show_f show_d (U_c v) = [v]"
| "union_text show_f show_d (U_i v) = int_to_string (sint v)"
| "union_text show_f show_d (U_li v) = int_to_string (sint v)"
| "union_text show_f show_d (U_lli v) = int_to_string (sint v)"
| "union_text show_f show_d (U_u v) = to_string v"
| "union_text show_f show_d (U_ul v) = to_string v"
| "union_text show_f show_d (U_ull v) = to_string v"
| "union_text show_f show_d (U_f v) = show_f v"
| "union_text show_f show_d (U_d v) = show_d v"

definition well_typed :: "('f, 'd) LogElement \<Rightarrow> bool" where
  "well_typed e \<longleftrightarrow> le_type e = union_type (le_u e)"

lemma print_well_typed:
  "well_typed e \<Longrightarrow> print_element show_f show_d e file = Inr (file @ union_text show_f show_d (le_u e))"
  by (cases "le_u e") (simp_all add: well_typed_def print_element_def)

lemma arg_elements_typed: "e \<in> set (arg_elements a) \<Longrightarrow> well_typed e"
  by (cases a) (auto simp: well_typed_def)

lemma set_weave: "set (weave ps as) \<subseteq> \<Union> (set ` set ps) \<union> \<Union> (set ` set as)"
  by (induction ps as rule: weave.induct) auto

lemma log_elements_typed: "e \<in> set (log_elements s args) \<Longrightarrow> well_typed e"
  using set_weave [of "map (map char_element) (pieces s)" "map arg_elements args"] arg_elements_typed
  by (fastforce simp: log_elements_def well_typed_def)

text \<open>Every slot of the ring is well typed: an invariant that even an overflow keeps.\<close>

definition slots_typed :: "('f, 'd) Logger \<Rightarrow> bool" where
  "slots_typed lg \<longleftrightarrow> (\<forall>i. well_typed (slots (lg_queue lg) i))"

lemma slots_push: "slots (lfq_push q x) i = (if i = next_write_index q then x else slots q i)"
  by (simp add: lfq_push_def updateNextToWriteTo_def writeNext_def Let_def)

lemma push_elements_typed:
  "\<forall>e \<in> set es. well_typed e \<Longrightarrow> slots_typed lg \<Longrightarrow> slots_typed (push_elements es lg)"
proof (induction es arbitrary: lg)
  case (Cons e es)
  have "slots_typed (push_element e lg)"
    using Cons.prems by (simp add: slots_typed_def push_element_def slots_push)
  then show ?case using Cons by (simp flip: push_elements_simps(2))
qed simp

lemma drain_typed:
  "\<forall>i. well_typed (slots q i) \<Longrightarrow> body = print_element show_f show_d \<Longrightarrow>
   \<exists>q' out'. lfq_drain body q out = Inr (q', out') \<and> slots q' = slots q"
proof (induction body q out rule: lfq_drain.induct)
  case (1 body q out)
  show ?case
  proof (cases "getNextToRead q")
    case None
    then show ?thesis by (subst lfq_drain.simps) simp
  next
    case (Some x)
    have "well_typed x" using Some 1(2) by (auto simp: getNextToRead_def split: if_splits)
    then have body: "body x out = Inr (out @ union_text show_f show_d (le_u x))"
      using 1(3) by (simp add: print_well_typed)
    show ?thesis
    proof (cases "lfq_size q = 0")
      case True
      then show ?thesis using Some by (subst lfq_drain.simps) simp
    next
      case False
      then have pop: "updateReadIndex q = Inr (lfq_pop q)" by (simp add: updateReadIndex_eq lfq_size_def)
      have same: "slots (lfq_pop q) = slots q" by (simp add: lfq_pop_def)
      show ?thesis
        using 1(1) [OF Some False body pop] 1(2,3) Some False body pop same
        by (subst lfq_drain.simps) simp
    qed
  qed
qed

lemma flush_typed:
  assumes "slots_typed lg"
  shows "\<exists>lg'. flush_round show_f show_d lg = Inr lg' \<and> slots_typed lg'"
  using drain_typed [of "lg_queue lg" "print_element show_f show_d" show_f show_d "lg_file lg"] assms
  by (auto simp: flush_round_def slots_typed_def)

text \<open>What happens to a logger: calls of \<open>log\<close>, and rounds of its thread.\<close>

datatype ('f, 'd) logger_event = Log string "('f, 'd) log_arg list" | Flush

fun logger_step ::
    "('f \<Rightarrow> string) \<Rightarrow> ('d \<Rightarrow> string) \<Rightarrow> ('f, 'd) logger_event \<Rightarrow> ('f, 'd) Logger \<Rightarrow> ('f, 'd) Logger res" where
  "logger_step show_f show_d (Log s args) lg = logger_log s args lg"
| "logger_step show_f show_d Flush lg = flush_round show_f show_d lg"

lemma logger_step_typed:
  "slots_typed lg \<Longrightarrow> logger_step show_f show_d ev lg = Inr lg' \<Longrightarrow> slots_typed lg'"
proof (cases ev)
  case (Log s args)
  assume "slots_typed lg" and "logger_step show_f show_d ev lg = Inr lg'"
  then show ?thesis
    using Log log_elements_typed by (auto simp: logger_log_eq intro!: push_elements_typed split: if_splits)
next
  case Flush
  assume "slots_typed lg" and "logger_step show_f show_d ev lg = Inr lg'"
  then show ?thesis using Flush flush_typed [of lg show_f show_d] by auto
qed

lemma logger_start_typed: "Logger_ctor True True name = Inr lg \<Longrightarrow> slots_typed lg"
  by (auto simp: Logger_ctor_def slots_typed_def LFQueue_ctor_def well_typed_def LogElement_default_def)


abbreviation no_text :: "unit \<Rightarrow> string" where
  "no_text \<equiv> \<lambda>_. ''''"


section \<open>A format and its arguments\<close>

definition element_text :: "('f \<Rightarrow> string) \<Rightarrow> ('d \<Rightarrow> string) \<Rightarrow> ('f, 'd) LogElement \<Rightarrow> string" where
  "element_text show_f show_d e = union_text show_f show_d (le_u e)"

definition arg_text :: "('f \<Rightarrow> string) \<Rightarrow> ('d \<Rightarrow> string) \<Rightarrow> ('f, 'd) log_arg \<Rightarrow> string" where
  "arg_text show_f show_d a = concat (map (element_text show_f show_d) (arg_elements a))"

lemma foldR_print:
  "\<forall>e \<in> set es. well_typed e \<Longrightarrow> foldR (print_element show_f show_d) es out =
     Inr (out @ concat (map (element_text show_f show_d) es))"
  by (induction es arbitrary: out) (simp_all add: print_well_typed element_text_def)

lemma concat_map_weave:
  "concat (map f (weave ps as)) = weave (map (\<lambda>p. concat (map f p)) ps) (map (\<lambda>a. concat (map f a)) as)"
proof -
  have "concat (map f (concat xs)) = concat (map (\<lambda>p. concat (map f p)) xs)" for xs
    by (induction xs) auto
  then show ?thesis by (induction ps as rule: weave.induct) simp_all
qed

lemma log_elements_text:
  "concat (map (element_text show_f show_d) (log_elements s args)) =
     weave (pieces s) (map (arg_text show_f show_d) args)"
proof -
  have "concat (map (element_text show_f show_d) (map char_element p)) = p" for p
    by (induction p) (simp_all add: element_text_def)
  then show ?thesis
    by (simp add: log_elements_def concat_map_weave arg_text_def [abs_def] comp_def)
qed

text \<open>
  C39. The one-pass formatter is equivalent to the two-phase reference: when the ring has room and its
  elements are well typed, a call of \<open>log\<close> followed by a round of the thread appends to the file
  what was pending and then the pieces of the format woven with the arguments' texts, if there is
  one argument for each placeholder; otherwise the call ends the process, naming the mistake.
\<close>

theorem log_is_weave:
  assumes "lg_running lg" and "lfq_inv (lg_queue lg)" and "slots_typed lg"
    and "store_count (lg_queue lg) + length (log_elements s args) < ring_size (lg_queue lg)"
  shows "bindR (logger_log s args lg) (\<lambda>lg'. bindR (flush_round show_f show_d lg') (\<lambda>lg''. Inr (lg_file lg''))) =
    (if length args = placeholders s
     then Inr (lg_file lg @ concat (map (element_text show_f show_d) (lfq_list (lg_queue lg))) @
       weave (pieces s) (map (arg_text show_f show_d) args))
     else FATAL (if placeholders s < length args then ''extra arguments provided to log()''
       else ''missing arguments to log()''))"
proof (cases "length args = placeholders s")
  case True
  let ?q = "lfq_push_all (lg_queue lg) (log_elements s args)"
  have q: "lfq_list ?q = lfq_list (lg_queue lg) @ log_elements s args" "lfq_inv ?q"
    using lfq_push_all_list [OF assms(2,4)] by simp_all
  have "\<forall>e \<in> set (lfq_list (lg_queue lg)). well_typed e"
    using assms(3) by (auto simp: lfq_list_def slots_typed_def)
  then have "\<forall>e \<in> set (lfq_list ?q). well_typed e"
    using log_elements_typed unfolding q(1) by auto
  then have "foldR (print_element show_f show_d) (lfq_list ?q) (lg_file lg) =
      Inr (lg_file lg @ concat (map (element_text show_f show_d) (lfq_list (lg_queue lg))) @
        weave (pieces s) (map (arg_text show_f show_d) args))"
    by (simp add: foldR_print q(1) log_elements_text)
  then show ?thesis
    using True assms(1) q(2)
    by (simp add: logger_log_eq push_elements_def flush_round_def lfq_drain_eq)
qed (simp add: logger_log_eq)

theorem log_is_weave_witness:
  "bindR (logger_log ''100%% of %\<newline>'' [Arg_string ''x'']
      \<lparr>lg_file = ''a'', lg_queue = LFQueue_ctor 64 LogElement_default, lg_running = True\<rparr>)
    (\<lambda>lg'. bindR (flush_round no_text no_text lg') (\<lambda>lg''. Inr (lg_file lg''))) = Inr ''a100% of x\<newline>''"
proof -
  let ?lg = "\<lparr>lg_file = ''a'', lg_queue = LFQueue_ctor 64 LogElement_default, lg_running = True\<rparr>"
  let ?s = "''100%% of %\<newline>''" and ?args = "[Arg_string ''x'']"
  have p: "pieces ?s = [''100% of '', ''\<newline>'']" by (simp add: percent_next_def)
  have "slots_typed ?lg" by (simp add: slots_typed_def LFQueue_ctor_def well_typed_def LogElement_default_def)
  moreover have "store_count (lg_queue ?lg) + length (log_elements ?s ?args) < ring_size (lg_queue ?lg)"
    by (simp add: log_elements_def p)
  moreover have "weave (pieces ?s) (map (arg_text no_text no_text) ?args) = ''100% of x\<newline>''"
    and "length ?args = placeholders ?s"
    unfolding placeholders_def p by (simp_all add: arg_text_def element_text_def)
  ultimately show ?thesis using log_is_weave [of ?lg ?s ?args no_text no_text] by (simp del: pieces.simps)
qed

section \<open>A burst\<close>

text \<open>
  A message that fills the ring exactly is lost, and the logger can no longer be destroyed: the
  two indices meet, the thread finds nothing to print, and the destructor waits for ever for the
  counter to reach zero.
\<close>

theorem logger_burst_hangs:
  assumes "lg_running lg" and "lfq_inv (lg_queue lg)" and "logger_log s args lg = Inr lg'"
    and "store_count (lg_queue lg) + length (log_elements s args) = ring_size (lg_queue lg)"
  shows "flush_round show_f show_d lg' = Inr lg' \<and> Logger_dtor show_f show_d lg' = Inl Diverges"
proof -
  let ?es = "log_elements s args"
  have "store_count (lg_queue lg) < ring_size (lg_queue lg)" using assms(2) by (simp add: lfq_inv_def)
  then have "?es \<noteq> []" using assms(4) by auto
  then obtain es e where es: "?es = es @ [e]" by (metis rev_exhaust)
  let ?q = "lfq_push_all (lg_queue lg) es"
  have "store_count (lg_queue lg) + length es < ring_size (lg_queue lg)" using assms(4) es by simp
  then have q: "lfq_inv ?q" "store_count ?q = store_count (lg_queue lg) + length es"
    using lfq_push_all_list [OF assms(2)] by simp_all
  then have full: "Suc (store_count ?q) = ring_size ?q"
    using assms(4) es by simp
  have lg': "lg_queue lg' = lfq_push ?q e" "lg_running lg'"
    using assms(1,3) by (auto simp: logger_log_eq push_elements_def es lfq_push_all_def split: if_splits)
  note lost = lfq_overflow_hides_all [OF q(1) full, of e]
  have flush: "flush_round show_f show_d lg' = Inr lg'"
    using lost lg' by (simp add: flush_round_def lfq_drain.simps [of _ "lfq_push ?q e"])
  have "dtor_step show_f show_d lg' = Continue lg'"
    using lost lg' full flush by (auto simp: dtor_step_def)
  then have "Logger_dtor show_f show_d lg' = Inl Diverges"
    unfolding Logger_dtor_def by (intro loopR_diverges [where I = "\<lambda>x. x = lg'"]) auto
  then show ?thesis using flush by simp
qed

theorem logger_burst_hangs_witness:
  "\<exists>lg'. logger_log ''four'' [] \<lparr>lg_file = '''', lg_queue = LFQueue_ctor 4 LogElement_default, lg_running = True\<rparr>
      = Inr lg' \<and> Logger_dtor no_text no_text lg' = Inl Diverges"
proof -
  let ?lg = "\<lparr>lg_file = '''', lg_queue = LFQueue_ctor 4 LogElement_default, lg_running = True\<rparr> :: (unit, unit) Logger"
  have el: "length (log_elements ''four'' [] :: (unit, unit) LogElement list) = 4" and "placeholders ''four'' = 0"
    by (simp_all add: log_elements_simps placeholders_simps)
  then obtain lg' where run: "logger_log ''four'' [] ?lg = Inr lg'" by (simp add: logger_log_eq)
  show ?thesis
    using logger_burst_hangs [OF _ _ run, of no_text no_text] run el by auto
qed

section \<open>The clock\<close>

text \<open>
  \<open>getCurrentTimeStr\<close>: the string \<open>ctime\<close> returns, with its last character, a newline, replaced by a
  zero, which the string keeps and the logger does not print.
\<close>

definition getCurrentTimeStr :: "string \<Rightarrow> string" where
  "getCurrentTimeStr time =
     (if time \<noteq> [] then time[length time - 1 := CHR 0x00] else time)"

lemma push_time:
  "CHR 0x00 \<notin> set t \<Longrightarrow> push_string (getCurrentTimeStr (t @ [c])) lg = push_cstr t lg"
proof -
  assume t: "CHR 0x00 \<notin> set t"
  have "getCurrentTimeStr (t @ [c]) = t @ [CHR 0x00]" by (simp add: getCurrentTimeStr_def list_update_append)
  moreover have "c_str (t @ [CHR 0x00]) = c_str t" using t by (induction t) auto
  ultimately show ?thesis by (simp add: push_string_def push_cstr_eq)
qed

end
