(* ===== verification/MarketOrder.thy ===== *)
theory MarketOrder
  imports Messages MemPool
begin

text \<open>
  trading_system/strategy/market_order.h and market_order.cpp: the orders, price levels and best
  prices of the trading client's book. Pointers are indices into the book's two pools.
\<close>

record MarketOrder =
  mo_orderId :: OrderId
  mo_side :: Side
  mo_price :: Price
  mo_qty :: Qty
  mo_priority :: Priority
  mo_next :: ptr
  mo_prev :: ptr

definition MarketOrder_default :: MarketOrder where
  "MarketOrder_default = \<lparr>mo_orderId = OrderId_INVALID, mo_side = Side_INVALID, mo_price = Price_INVALID,
     mo_qty = Qty_INVALID, mo_priority = Priority_INVALID, mo_next = None, mo_prev = None\<rparr>"

record MarketOrderPriceLevel =
  ml_total_qty :: Qty
  ml_orders_count :: u64
  ml_side :: Side
  ml_price :: Price
  ml_first_order :: ptr
  ml_prev :: ptr
  ml_next :: ptr

definition MarketOrderPriceLevel_default :: MarketOrderPriceLevel where
  "MarketOrderPriceLevel_default = \<lparr>ml_total_qty = Qty_INVALID, ml_orders_count = 0,
     ml_side = Side_INVALID, ml_price = Price_INVALID, ml_first_order = None, ml_prev = None, ml_next = None\<rparr>"

text \<open>
  The constructor with arguments sets neither the total nor the count, so they keep the values of
  their initializers: the total starts at \<open>Qty_INVALID\<close>.
\<close>

definition MarketOrderPriceLevel_ctor ::
    "Side \<Rightarrow> Price \<Rightarrow> ptr \<Rightarrow> ptr \<Rightarrow> ptr \<Rightarrow> MarketOrderPriceLevel" where
  "MarketOrderPriceLevel_ctor side price first_order prev_level next_level =
     \<lparr>ml_total_qty = Qty_INVALID, ml_orders_count = 0, ml_side = side, ml_price = price,
      ml_first_order = first_order, ml_prev = prev_level, ml_next = next_level\<rparr>"

record BestBidOffer =
  best_bid :: ptr
  best_ask :: ptr

definition BestBidOffer_default :: BestBidOffer where
  "BestBidOffer_default = \<lparr>best_bid = None, best_ask = None\<rparr>"

section \<open>Printing\<close>

definition linked_order_id :: "MarketOrder MemPool \<Rightarrow> ptr \<Rightarrow> OrderId" where
  "linked_order_id pool p = (case p of None \<Rightarrow> OrderId_INVALID | Some i \<Rightarrow> mo_orderId (pool_get pool i))"

definition MarketOrder_toString :: "MarketOrder MemPool \<Rightarrow> MarketOrder \<Rightarrow> string" where
  "MarketOrder_toString pool r =
     ''MarketOrder'' @ ''['' @
     ''oid:'' @ orderIdToString (mo_orderId r) @ '' '' @
     ''side:'' @ sideToString (mo_side r) @ '' '' @
     ''price:'' @ priceToString (mo_price r) @ '' '' @
     ''qty:'' @ qtyToString (mo_qty r) @ '' '' @
     ''prio:'' @ priorityToString (mo_priority r) @ '' '' @
     ''prev:'' @ orderIdToString (linked_order_id pool (mo_prev r)) @ '' '' @
     ''next:'' @ orderIdToString (linked_order_id pool (mo_next r)) @ '']''"

definition linked_level_price :: "MarketOrderPriceLevel MemPool \<Rightarrow> ptr \<Rightarrow> Price" where
  "linked_level_price pool p = (case p of None \<Rightarrow> Price_INVALID | Some i \<Rightarrow> ml_price (pool_get pool i))"

definition MarketOrderPriceLevel_toString ::
    "MarketOrder MemPool \<Rightarrow> MarketOrderPriceLevel MemPool \<Rightarrow> MarketOrderPriceLevel \<Rightarrow> string" where
  "MarketOrderPriceLevel_toString orders levels r =
     ''MarketOrdersAtPrice['' @
     ''side:'' @ sideToString (ml_side r) @ '' '' @
     ''price:'' @ priceToString (ml_price r) @ '' '' @
     ''first_mkt_order:'' @ (case ml_first_order r of None \<Rightarrow> ''null''
        | Some p \<Rightarrow> MarketOrder_toString orders (pool_get orders p)) @ '' '' @
     ''prev:'' @ priceToString (linked_level_price levels (ml_prev r)) @ '' '' @
     ''next:'' @ priceToString (linked_level_price levels (ml_next r)) @ '']''"

text \<open>
  The best prices are printed without a check for null. The ask's quantity and price go through
  each other's conversion: the quantity is widened to 64 bits, the price cut to 32.
\<close>

definition BestBidOffer_toString :: "MarketOrderPriceLevel MemPool \<Rightarrow> BestBidOffer \<Rightarrow> string res" where
  "BestBidOffer_toString levels bbo =
     bindR (deref (best_bid bbo)) (\<lambda>bid. bindR (deref (best_ask bbo)) (\<lambda>ask.
       Inr (''BBO{'' @ qtyToString (ml_total_qty (pool_get levels bid)) @ ''@'' @
         priceToString (ml_price (pool_get levels bid)) @ ''X'' @
         priceToString (ucast (ml_total_qty (pool_get levels ask))) @ ''@'' @
         qtyToString (ucast (ml_price (pool_get levels ask))) @ ''}'')))"

end
