(* ===== verification/MarketOrderBook.thy ===== *)
theory MarketOrderBook
  imports MarketOrder
begin

text \<open>
  trading_system/strategy/market_order_book.h and market_order_book.cpp: the trading client's book
  of one instrument, built from market updates. The design follows the exchange's book, with the
  names of this class prefixed by \<open>mb_\<close>.
\<close>

record MarketOrderBook =
  mb_tickerId :: TickerId
  orderId_to_order :: "nat \<Rightarrow> ptr"
  mb_level_pool :: "MarketOrderPriceLevel MemPool"
  bid_price_levels :: ptr
  ask_price_levels :: ptr
  orders_at_price_levels :: "nat \<Rightarrow> ptr"
  mb_order_pool :: "MarketOrder MemPool"
  best_offer :: BestBidOffer

text \<open>The two arrays have no initializer and start with what the memory holds.\<close>

definition MarketOrderBook_ctor :: "(nat \<Rightarrow> ptr) \<Rightarrow> (nat \<Rightarrow> ptr) \<Rightarrow> TickerId \<Rightarrow> MarketOrderBook" where
  "MarketOrderBook_ctor mem_orders mem_levels tickerId =
     \<lparr>mb_tickerId = tickerId, orderId_to_order = mem_orders,
      mb_level_pool = MemPool_ctor ME_MAX_PRICE_LEVELS MarketOrderPriceLevel_default,
      bid_price_levels = None, ask_price_levels = None, orders_at_price_levels = mem_levels,
      mb_order_pool = MemPool_ctor ME_MAX_ORDER_IDS MarketOrder_default,
      best_offer = BestBidOffer_default\<rparr>"

definition MarketOrderBook_zeroed :: "TickerId \<Rightarrow> MarketOrderBook" where
  "MarketOrderBook_zeroed = MarketOrderBook_ctor (\<lambda>_. None) (\<lambda>_. None)"

section \<open>Access through pointers\<close>

definition mord :: "MarketOrderBook \<Rightarrow> nat \<Rightarrow> MarketOrder" where
  "mord b p = pool_get (mb_order_pool b) p"

definition mlvl :: "MarketOrderBook \<Rightarrow> nat \<Rightarrow> MarketOrderPriceLevel" where
  "mlvl b p = pool_get (mb_level_pool b) p"

definition upd_mord :: "MarketOrderBook \<Rightarrow> nat \<Rightarrow> (MarketOrder \<Rightarrow> MarketOrder) \<Rightarrow> MarketOrderBook" where
  "upd_mord b p f = b\<lparr>mb_order_pool := pool_put (mb_order_pool b) p (f (mord b p))\<rparr>"

definition upd_mlvl ::
    "MarketOrderBook \<Rightarrow> nat \<Rightarrow> (MarketOrderPriceLevel \<Rightarrow> MarketOrderPriceLevel) \<Rightarrow> MarketOrderBook" where
  "upd_mlvl b p f = b\<lparr>mb_level_pool := pool_put (mb_level_pool b) p (f (mlvl b p))\<rparr>"

section \<open>Private operations\<close>

definition mb_priceToIndex :: "Price \<Rightarrow> nat" where
  "mb_priceToIndex price = unat price mod ME_MAX_PRICE_LEVELS"

definition mb_getPriceLevel :: "MarketOrderBook \<Rightarrow> Price \<Rightarrow> ptr" where
  "mb_getPriceLevel b price = orders_at_price_levels b (mb_priceToIndex price)"

definition mb_walk_bid_step :: "MarketOrderBook \<Rightarrow> Price \<Rightarrow> nat \<Rightarrow> ptr \<Rightarrow> (ptr, nat) flow" where
  "mb_walk_bid_step b price head current =
     (case current of
        None \<Rightarrow> Return (Inl Null_deref)
      | Some c \<Rightarrow>
          if ml_price (mlvl b c) < price \<and> ml_next (mlvl b c) \<noteq> Some head
          then Continue (ml_next (mlvl b c)) else Return (Inr c))"

definition mb_walk_ask_step :: "MarketOrderBook \<Rightarrow> Price \<Rightarrow> nat \<Rightarrow> ptr \<Rightarrow> (ptr, nat) flow" where
  "mb_walk_ask_step b price head current =
     (case current of
        None \<Rightarrow> Return (Inl Null_deref)
      | Some c \<Rightarrow>
          if price < ml_price (mlvl b c) \<and> ml_next (mlvl b c) \<noteq> Some head
          then Continue (ml_next (mlvl b c)) else Return (Inr c))"

definition mb_link_level :: "MarketOrderBook \<Rightarrow> nat \<Rightarrow> nat \<Rightarrow> MarketOrderBook res" where
  "mb_link_level b new current =
     (let b1 = upd_mlvl b new (ml_next_update (\<lambda>_. Some current));
          b2 = upd_mlvl b1 new (ml_prev_update (\<lambda>_. ml_prev (mlvl b1 current)))
      in bindR (deref (ml_prev (mlvl b2 current))) (\<lambda>before.
           let b3 = upd_mlvl b2 before (ml_next_update (\<lambda>_. Some new))
           in Inr (upd_mlvl b3 current (ml_prev_update (\<lambda>_. Some new)))))"

text \<open>
  As in the exchange's book, the head is a local copy: in the empty case the member stays null,
  and the lines that maintain the best price are not reached.
\<close>

definition addOrdersAtPriceLevel :: "MarketOrderBook \<Rightarrow> nat \<Rightarrow> MarketOrderBook res" where
  "addOrdersAtPriceLevel b new =
     (let price = ml_price (mlvl b new); side = ml_side (mlvl b new);
          b0 = b\<lparr>orders_at_price_levels := (orders_at_price_levels b)(mb_priceToIndex price := Some new)\<rparr>
      in case (if side = BUY then bid_price_levels b0 else ask_price_levels b0) of
        None \<Rightarrow>
          (let b1 = upd_mlvl b0 new (ml_prev_update (\<lambda>_. Some new))
           in Inr (upd_mlvl b1 new (ml_next_update (\<lambda>_. Some new))))
      | Some head \<Rightarrow>
          if side = BUY then
            bindR (loopR (mb_walk_bid_step b0 price head) (Some head)) (\<lambda>current.
            bindR (mb_link_level b0 new current) (\<lambda>b1.
              let b2 = (if ml_price (mlvl b1 head) < price then b1\<lparr>bid_price_levels := Some new\<rparr> else b1)
              in Inr (case best_bid (best_offer b2) of
                   None \<Rightarrow> b2\<lparr>best_offer := (best_offer b2)\<lparr>best_bid := Some new\<rparr>\<rparr>
                 | Some bb \<Rightarrow> if ml_price (mlvl b2 bb) < price
                     then b2\<lparr>best_offer := (best_offer b2)\<lparr>best_bid := Some new\<rparr>\<rparr> else b2)))
          else
            bindR (loopR (mb_walk_ask_step b0 price head) (Some head)) (\<lambda>current.
            bindR (mb_link_level b0 new current) (\<lambda>b1.
              let b2 = (if price < ml_price (mlvl b1 head) then b1\<lparr>ask_price_levels := Some new\<rparr> else b1)
              in Inr (case best_ask (best_offer b2) of
                   None \<Rightarrow> b2\<lparr>best_offer := (best_offer b2)\<lparr>best_ask := Some new\<rparr>\<rparr>
                 | Some ba \<Rightarrow> if price < ml_price (mlvl b2 ba)
                     then b2\<lparr>best_offer := (best_offer b2)\<lparr>best_ask := Some new\<rparr>\<rparr> else b2))))"

definition mb_addOrder :: "MarketOrderBook \<Rightarrow> nat \<Rightarrow> MarketOrderBook res" where
  "mb_addOrder b order =
     bindR (case mb_getPriceLevel b (mo_price (mord b order)) of
        Some price_level \<Rightarrow>
          bindR (deref (ml_first_order (mlvl b price_level))) (\<lambda>first_order.
          bindR (deref (mo_prev (mord b first_order))) (\<lambda>last_order.
            let b1 = upd_mord b last_order (mo_next_update (\<lambda>_. Some order));
                b2 = upd_mord b1 order (mo_prev_update (\<lambda>_. mo_prev (mord b1 first_order)));
                b3 = upd_mord b2 order (mo_next_update (\<lambda>_. Some first_order))
            in Inr (upd_mord b3 first_order (mo_prev_update (\<lambda>_. Some order)), price_level)))
      | None \<Rightarrow>
          (let b1 = upd_mord b order (mo_prev_update (\<lambda>_. Some order));
               b2 = upd_mord b1 order (mo_next_update (\<lambda>_. Some order));
               o2 = mord b2 order
           in bindR (allocate (mb_level_pool b2)
                (MarketOrderPriceLevel_ctor (mo_side o2) (mo_price o2) (Some order) None None)) (\<lambda>(pool', price_level).
              bindR (addOrdersAtPriceLevel (b2\<lparr>mb_level_pool := pool'\<rparr>) price_level) (\<lambda>b3.
                Inr (b3, price_level)))))
     (\<lambda>(b', price_level).
        let b1 = upd_mlvl b' price_level (ml_total_qty_update (\<lambda>q. q + mo_qty (mord b' order)))
        in Inr (upd_mlvl b1 price_level (ml_orders_count_update (\<lambda>c. c + 1))))"

text \<open>\<open>removePriceLevel\<close> and \<open>removeOrder\<close> have no caller: the one call is commented out.\<close>

definition mb_removePriceLevel :: "MarketOrderBook \<Rightarrow> nat \<Rightarrow> MarketOrderBook res" where
  "mb_removePriceLevel b price_level =
     bindR
       (if ml_next (mlvl b price_level) = Some price_level then Inr b
        else
          bindR (deref (ml_prev (mlvl b price_level))) (\<lambda>before.
            let b1 = upd_mlvl b before (ml_next_update (\<lambda>_. ml_next (mlvl b price_level)))
            in bindR (deref (ml_next (mlvl b1 price_level))) (\<lambda>after.
                 Inr (upd_mlvl b1 after (ml_prev_update (\<lambda>_. ml_prev (mlvl b1 price_level)))))))
     (\<lambda>b'.
        let b2 = b'\<lparr>orders_at_price_levels :=
              (orders_at_price_levels b')(mb_priceToIndex (ml_price (mlvl b' price_level)) := None)\<rparr>
        in bindR (deallocate (mb_level_pool b2) price_level) (\<lambda>pool'. Inr (b2\<lparr>mb_level_pool := pool'\<rparr>)))"

definition mb_removeOrder :: "MarketOrderBook \<Rightarrow> nat \<Rightarrow> MarketOrderBook res" where
  "mb_removeOrder b order =
     (let price_level = mb_getPriceLevel b (mo_price (mord b order)) in
      if mo_prev (mord b order) = Some order then
        bindR (deref price_level) (\<lambda>l. mb_removePriceLevel b l)
      else
        let prev_order = mo_prev (mord b order); next_order = mo_next (mord b order) in
        bindR (deref prev_order) (\<lambda>prev.
          let b1 = upd_mord b prev (mo_next_update (\<lambda>_. next_order))
          in bindR (deref next_order) (\<lambda>next.
               let b2 = upd_mord b1 next (mo_prev_update (\<lambda>_. prev_order))
               in bindR (deref price_level) (\<lambda>l.
                    Inr (if ml_first_order (mlvl b2 l) = Some order
                         then upd_mlvl b2 l (ml_first_order_update (\<lambda>_. next_order)) else b2)))))"

section \<open>Market updates\<close>

text \<open>The two tests at the head of \<open>onMarketUpdate\<close>; the second reads the bid's price for an ask.\<close>

definition best_bid_updated :: "MarketOrderBook \<Rightarrow> MEMarketUpdate \<Rightarrow> bool" where
  "best_bid_updated b u \<longleftrightarrow> (case bid_price_levels b of None \<Rightarrow> False
     | Some bid \<Rightarrow> mu_side u = BUY \<and> ml_price (mlvl b bid) \<le> mu_price u)"

definition best_ask_updated :: "MarketOrderBook \<Rightarrow> MEMarketUpdate \<Rightarrow> bool res" where
  "best_ask_updated b u =
     (if ask_price_levels b \<noteq> None \<and> mu_side u = SELL
      then bindR (deref (bid_price_levels b)) (\<lambda>bid. Inr (mu_price u \<le> ml_price (mlvl b bid)))
      else Inr False)"

text \<open>
  The loop that frees a side's levels: it fetches the same neighbour again after freeing it. The
  state is the pool.
\<close>

definition clear_side_step ::
    "nat \<Rightarrow> MarketOrderPriceLevel MemPool \<Rightarrow> (MarketOrderPriceLevel MemPool, MarketOrderPriceLevel MemPool) flow" where
  "clear_side_step head pool =
     (case ml_next (pool_get pool head) of
        None \<Rightarrow> Return (Inl (Assert_failed ''Element being deallocated does not belong to this Memory pool.''))
      | Some level \<Rightarrow>
          if level = head then Return (Inr pool)
          else (case deallocate pool level of Inl e \<Rightarrow> Return (Inl e) | Inr pool' \<Rightarrow> Continue pool'))"

definition clear_side :: "ptr \<Rightarrow> MarketOrderBook \<Rightarrow> MarketOrderBook res" where
  "clear_side head b =
     (case head of
        None \<Rightarrow> Inr b
      | Some h \<Rightarrow>
          bindR (loopR (clear_side_step h) (mb_level_pool b)) (\<lambda>pool.
          bindR (deallocate pool h) (\<lambda>pool'. Inr (b\<lparr>mb_level_pool := pool'\<rparr>))))"

definition clear_order :: "nat \<Rightarrow> MarketOrderBook \<Rightarrow> MarketOrderBook res" where
  "clear_order i b =
     (case orderId_to_order b i of
        None \<Rightarrow> Inr b
      | Some order \<Rightarrow> bindR (deallocate (mb_order_pool b) order) (\<lambda>pool.
          Inr (b\<lparr>mb_order_pool := pool, orderId_to_order := (orderId_to_order b)(i := None)\<rparr>)))"

definition clear_book :: "MarketOrderBook \<Rightarrow> MarketOrderBook res" where
  "clear_book b =
     bindR (foldR clear_order [0..<ME_MAX_ORDER_IDS] b) (\<lambda>b1.
     bindR (clear_side (bid_price_levels b1) b1) (\<lambda>b2.
     bindR (clear_side (ask_price_levels b2) b2) (\<lambda>b3.
       Inr (b3\<lparr>bid_price_levels := None, ask_price_levels := None\<rparr>))))"

text \<open>
  The case of \<open>CANCEL\<close> looks its order up, does nothing with it and falls through to the return
  of \<open>TRADE\<close>. An added order is never entered in the table the other cases read.
\<close>

definition onMarketUpdate :: "MEMarketUpdate \<Rightarrow> MarketOrderBook \<Rightarrow> MarketOrderBook res" where
  "onMarketUpdate u b =
     bindR (best_ask_updated b u) (\<lambda>_.
       case mu_type u of
         ADD \<Rightarrow>
           bindR (allocate (mb_order_pool b)
             \<lparr>mo_orderId = mu_orderId u, mo_side = mu_side u, mo_price = mu_price u, mo_qty = mu_qty u,
              mo_priority = mu_priority u, mo_next = None, mo_prev = None\<rparr>) (\<lambda>(pool', order).
             mb_addOrder (b\<lparr>mb_order_pool := pool'\<rparr>) order)
       | MODIFY \<Rightarrow>
           bindR (arr_at ME_MAX_ORDER_IDS (orderId_to_order b) (unat (mu_orderId u))) (\<lambda>order.
           bindR (deref order) (\<lambda>p. Inr (upd_mord b p (mo_qty_update (\<lambda>_. mu_qty u)))))
       | CANCEL \<Rightarrow>
           bindR (arr_at ME_MAX_ORDER_IDS (orderId_to_order b) (unat (mu_orderId u))) (\<lambda>order. Inr b)
       | CLEAR \<Rightarrow> clear_book b
       | _ \<Rightarrow> Inr b)"

definition getBBO :: "MarketOrderBook \<Rightarrow> BestBidOffer" where
  "getBBO b = best_offer b"

end
