(* ===== verification/Shutdown.thy ===== *)
theory Shutdown
  imports Lifecycle Logging MarketOrderBook
begin

text \<open>
  The end of the components: their destructors, and what these do while the component's thread may
  still run. Every destructor clears the flag, sleeps for some seconds, and then lets the members go; none
  waits for its thread, whose handle \<open>createAndStartThread\<close> returned and nobody kept.
\<close>

section \<open>Destructors\<close>

definition MEOrderBook_dtor :: "MEOrderBook \<Rightarrow> MEOrderBook" where
  "MEOrderBook_dtor b = b\<lparr>bid_levels_head := None, ask_levels_head := None, client_orders := (\<lambda>_ _. None)\<rparr>"

definition MarketOrderBook_dtor :: "MarketOrderBook \<Rightarrow> MarketOrderBook" where
  "MarketOrderBook_dtor b = b\<lparr>bid_price_levels := None, ask_price_levels := None, orderId_to_order := (\<lambda>_. None)\<rparr>"

text \<open>
  What a destructor does before it sleeps is its \<open>stop\<close>; what it does then is its end. The engine's
  destructor ends with its books, after it has forgotten its queues, the publisher's with its synthesizer.
\<close>

definition engine_dtor_end :: "bool \<times> MatchingEngine \<Rightarrow> bool \<times> MatchingEngine" where
  "engine_dtor_end = (\<lambda>(is_running, e). (is_running,
     e\<lparr>ticker_order_book := (\<lambda>i. MEOrderBook_dtor (ticker_order_book e i))\<rparr>))"

definition synthesizer_dtor :: "SnapshotSynthesizer \<Rightarrow> SnapshotSynthesizer" where
  "synthesizer_dtor s = synthesizer_stop s"

definition publisher_dtor_end ::
    "bool \<times> MarketDataPublisher \<times> SnapshotSynthesizer \<Rightarrow> bool \<times> MarketDataPublisher \<times> SnapshotSynthesizer" where
  "publisher_dtor_end = (\<lambda>(is_running, p, s). (is_running, p, synthesizer_dtor s))"

section \<open>A thread and the destructor of its object\<close>

text \<open>
  The thread tests the flag, makes a pass of its loop, and tests again; the owner uses the object,
  stops it and sleeps, and destroys it. A step of the thread on a destroyed object is an access to
  freed memory. Whether the owner waits for the thread is a parameter: the code does not.
\<close>

datatype loop_at = Testing | Passing | Loop_left | Loop_crashed fault | Freed_access
datatype owner_at = Using | Asleep | Destroyed

record 'c closing =
  obj :: 'c
  thread_at :: loop_at
  owner_at :: owner_at

definition at_work :: "'c closing \<Rightarrow> bool" where
  "at_work s \<longleftrightarrow> thread_at s = Testing \<or> thread_at s = Passing"

inductive closing_step ::
    "bool \<Rightarrow> ('c \<Rightarrow> bool) \<Rightarrow> ('c \<Rightarrow> 'c) \<Rightarrow> ('c \<Rightarrow> 'c res \<Rightarrow> bool) \<Rightarrow> ('c \<Rightarrow> 'c) \<Rightarrow> 'c closing \<Rightarrow> 'c closing \<Rightarrow> bool"
  for joins :: bool and running :: "'c \<Rightarrow> bool" and stop :: "'c \<Rightarrow> 'c" and pass :: "'c \<Rightarrow> 'c res \<Rightarrow> bool"
    and dtor_end :: "'c \<Rightarrow> 'c" where
  t_enter: "thread_at s = Testing \<Longrightarrow> owner_at s \<noteq> Destroyed \<Longrightarrow> running (obj s) \<Longrightarrow>
     closing_step joins running stop pass dtor_end s (s\<lparr>thread_at := Passing\<rparr>)"
| t_leave: "thread_at s = Testing \<Longrightarrow> owner_at s \<noteq> Destroyed \<Longrightarrow> \<not> running (obj s) \<Longrightarrow>
     closing_step joins running stop pass dtor_end s (s\<lparr>thread_at := Loop_left\<rparr>)"
| t_pass: "thread_at s = Passing \<Longrightarrow> owner_at s \<noteq> Destroyed \<Longrightarrow> pass (obj s) (Inr c) \<Longrightarrow>
     closing_step joins running stop pass dtor_end s (s\<lparr>obj := c, thread_at := Testing\<rparr>)"
| t_crash: "thread_at s = Passing \<Longrightarrow> owner_at s \<noteq> Destroyed \<Longrightarrow> pass (obj s) (Inl f) \<Longrightarrow>
     closing_step joins running stop pass dtor_end s (s\<lparr>thread_at := Loop_crashed f\<rparr>)"
| t_freed: "at_work s \<Longrightarrow> owner_at s = Destroyed \<Longrightarrow>
     closing_step joins running stop pass dtor_end s (s\<lparr>thread_at := Freed_access\<rparr>)"
| o_stop: "owner_at s = Using \<Longrightarrow>
     closing_step joins running stop pass dtor_end s (s\<lparr>obj := stop (obj s), owner_at := Asleep\<rparr>)"
| o_destroy: "owner_at s = Asleep \<Longrightarrow> \<not> (joins \<and> at_work s) \<Longrightarrow>
     closing_step joins running stop pass dtor_end s (s\<lparr>obj := dtor_end (obj s), owner_at := Destroyed\<rparr>)"

text \<open>A thread that has been started on an object in use.\<close>

definition in_use :: "'c \<Rightarrow> 'c closing" where
  "in_use c = \<lparr>obj = c, thread_at = Testing, owner_at = Using\<rparr>"

lemma in_use_simps [simp]: "obj (in_use c) = c" "thread_at (in_use c) = Testing" "owner_at (in_use c) = Using"
  by (simp_all add: in_use_def)

text \<open>How many steps a stopped thread still has.\<close>

definition steps_left :: "'c closing \<Rightarrow> nat" where
  "steps_left s = (if thread_at s = Passing then 2 else if thread_at s = Testing then 1 else 0)"

text \<open>The contract between a component's flag and its thread: no pass touches the flag.\<close>

locale stoppable =
  fixes running :: "'c \<Rightarrow> bool" and stop :: "'c \<Rightarrow> 'c" and pass :: "'c \<Rightarrow> 'c res \<Rightarrow> bool" and dtor_end :: "'c \<Rightarrow> 'c"
  assumes stopped: "\<not> running (stop c)"
    and pass_keeps: "pass c (Inr c') \<Longrightarrow> running c' = running c"
begin

lemma joined_step:
  assumes "closing_step True running stop pass dtor_end s s'"
    and "thread_at s \<noteq> Freed_access \<and> (owner_at s = Destroyed \<longrightarrow> \<not> at_work s)"
  shows "thread_at s' \<noteq> Freed_access \<and> (owner_at s' = Destroyed \<longrightarrow> \<not> at_work s')"
  using assms by cases (auto simp: at_work_def)

lemma joined_safe:
  assumes "(closing_step True running stop pass dtor_end)\<^sup>*\<^sup>* (in_use c) s"
  shows "thread_at s \<noteq> Freed_access \<and> (owner_at s = Destroyed \<longrightarrow> \<not> at_work s)"
  using assms
proof (induction rule: rtranclp_induct)
  case base
  show ?case by simp
next
  case (step s s')
  then show ?case using joined_step by blast
qed

text \<open>Without waiting, the sleep may end before the thread has looked at the flag again.\<close>

lemma unjoined_race:
  "\<exists>s. (closing_step False running stop pass dtor_end)\<^sup>*\<^sup>* (in_use c) s \<and> thread_at s = Freed_access"
proof -
  let ?step = "closing_step False running stop pass dtor_end"
  let ?s1 = "(in_use c)\<lparr>obj := stop c, owner_at := Asleep\<rparr>"
  let ?s2 = "?s1\<lparr>obj := dtor_end (stop c), owner_at := Destroyed\<rparr>"
  have "?step (in_use c) ?s1" using o_stop [of "in_use c"] by simp
  moreover have "?step ?s1 ?s2" using o_destroy [of ?s1] by simp
  moreover have "?step ?s2 (?s2\<lparr>thread_at := Freed_access\<rparr>)" by (rule t_freed) (simp_all add: at_work_def)
  ultimately have "?step\<^sup>*\<^sup>* (in_use c) (?s2\<lparr>thread_at := Freed_access\<rparr>)"
    by (meson converse_rtranclp_into_rtranclp rtranclp.rtrancl_refl)
  then show ?thesis by (intro exI [of _ "?s2\<lparr>thread_at := Freed_access\<rparr>"]) simp
qed

lemma race_iff:
  "(\<exists>s. (closing_step joins running stop pass dtor_end)\<^sup>*\<^sup>* (in_use c) s \<and> thread_at s = Freed_access) \<longleftrightarrow> \<not> joins"
  using joined_safe unjoined_race by (cases joins) auto

text \<open>While the owner sleeps the thread finishes the pass it is in, and no other.\<close>

lemma stopped_thread_leaves:
  assumes "closing_step joins running stop pass dtor_end s s'" and "owner_at s = Asleep" and "\<not> running (obj s)"
    and "owner_at s' = Asleep"
  shows "steps_left s' < steps_left s \<and> \<not> running (obj s')"
  using assms pass_keeps by cases (auto simp: steps_left_def at_work_def)

lemma asleep_stopped:
  assumes "(closing_step joins running stop pass dtor_end)\<^sup>*\<^sup>* (in_use c) s"
  shows "owner_at s = Asleep \<longrightarrow> \<not> running (obj s)"
  using assms
proof (induction rule: rtranclp_induct)
  case base
  show ?case by simp
next
  case (step s s')
  show ?case using step(2,3) stopped pass_keeps by cases auto
qed

text \<open>So a sleep lasts for at most two steps of the thread; after them it has left its loop, or crashed on its own.\<close>

lemma steps_in_sleep:
  assumes "((\<lambda>s s'. closing_step joins running stop pass dtor_end s s' \<and> owner_at s' = Asleep) ^^ n) s s'"
    and "owner_at s = Asleep" and "\<not> running (obj s)"
  shows "n + steps_left s' \<le> steps_left s \<and> owner_at s' = Asleep \<and> \<not> running (obj s')"
  using assms
proof (induction n arbitrary: s')
  case (Suc n)
  then obtain t where "n + steps_left t \<le> steps_left s \<and> owner_at t = Asleep \<and> \<not> running (obj t)"
    and "closing_step joins running stop pass dtor_end t s'" "owner_at s' = Asleep" by auto
  then show ?case using stopped_thread_leaves by fastforce
qed simp

end

section \<open>The components\<close>

definition engine_pass :: "bool \<times> MatchingEngine \<Rightarrow> (bool \<times> MatchingEngine) res \<Rightarrow> bool" where
  "engine_pass c r \<longleftrightarrow> r = bindR (engine_poll (snd c)) (\<lambda>e. Inr (fst c, e))"

definition publisher_pass ::
    "bool \<times> MarketDataPublisher \<times> SnapshotSynthesizer \<Rightarrow> (bool \<times> MarketDataPublisher \<times> SnapshotSynthesizer) res \<Rightarrow> bool" where
  "publisher_pass c r \<longleftrightarrow> (\<exists>incoming send_ok.
     r = bindR (publisher_round incoming send_ok (fst (snd c))) (\<lambda>(p, _). Inr (fst c, p, snd (snd c))))"

definition server_pass :: "sorter \<Rightarrow> bool \<times> TCPServer \<times> OrderServer \<Rightarrow> (bool \<times> TCPServer \<times> OrderServer) res \<Rightarrow> bool" where
  "server_pass srt c r \<longleftrightarrow> (\<exists>ready connections incoming os incoming2 os2.
     r = bindR (order_server_round srt ready connections incoming os incoming2 os2 (fst (snd c)) (snd (snd c)))
       (\<lambda>(sv, s, _). Inr (fst c, sv, s)))"

definition gateway_pass :: "bool \<times> TCPSocket \<times> OrderGateway \<Rightarrow> (bool \<times> TCPSocket \<times> OrderGateway) res \<Rightarrow> bool" where
  "gateway_pass c r \<longleftrightarrow> (\<exists>incoming os.
     r = bindR (gateway_round incoming os (fst (snd c)) (snd (snd c))) (\<lambda>(sock, g, _). Inr (fst c, sock, g)))"

definition consumer_pass :: "bool \<times> MarketDataConsumer \<Rightarrow> (bool \<times> MarketDataConsumer) res \<Rightarrow> bool" where
  "consumer_pass c r \<longleftrightarrow> (\<exists>new_fd incremental snapshot.
     r = bindR (consumer_round new_fd incremental snapshot (snd c)) (\<lambda>s. Inr (fst c, s)))"

text \<open>Each destructor begins with \<open>stop\<close>, the engine's with the assignment itself.\<close>

definition engine_dtor_begin :: "bool \<times> MatchingEngine \<Rightarrow> bool \<times> MatchingEngine" where
  "engine_dtor_begin = (\<lambda>(is_running, e). (False, e))"

definition publisher_dtor_begin ::
    "bool \<times> MarketDataPublisher \<times> SnapshotSynthesizer \<Rightarrow> bool \<times> MarketDataPublisher \<times> SnapshotSynthesizer" where
  "publisher_dtor_begin = (\<lambda>(is_running, p, s).
     let (is_running', s') = publisher_stop (is_running, s) in (is_running', p, s'))"

definition server_dtor_begin :: "bool \<times> TCPServer \<times> OrderServer \<Rightarrow> bool \<times> TCPServer \<times> OrderServer" where
  "server_dtor_begin = (\<lambda>(is_running, s). (order_server_stop is_running, s))"

definition gateway_dtor_begin :: "bool \<times> TCPSocket \<times> OrderGateway \<Rightarrow> bool \<times> TCPSocket \<times> OrderGateway" where
  "gateway_dtor_begin = (\<lambda>(is_running, s). (gateway_stop is_running, s))"

definition consumer_dtor_begin :: "bool \<times> MarketDataConsumer \<Rightarrow> bool \<times> MarketDataConsumer" where
  "consumer_dtor_begin = (\<lambda>(is_running, s). (consumer_stop is_running, s))"

abbreviation engine_closing where
  "engine_closing joins \<equiv> closing_step joins fst engine_dtor_begin engine_pass engine_dtor_end"

abbreviation publisher_closing where
  "publisher_closing joins \<equiv> closing_step joins fst publisher_dtor_begin publisher_pass publisher_dtor_end"

abbreviation server_closing where
  "server_closing srt joins \<equiv> closing_step joins fst server_dtor_begin (server_pass srt) id"

abbreviation gateway_closing where
  "gateway_closing joins \<equiv> closing_step joins fst gateway_dtor_begin gateway_pass id"

abbreviation consumer_closing where
  "consumer_closing joins \<equiv> closing_step joins fst consumer_dtor_begin consumer_pass id"

lemmas closing_defs = engine_pass_def publisher_pass_def server_pass_def gateway_pass_def consumer_pass_def
  engine_dtor_begin_def publisher_dtor_begin_def server_dtor_begin_def gateway_dtor_begin_def consumer_dtor_begin_def
  publisher_stop_def order_server_stop_def gateway_stop_def consumer_stop_def

interpretation closing_engine: stoppable fst engine_dtor_begin engine_pass engine_dtor_end
  by unfold_locales (auto simp: closing_defs bindR_eq_Inr dest!: sym [of "Inr _"])

interpretation closing_publisher: stoppable fst publisher_dtor_begin publisher_pass publisher_dtor_end
  by unfold_locales (auto simp: closing_defs bindR_eq_Inr dest!: sym [of "Inr _"])

interpretation closing_server: stoppable fst server_dtor_begin "server_pass srt" id
  by unfold_locales (auto simp: closing_defs bindR_eq_Inr dest!: sym [of "Inr _"])

interpretation closing_gateway: stoppable fst gateway_dtor_begin gateway_pass id
  by unfold_locales (auto simp: closing_defs bindR_eq_Inr dest!: sym [of "Inr _"])

interpretation closing_consumer: stoppable fst consumer_dtor_begin consumer_pass id
  by unfold_locales (auto simp: closing_defs bindR_eq_Inr dest!: sym [of "Inr _"])

text \<open>
  While its destructor sleeps the engine's thread has at most two steps left, the end of the pass it
  is in and a test of the flag.
\<close>

lemma engine_sleep_is_short:
  assumes "(engine_closing joins)\<^sup>*\<^sup>* (in_use (True, e)) s" and "owner_at s = Asleep"
    and "((\<lambda>s s'. engine_closing joins s s' \<and> owner_at s' = Asleep) ^^ n) s s'"
  shows "n \<le> 2 \<and> (n = 2 \<longrightarrow> \<not> at_work s')"
proof -
  have "n + steps_left s' \<le> steps_left s"
    using closing_engine.steps_in_sleep [OF assms(3,2)] closing_engine.asleep_stopped [OF assms(1)] assms(2) by simp
  then show ?thesis by (auto simp: steps_left_def at_work_def split: if_splits)
qed


text \<open>An engine stopped in the middle of a pass: it ends the pass, tests the flag, and has left.\<close>

lemma demo_closing:
  assumes "engine_poll e = Inr e'"
  defines "s \<equiv> \<lparr>obj = (False, e), thread_at = Passing, owner_at = Asleep\<rparr>"
    and "s' \<equiv> \<lparr>obj = (False, e'), thread_at = Loop_left, owner_at = Asleep\<rparr>"
  shows "(engine_closing joins)\<^sup>*\<^sup>* (in_use (True, e)) s"
    and "((\<lambda>s s'. engine_closing joins s s' \<and> owner_at s' = Asleep) ^^ 2) s s'"
proof -
  let ?in = "(in_use (True, e))\<lparr>thread_at := Passing\<rparr>" and ?mid = "s\<lparr>obj := (False, e'), thread_at := Testing\<rparr>"
  have "engine_closing joins (in_use (True, e)) ?in" by (rule t_enter) simp_all
  moreover have "engine_closing joins ?in s"
    using o_stop [of ?in joins fst engine_dtor_begin] by (simp add: s_def engine_dtor_begin_def in_use_def)
  ultimately show "(engine_closing joins)\<^sup>*\<^sup>* (in_use (True, e)) s" by (meson r_into_rtranclp rtranclp_trans)
  have "engine_pass (obj s) (Inr (False, e'))" using assms(1) by (simp add: s_def engine_pass_def)
  then have "engine_closing joins s ?mid" by (intro t_pass) (simp_all add: s_def)
  moreover have "engine_closing joins ?mid (?mid\<lparr>thread_at := Loop_left\<rparr>)" by (rule t_leave) (simp_all add: s_def)
  ultimately show "((\<lambda>s s'. engine_closing joins s s' \<and> owner_at s' = Asleep) ^^ 2) s s'"
    by (auto simp: numeral_2_eq_2 s_def s'_def intro!: relcomppI)
qed


section \<open>The signal handler\<close>

text \<open>
  \<open>signal_handler\<close>, on the two globals it destroys. It is never registered.
\<close>

definition signal_handler :: "('f \<Rightarrow> string) \<Rightarrow> ('d \<Rightarrow> string) \<Rightarrow> ('f, 'd) Logger option \<times> (bool \<times> MatchingEngine) option \<Rightarrow>
    (('f, 'd) Logger option \<times> (bool \<times> MatchingEngine) option) res" where
  "signal_handler show_f show_d = (\<lambda>(logger, matching_engine).
     bindR (case logger of None \<Rightarrow> Inr None | Some lg \<Rightarrow> bindR (Logger_dtor show_f show_d lg) (\<lambda>_. Inr None)) (\<lambda>logger'.
     bindR (case matching_engine of None \<Rightarrow> Inr None
       | Some e \<Rightarrow> bindR (Inr (engine_dtor_end (engine_dtor_begin e))) (\<lambda>_. Inr None)) (\<lambda>matching_engine'.
     Inr (logger', matching_engine'))))"

text \<open>
  A log message that has filled the ring keeps the handler, and with it the process, from ending:
  it never comes to the engine.
\<close>

theorem signal_handler_hangs:
  assumes "lg_running lg" and "lfq_inv (lg_queue lg)" and "logger_log s args lg = Inr lg'"
    and "store_count (lg_queue lg) + length (log_elements s args) = ring_size (lg_queue lg)"
  shows "signal_handler show_f show_d (Some lg', engine) = Inl Diverges"
  using logger_burst_hangs [OF assms, of show_f show_d] by (simp add: signal_handler_def)

end
