(* ===== verification/Interleaving.thy ===== *)
theory Interleaving
  imports Exchange
begin

text \<open>
  The exchange under every schedule. Its three threads take turns in any order and number, with
  whatever the kernel gives them: the order server a round of its loop, the engine one pass, the
  publisher a round. What holds of every run is proved here; how two threads interleave inside one
  ring buffer is the subject of LFQueueConc.
\<close>

section \<open>Turns as steps\<close>

text \<open>
  What a turn shows: the requests the server handed over and the responses it took, and the
  updates the publisher took with the datagrams the network got.
\<close>

datatype exchange_event =
    Served "MEClientRequest list" "MEClientResponse list"
  | Matched
  | Published "MEMarketUpdate list" "u8 list list"

inductive exchange_step :: "sorter \<Rightarrow> exchange_event \<Rightarrow> Exchange \<Rightarrow> Exchange \<Rightarrow> bool" for srt :: sorter where
  Server: "server_turn srt ready connections incoming os incoming2 os2 x = Inr (x', out) \<Longrightarrow>
     client_requests x' = lfq_push_all (client_requests x) rs \<Longrightarrow>
     exchange_step srt (Served rs (lfq_list (client_responses x))) x x'"
| Engine: "engine_turn 1 x = Inr x' \<Longrightarrow> exchange_step srt Matched x x'"
| Publisher: "publisher_turn incoming send_ok x = Inr (x', sent) \<Longrightarrow>
     exchange_step srt (Published (lfq_list (market_updates x)) sent) x x'"

inductive_cases ServedE: "exchange_step srt (Served rs ps) x x'"
inductive_cases MatchedE: "exchange_step srt Matched x x'"
inductive_cases PublishedE: "exchange_step srt (Published us sent) x x'"

text \<open>
  No ring overflows in a turn. The code does not test this; an engine's pass sends at most one
  response and one update.
\<close>

fun turn_fits :: "Exchange \<Rightarrow> exchange_event \<Rightarrow> bool" where
  "turn_fits x (Served rs ps) \<longleftrightarrow> store_count (client_requests x) + length rs < ring_size (client_requests x)"
| "turn_fits x Matched \<longleftrightarrow> Suc (store_count (client_responses x)) < ring_size (client_responses x) \<and>
     Suc (store_count (market_updates x)) < ring_size (market_updates x)"
| "turn_fits x (Published us sent) \<longleftrightarrow> True"

inductive exchange_run :: "sorter \<Rightarrow> Exchange \<Rightarrow> exchange_event list \<Rightarrow> Exchange \<Rightarrow> bool"
  for srt :: sorter and x0 :: Exchange where
  run_start: "exchange_run srt x0 [] x0"
| run_turn: "exchange_run srt x0 evs x \<Longrightarrow> exchange_step srt ev x x' \<Longrightarrow> turn_fits x ev \<Longrightarrow>
     exchange_run srt x0 (evs @ [ev]) x'"

fun ev_requests :: "exchange_event \<Rightarrow> MEClientRequest list" where
  "ev_requests (Served rs ps) = rs"
| "ev_requests ev = []"

fun ev_responses :: "exchange_event \<Rightarrow> MEClientResponse list" where
  "ev_responses (Served rs ps) = ps"
| "ev_responses ev = []"

fun ev_updates :: "exchange_event \<Rightarrow> MEMarketUpdate list" where
  "ev_updates (Published us sent) = us"
| "ev_updates ev = []"

fun ev_sent :: "exchange_event \<Rightarrow> u8 list list" where
  "ev_sent (Published us sent) = sent"
| "ev_sent ev = []"

definition on_wire :: "exchange_event list \<Rightarrow> u8 list list" where
  "on_wire evs = concat (map ev_sent evs)"

text \<open>The kernel has refused no datagram.\<close>

fun ev_accepted :: "exchange_event \<Rightarrow> bool" where
  "ev_accepted (Published us sent) \<longleftrightarrow> us = [] \<or> sent \<noteq> []"
| "ev_accepted ev \<longleftrightarrow> True"

definition sequenced :: "exchange_event list \<Rightarrow> MEClientRequest list" where
  "sequenced evs = concat (map ev_requests evs)"

definition answered :: "exchange_event list \<Rightarrow> MEClientResponse list" where
  "answered evs = concat (map ev_responses evs)"

definition multicast_so_far :: "exchange_event list \<Rightarrow> MEMarketUpdate list" where
  "multicast_so_far evs = concat (map ev_updates evs)"

lemmas trace_defs = sequenced_def answered_def multicast_so_far_def

lemma trace_append [simp]:
  "sequenced (evs @ evs') = sequenced evs @ sequenced evs'" "answered (evs @ evs') = answered evs @ answered evs'"
  "multicast_so_far (evs @ evs') = multicast_so_far evs @ multicast_so_far evs'"
  by (simp_all add: trace_defs)

lemma trace_simps [simp]:
  "sequenced [] = []" "answered [] = []" "multicast_so_far [] = []"
  "sequenced (ev # evs) = ev_requests ev @ sequenced evs" "answered (ev # evs) = ev_responses ev @ answered evs"
  "multicast_so_far (ev # evs) = ev_updates ev @ multicast_so_far evs"
  by (simp_all add: trace_defs)

section \<open>The server's turn on any input\<close>

text \<open>What every callback keeps, the server keeps through a round.\<close>

lemma tcp_sendAndRecv_keeps:
  assumes "\<And>t s st s' st'. P st \<Longrightarrow> callback t s st = Inr (s', st') \<Longrightarrow> P st'"
    and "tcp_sendAndRecv incoming os callback s st = Inr (s', st', sent, got)" and "P st"
  shows "P st'"
  using assms(2,3) assms(1) [of st]
  by (auto simp: tcp_sendAndRecv_def Let_def bindR_eq_Inr split: prod.splits option.splits if_splits)

lemma sv_sendAndRecv_all_keep:
  assumes cb: "\<And>socket t s st s' st'. P st \<Longrightarrow> callback socket t s st = Inr (s', st') \<Longrightarrow> P st'"
    and run: "foldR (sv_sendAndRecv_one incoming os callback) ss z = Inr z'" and start: "P (fst (snd z))"
  shows "P (fst (snd z'))"
proof (rule foldR_invariant [where I = "\<lambda>z. P (fst (snd z))", OF _ start run])
  fix socket z z'
  assume start: "P (fst (snd z))" and step: "sv_sendAndRecv_one incoming os callback socket z = Inr z'"
  obtain sv st out recv where z: "z = (sv, st, out, recv)" by (cases z)
  obtain sock' st' sent got where one: "tcp_sendAndRecv (incoming socket) (os socket) (callback socket)
      (sv_heap sv socket) st = Inr (sock', st', sent, got)" and z': "fst (snd z') = st'"
    using step by (auto simp: sv_sendAndRecv_one_def z bindR_eq_Inr)
  have "P st'" by (rule tcp_sendAndRecv_keeps [OF _ one]) (use cb start z in \<open>simp_all\<close>)
  then show "P (fst (snd z'))" using z' by simp
qed

text \<open>
  A client the server knows: its number indexes the tables, and it has a socket. Every request on
  its way to the engine is of such a client, and a client once known stays known.
\<close>

definition registered :: "OrderServer \<Rightarrow> ClientId \<Rightarrow> bool" where
  "registered s c \<longleftrightarrow> unat c < ME_MAX_NUM_CLIENTS \<and> clientId_socket s (unat c) \<noteq> None"

definition admitted :: "OrderServer \<Rightarrow> MEClientRequest \<Rightarrow> bool" where
  "admitted s r \<longleftrightarrow> registered s (rq_clientId r) \<and> request_canonical r"

lemma admitted_mono: "(\<And>c. registered s c \<Longrightarrow> registered s' c) \<Longrightarrow> admitted s r \<Longrightarrow> admitted s' r"
  and admitted_cong: "registered s' = registered s \<Longrightarrow> admitted s' = admitted s"
  by (simp_all add: admitted_def fun_eq_iff)

definition serving :: "MEClientRequest LFQueue \<Rightarrow> MEClientRequest list \<Rightarrow> MEClientResponse LFQueue \<Rightarrow>
    ClientId set \<Rightarrow> OrderServer \<Rightarrow> bool" where
  "serving q rs ps C s \<longleftrightarrow> sq_incoming_requests (fifo_sequencer s) = lfq_push_all q rs \<and>
     (\<forall>r \<in> set rs. admitted s r) \<and>
     length (pending_client_requests (fifo_sequencer s)) \<le> ME_MAX_PENDING_REQUESTS \<and>
     (\<forall>p \<in> set (pending_client_requests (fifo_sequencer s)). admitted s (recv_request p)) \<and>
     (\<forall>c \<in> C. registered s c) \<and> os_client_responses s = ps"

lemma serving_grows:
  assumes "serving q rs ps C s" and "\<And>c. registered s c \<Longrightarrow> registered s' c"
    and "sq_incoming_requests (fifo_sequencer s') = sq_incoming_requests (fifo_sequencer s)"
    and "os_client_responses s' = os_client_responses s"
    and "length (pending_client_requests (fifo_sequencer s')) \<le> ME_MAX_PENDING_REQUESTS"
    and "\<And>p. p \<in> set (pending_client_requests (fifo_sequencer s')) \<Longrightarrow>
      p \<in> set (pending_client_requests (fifo_sequencer s)) \<or> admitted s' (recv_request p)"
  shows "serving q rs ps C s'"
proof -
  have "\<forall>p \<in> set (pending_client_requests (fifo_sequencer s')). admitted s' (recv_request p)"
    using assms(1,6) admitted_mono [of s s', OF assms(2)] unfolding serving_def by blast
  then show ?thesis using assms(1-5) admitted_mono [of s s', OF assms(2)] unfolding serving_def by simp
qed

lemma os_request_serving:
  assumes "serving q rs ps C s" and "os_request socket t m s = Inr s'" and canonical: "request_canonical (omrq_request m)"
  shows "serving q rs ps C s'"
proof -
  let ?r = "omrq_request m"
  let ?c = "unat (rq_clientId ?r)"
  define s1 where "s1 = (if clientId_socket s ?c = None
    then s\<lparr>clientId_socket := (clientId_socket s)(?c := Some socket)\<rparr> else s)"
  have c: "?c < ME_MAX_NUM_CLIENTS"
    using assms(2) by (auto simp: os_request_def Let_def bindR_eq_Inr arr_idx_def split: if_splits)
  have s1: "serving q rs ps C s1"
    by (rule serving_grows [OF assms(1)]) (use assms(1) in \<open>auto simp: registered_def s1_def serving_def\<close>)
  have known: "admitted s1 ?r" using c canonical by (simp add: admitted_def registered_def s1_def)
  let ?s2 = "s1\<lparr>clientId_outgoing_seqNum := (clientId_outgoing_seqNum s1)(?c := clientId_outgoing_seqNum s1 ?c + 1)\<rparr>"
  have "(if clientId_socket s1 ?c \<noteq> Some socket then Inr s1
      else if omrq_seq_num m \<noteq> clientId_outgoing_seqNum s1 ?c then Inr s1
      else bindR (addClientRequest t ?r (fifo_sequencer ?s2)) (\<lambda>fifo. Inr (?s2\<lparr>fifo_sequencer := fifo\<rparr>))) = Inr s'"
    using assms(2) unfolding os_request_def Let_def arr_idx_ok [OF c] bindR_Inr s1_def [symmetric] .
  then consider "s' = s1"
    | fifo where "addClientRequest t ?r (fifo_sequencer ?s2) = Inr fifo" "s' = ?s2\<lparr>fifo_sequencer := fifo\<rparr>"
    unfolding bindR_eq_Inr [symmetric] by (cases "addClientRequest t ?r (fifo_sequencer ?s2)") (auto split: if_splits)
  then show ?thesis
  proof cases
    case 2
    note f = addClientRequest_Inr [OF 2(1)]
    have pending: "pending_client_requests (fifo_sequencer s') =
        pending_client_requests (fifo_sequencer s1) @ [RecvTimeClientRequest t ?r]"
      and same: "registered s' = registered s1" "os_client_responses s' = os_client_responses s1"
        "sq_incoming_requests (fifo_sequencer s') = sq_incoming_requests (fifo_sequencer s1)"
      by (simp_all add: 2(2) f registered_def fun_eq_iff)
    show ?thesis
    proof (rule serving_grows [OF s1])
      fix p assume "p \<in> set (pending_client_requests (fifo_sequencer s'))"
      then show "p \<in> set (pending_client_requests (fifo_sequencer s1)) \<or> admitted s' (recv_request p)"
        using known admitted_cong [OF same(1)] by (auto simp: pending)
    next
      show "length (pending_client_requests (fifo_sequencer s')) \<le> ME_MAX_PENDING_REQUESTS"
        using 2(1) by (auto simp: pending addClientRequest_def FATAL_def split: if_splits)
    qed (simp_all add: same)
  qed (simp add: s1)
qed

lemma recvCallback_serving:
  assumes "serving q rs ps C s" and "recvCallback socket t sock s = Inr (sock', s')"
  shows "serving q rs ps C s'"
proof (cases "sizeof_OMClientRequest \<le> length (rcv_data sock)")
  case True
  let ?ms = "map decode_OMClientRequest (frames sizeof_OMClientRequest (rcv_data sock))"
  have run: "foldR (os_request socket t) ?ms s = Inr s'"
    using assms(2) True by (auto simp: recvCallback_def bindR_eq_Inr)
  have canonical: "request_canonical (omrq_request m)" if "m \<in> set ?ms" for m
    using that om_request.canonical_decode by auto
  show ?thesis
    by (rule foldR_invariant [where I = "serving q rs ps C", OF _ assms(1) run])
      (use os_request_serving canonical in blast)
qed (use assms in \<open>simp add: recvCallback_def\<close>)

lemma recvFinishedCallback_serving:
  assumes "std_sort srt" and "serving q [] ps C s"
  shows "\<exists>rs. length rs \<le> ME_MAX_PENDING_REQUESTS \<and> serving q rs ps C (recvFinishedCallback srt s)"
proof (cases "pending_client_requests (fifo_sequencer s) = []")
  case True
  then show ?thesis
    using assms(2) by (intro exI [of _ "[]"]) (simp add: recvFinishedCallback_def sequenceAndPublish_def)
next
  case False
  let ?ps = "pending_client_requests (fifo_sequencer s)" and ?s' = "recvFinishedCallback srt s"
  let ?rs = "map recv_request (srt ?ps)"
  have "registered ?s' = registered s" "pending_client_requests (fifo_sequencer ?s') = []"
    "os_client_responses ?s' = os_client_responses s" "sq_incoming_requests (fifo_sequencer ?s') = lfq_push_all q ?rs"
    using False assms(2)
    by (simp_all add: recvFinishedCallback_def sequenceAndPublish_def registered_def fun_eq_iff serving_def)
  moreover have "\<forall>r \<in> set ?rs. admitted s r" "length ?rs \<le> ME_MAX_PENDING_REQUESTS"
    using assms(2) std_sort.sort_set [OF assms(1)] std_sort.sort_length [OF assms(1)] by (auto simp: serving_def)
  moreover note admitted_cong [OF calculation(1)]
  ultimately show ?thesis
    using assms(2) unfolding serving_def by (intro exI [of _ ?rs]) auto
qed

text \<open>A round of reading and writing, on any input: at most one batch of requests is handed over.\<close>

lemma sv_sendAndRecv_serving:
  assumes srt: "std_sort srt" and start: "serving q [] ps C s"
    and run: "sv_sendAndRecv incoming os incoming2 os2 recvCallback (recvFinishedCallback srt) sv s = Inr (sv', s', out, recv)"
  shows "\<exists>rs. length rs \<le> ME_MAX_PENDING_REQUESTS \<and> serving q rs ps C s'"
proof -
  obtain sv1 s1 out1 recv1 where
    one: "foldR (sv_sendAndRecv_one incoming os recvCallback) (recv_sockets sv) (sv, s, [], False) = Inr (sv1, s1, out1, recv1)"
    and two: "foldR (sv_sendAndRecv_one incoming2 os2 recvCallback) (send_sockets sv1)
      (sv1, if recv1 then recvFinishedCallback srt s1 else s1, out1, recv1) = Inr (sv', s', out, recv)"
    using run by (auto simp: sv_sendAndRecv_def bindR_eq_Inr)
  have "serving q [] ps C (fst (snd (sv1, s1, out1, recv1)))"
    by (rule sv_sendAndRecv_all_keep [OF recvCallback_serving one]) (simp_all add: start)
  then have s1: "serving q [] ps C s1" by simp
  have "\<exists>rs. length rs \<le> ME_MAX_PENDING_REQUESTS \<and>
      serving q rs ps C (if recv1 then recvFinishedCallback srt s1 else s1)"
    using recvFinishedCallback_serving [OF srt s1] s1
    by (cases recv1) (simp, intro exI [of _ "[]"], simp)
  then obtain rs where rs: "length rs \<le> ME_MAX_PENDING_REQUESTS"
    and mid: "serving q rs ps C (if recv1 then recvFinishedCallback srt s1 else s1)" by blast
  have "serving q rs ps C (fst (snd (sv', s', out, recv)))"
    by (rule sv_sendAndRecv_all_keep [OF recvCallback_serving two]) (simp_all add: mid)
  then show ?thesis using rs by auto
qed

text \<open>Sending the responses changes neither who is registered nor the sequencer.\<close>

lemma os_send_response_keeps:
  assumes "os_send_response r (s, socks) = Inr (s', socks')"
  shows "registered s' = registered s \<and> fifo_sequencer s' = fifo_sequencer s \<and>
    os_client_responses s' = os_client_responses s"
  using assms
  by (auto simp: os_send_response_def Let_def bindR_eq_Inr ASSERT_eq_Inr registered_def fun_eq_iff)

lemma os_send_responses_keep:
  assumes "lfq_inv (os_client_responses s)" and "os_send_responses (s, socks) = Inr (s', socks')"
  shows "registered s' = registered s \<and> fifo_sequencer s' = fifo_sequencer s \<and>
    os_client_responses s' = lfq_emptied (os_client_responses s)"
proof -
  obtain s1 where run: "foldR os_send_response (lfq_list (os_client_responses s)) (s, socks) = Inr (s1, socks')"
    and s': "s' = s1\<lparr>os_client_responses := lfq_emptied (os_client_responses s)\<rparr>"
    using assms by (auto simp: os_send_responses_def lfq_drain_eq bindR_eq_Inr)
  let ?I = "\<lambda>(s1, socks1 :: nat \<Rightarrow> TCPSocket). registered s1 = registered s \<and> fifo_sequencer s1 = fifo_sequencer s"
  have "?I (s1, socks')"
  proof (rule foldR_invariant [where I = ?I, OF _ _ run])
    fix r z z' assume "?I z" and "os_send_response r z = Inr z'"
    then show "?I z'" using os_send_response_keeps by (cases z; cases z') auto
  qed simp
  then show ?thesis by (simp add: s' registered_def fun_eq_iff)
qed

definition pending_known :: "OrderServer \<Rightarrow> bool" where
  "pending_known s \<longleftrightarrow> length (pending_client_requests (fifo_sequencer s)) \<le> ME_MAX_PENDING_REQUESTS \<and>
     (\<forall>p \<in> set (pending_client_requests (fifo_sequencer s)). admitted s (recv_request p))"

lemma server_turn_serves:
  assumes srt: "std_sort srt" and known: "pending_known (order_server x)" and ps: "lfq_inv (client_responses x)"
    and turn: "server_turn srt ready connections incoming os incoming2 os2 x = Inr (x', out)"
  shows "\<exists>rs. client_requests x' = lfq_push_all (client_requests x) rs \<and> length rs \<le> ME_MAX_PENDING_REQUESTS \<and>
    (\<forall>r \<in> set rs. admitted (order_server x') r) \<and> pending_known (order_server x') \<and>
    (\<forall>c. registered (order_server x) c \<longrightarrow> registered (order_server x') c) \<and>
    client_responses x' = lfq_emptied (client_responses x) \<and> matching_engine x' = matching_engine x \<and>
    market_data_publisher x' = market_data_publisher x \<and> market_updates x' = market_updates x"
proof -
  let ?C = "{c. registered (order_server x) c}"
  let ?P = "\<lambda>rs. serving (client_requests x) rs (client_responses x) ?C"
  let ?s = "(order_server x)\<lparr>fifo_sequencer := (fifo_sequencer (order_server x))
      \<lparr>sq_incoming_requests := client_requests x\<rparr>, os_client_responses := client_responses x\<rparr>"
  obtain sv s' where round: "order_server_round srt ready connections incoming os incoming2 os2 (tcp_server x) ?s = Inr (sv, s', out)"
    and x': "x' = x\<lparr>tcp_server := sv, order_server := s', client_requests := sq_incoming_requests (fifo_sequencer s'),
      client_responses := os_client_responses s'\<rparr>"
    using turn by (auto simp: server_turn_def Let_def bindR_eq_Inr)
  obtain sv1 sv2 s2 recv heap where
    io: "sv_sendAndRecv incoming os incoming2 os2 recvCallback (recvFinishedCallback srt) sv1 ?s = Inr (sv2, s2, out, recv)"
    and send: "os_send_responses (s2, sv_heap sv2) = Inr (s', heap)"
    using round by (auto simp: order_server_round_def bindR_eq_Inr)
  have reg: "registered ?s = registered (order_server x)" by (simp add: registered_def fun_eq_iff)
  have start: "?P [] ?s" using known unfolding serving_def pending_known_def reg admitted_cong [OF reg] by simp
  obtain rs where rs: "length rs \<le> ME_MAX_PENDING_REQUESTS" "?P rs s2"
    using sv_sendAndRecv_serving [OF srt start io] by blast
  then have "os_client_responses s2 = client_responses x" by (simp add: serving_def)
  then have s': "registered s' = registered s2" "fifo_sequencer s' = fifo_sequencer s2"
    "os_client_responses s' = lfq_emptied (client_responses x)"
    using os_send_responses_keep [OF _ send] ps by simp_all
  show ?thesis
    using rs unfolding serving_def pending_known_def x' by (auto simp: s' admitted_cong [OF s'(1)])
qed

text \<open>So every turn the server completes is a step: nothing is left out.\<close>

lemma server_turn_is_step:
  assumes "std_sort srt" and "pending_known (order_server x)" and "lfq_inv (client_responses x)"
    and turn: "server_turn srt ready connections incoming os incoming2 os2 x = Inr (x', out)"
  shows "\<exists>rs. exchange_step srt (Served rs (lfq_list (client_responses x))) x x'"
  using server_turn_serves [OF assms] exchange_step.Server [OF turn] by blast

section \<open>One pass of the engine\<close>

lemma engine_turn_one:
  assumes inv: "engine_inv (matching_engine x)" and q: "lfq_inv (client_requests x)"
  shows "case lfq_list (client_requests x) of
      [] \<Rightarrow> \<exists>e. engine_turn 1 x = Inr (x\<lparr>matching_engine := e\<rparr>) \<and> engine_inv e \<and> abs_engine e = abs_engine (matching_engine x)
    | r # rs \<Rightarrow> (case spec_process r (abs_engine (matching_engine x)) of
          Inl f \<Rightarrow> engine_turn 1 x = Inl f
        | Inr (B, ps, us) \<Rightarrow> \<exists>e. engine_inv e \<and> abs_engine e = B \<and>
            engine_turn 1 x = Inr (x\<lparr>matching_engine := e, client_requests := lfq_pop (client_requests x),
              client_responses := lfq_push_all (client_responses x) ps,
              market_updates := lfq_push_all (market_updates x) us\<rparr>))"
proof -
  let ?e = "(matching_engine x)\<lparr>incoming_requests := client_requests x,
    engine_io := \<lparr>outgoing_responses = client_responses x, outgoing_market_updates = market_updates x\<rparr>\<rparr>"
  have e: "engine_inv ?e" "abs_engine ?e = abs_engine (matching_engine x)" "lfq_inv (incoming_requests ?e)"
    using inv q by (simp_all add: engine_inv_def abs_engine_def)
  show ?thesis
  proof (cases "lfq_list (client_requests x)")
    case Nil
    then show ?thesis using engine_poll_Nil [of ?e] e by (auto simp: engine_turn_def)
  next
    case (Cons r rs)
    have poll: "engine_poll ?e = bindR (processClientRequest r ?e) (\<lambda>e'. Inr (e'\<lparr>incoming_requests := lfq_pop (client_requests x)\<rparr>))"
      using engine_poll_Cons [OF e(3), of r rs] Cons by simp
    note step = processClientRequest_implements [OF e(1), of r, unfolded e(2)]
    show ?thesis
    proof (cases "spec_process r (abs_engine (matching_engine x))")
      case (Inl f)
      then show ?thesis using step Cons by (simp add: engine_implements_def engine_turn_def poll)
    next
      case (Inr z)
      obtain B ps us where z: "z = (B, ps, us)" by (cases z)
      then obtain e' where run: "processClientRequest r ?e = Inr e'" and e': "abs_engine e' = B" "engine_inv e'"
        "engine_io e' = io_after (engine_io ?e) ps us"
        using step Inr by (auto simp: engine_implements_def)
      let ?e' = "e'\<lparr>incoming_requests := lfq_pop (client_requests x)\<rparr>"
      have "engine_inv ?e'" "abs_engine ?e' = B" using e' by (simp_all add: engine_inv_def abs_engine_def)
      moreover have "engine_turn 1 x = Inr (x\<lparr>matching_engine := ?e', client_requests := lfq_pop (client_requests x),
          client_responses := lfq_push_all (client_responses x) ps, market_updates := lfq_push_all (market_updates x) us\<rparr>)"
        by (simp add: engine_turn_def poll run e'(3) io_after_def)
      ultimately show ?thesis using Cons Inr z by auto
    qed
  qed
qed

section \<open>A round of the publisher\<close>

lemma mc_send_Inr: "mc_send data s = Inr s' \<Longrightarrow> s' = s\<lparr>outbound_data := outbound_data s @ data\<rparr>"
  by (auto simp: mc_send_def Let_def ASSERT_eq_Inr split: if_splits)

lemma publish_update_Inr:
  "publish_update u (n, sock) = Inr z \<Longrightarrow> z = (n + 1, sock\<lparr>outbound_data := outbound_data sock @
     encode_MDPMarketUpdate \<lparr>mdp_seq_num = n, mdp_update = u\<rparr>\<rparr>)"
  by (auto simp: publish_update_def bindR_eq_Inr dest!: mc_send_Inr simp flip: encode_numbered)

lemma publish_all_Inr:
  "foldR publish_update us (n, sock) = Inr z \<Longrightarrow> z = (n + of_nat (length us),
     sock\<lparr>outbound_data := outbound_data sock @ update_stream (numbered_updates n us)\<rparr>)"
proof (induction us arbitrary: n sock)
  case (Cons u us)
  then obtain z1 where one: "publish_update u (n, sock) = Inr z1" and rest: "foldR publish_update us z1 = Inr z"
    by (auto simp: bindR_eq_Inr)
  note z1 = publish_update_Inr [OF one]
  show ?case using Cons.IH [OF rest [unfolded z1]] by (simp add: algebra_simps)
qed simp

text \<open>
  A round that ends takes every update, numbers them on, and sends the one datagram with all of
  them, or none when there is nothing to send or the kernel refuses it.
\<close>

lemma publisher_turn_any:
  assumes q: "lfq_inv (market_updates x)" and empty: "outbound_data (incremental_socket (market_data_publisher x)) = []"
    and turn: "publisher_turn incoming send_ok x = Inr (x', sent)"
  shows "\<exists>p. x' = x\<lparr>market_data_publisher := p, market_updates := lfq_emptied (market_updates x)\<rparr> \<and>
    outbound_data (incremental_socket p) = [] \<and>
    next_inc_seq_num p = next_inc_seq_num (market_data_publisher x) + of_nat (length (lfq_list (market_updates x))) \<and>
    sent \<in> {[], [update_stream (numbered_updates (next_inc_seq_num (market_data_publisher x)) (lfq_list (market_updates x)))]}"
proof -
  let ?p = "market_data_publisher x" and ?us = "lfq_list (market_updates x)"
  obtain p where round: "publisher_round incoming send_ok (?p\<lparr>outgoing_md_updates := market_updates x\<rparr>) = Inr (p, sent)"
    and x': "x' = x\<lparr>market_data_publisher := p, market_updates := outgoing_md_updates p\<rparr>"
    using turn by (auto simp: publisher_turn_def bindR_eq_Inr)
  obtain n sock sock' r where pub: "foldR publish_update ?us (next_inc_seq_num ?p, incremental_socket ?p) = Inr (n, sock)"
    and io: "mc_sendAndRecv incoming send_ok (None :: unit mc_callback) sock () = Inr (sock', (), sent, r)"
    and p: "p = ?p\<lparr>next_inc_seq_num := n, outgoing_md_updates := lfq_emptied (market_updates x), incremental_socket := sock'\<rparr>"
    using round q by (auto simp: publisher_round_def lfq_drain_eq bindR_eq_Inr)
  have "n = next_inc_seq_num ?p + of_nat (length ?us)"
    and out: "outbound_data sock = update_stream (numbered_updates (next_inc_seq_num ?p) ?us)"
    using publish_all_Inr [OF pub] empty by simp_all
  moreover have "outbound_data sock' = []" "sent \<in> {[], [outbound_data sock]}"
    using io by (auto simp: mc_sendAndRecv_def Let_def bindR_eq_Inr split: if_splits)
  ultimately show ?thesis by (auto simp: x' p)
qed

section \<open>What every run keeps\<close>

text \<open>
  The invariant relates a state to what its run has shown. The abstract engine, given the requests
  handed over so far but those that still wait, gives the engine's books, the responses taken and
  waiting, and the updates multicast and waiting.
\<close>

definition books_follow :: "Exchange \<Rightarrow> exchange_event list \<Rightarrow> Exchange \<Rightarrow> bool" where
  "books_follow x0 evs x \<longleftrightarrow> (\<exists>processed. sequenced evs = processed @ lfq_list (client_requests x) \<and>
     spec_requests processed (abs_engine (matching_engine x0)) = Inr (abs_engine (matching_engine x),
       answered evs @ lfq_list (client_responses x), multicast_so_far evs @ lfq_list (market_updates x)))"

definition rings_usable :: "Exchange \<Rightarrow> bool" where
  "rings_usable x \<longleftrightarrow> lfq_inv (client_requests x) \<and> lfq_inv (client_responses x) \<and> lfq_inv (market_updates x) \<and>
     engine_inv (matching_engine x) \<and> outbound_data (incremental_socket (market_data_publisher x)) = []"

definition clients_known :: "Exchange \<Rightarrow> bool" where
  "clients_known x \<longleftrightarrow> pending_known (order_server x) \<and>
     (\<forall>r \<in> set (lfq_list (client_requests x)). admitted (order_server x) r) \<and>
     (\<forall>r \<in> set (lfq_list (client_responses x)). registered (order_server x) (rs_clientId r))"

text \<open>An exchange in which nothing has happened yet, as \<open>main\<close> leaves it.\<close>

definition idle_exchange :: "Exchange \<Rightarrow> bool" where
  "idle_exchange x \<longleftrightarrow> rings_usable x \<and> lfq_list (client_requests x) = [] \<and> lfq_list (client_responses x) = [] \<and>
     lfq_list (market_updates x) = [] \<and> pending_client_requests (fifo_sequencer (order_server x)) = []"

lemma exchange_main_fields:
  assumes "exchange_main new_fd = Inr x"
  shows "client_requests x = LFQueue_ctor ME_MAX_CLIENT_UPDATES MEClientRequest_default"
    "client_responses x = LFQueue_ctor ME_MAX_CLIENT_UPDATES MEClientResponse_default"
    "market_updates x = LFQueue_ctor ME_MAX_MARKET_UPDATES MEMarketUpdate_default"
    "tcp_server x = TCPServer_ctor" "order_server x = OrderServer_ctor (client_requests x) (client_responses x)"
    "\<exists>io. matching_engine x = MatchingEngine_ctor (client_requests x) io"
    "outbound_data (incremental_socket (market_data_publisher x)) = []" "next_inc_seq_num (market_data_publisher x) = 1"
  using assms by (auto simp: exchange_main_def MarketDataPublisher_ctor_def mc_init_def MulticastSocket_ctor_def
      Let_def ASSERT_eq_Inr bindR_eq_Inr)

lemma idle_exchange_main:
  assumes "exchange_main new_fd = Inr x"
  shows "idle_exchange (x\<lparr>tcp_server := sv\<rparr>)"
  using exchange_main_fields [OF assms]
  by (auto simp: idle_exchange_def rings_usable_def limit_defs OrderServer_ctor_def FIFOSequencer_ctor_def)

lemma idle_start:
  assumes "idle_exchange x"
  shows "books_follow x [] x" "clients_known x"
  using assms by (simp_all add: idle_exchange_def books_follow_def clients_known_def pending_known_def)

text \<open>A ring with room shows what was pushed.\<close>

lemma same_push:
  assumes "lfq_push_all q rs = lfq_push_all q rs'" and "lfq_inv q" and "store_count q + length rs < ring_size q"
    and "length rs' \<le> ME_MAX_PENDING_REQUESTS"
  shows "rs' = rs"
proof -
  have count: "store_count (lfq_push_all q xs) mod 2 ^ 64 = (store_count q + length xs) mod 2 ^ 64"
    for xs and q :: "'a LFQueue"
    by (induction xs arbitrary: q)
      (simp_all add: lfq_push_def updateNextToWriteTo_def writeNext_def mod_simps)
  have small: "store_count q < 2 ^ 64" "length rs' < 2 ^ 64" "length rs < 2 ^ 64"
    using assms(2-4) by (simp_all add: lfq_inv_def ME_MAX_PENDING_REQUESTS_def)
  have "(store_count q + length rs') mod 2 ^ 64 = (store_count q + length rs) mod 2 ^ 64"
    unfolding count [symmetric] assms(1) ..
  then have len: "length rs' = length rs" using small by (rule mod_add_inj)
  have "lfq_list (lfq_push_all q rs) = lfq_list q @ rs" "lfq_list (lfq_push_all q rs') = lfq_list q @ rs'"
    using lfq_push_all_list [OF assms(2)] assms(3) len by simp_all
  then show ?thesis unfolding assms(1) by simp
qed

text \<open>What one step does, as lists.\<close>

lemma Served_effect:
  assumes srt: "std_sort srt" and step: "exchange_step srt (Served rs ps) x x'" and fits: "turn_fits x (Served rs ps)"
    and rings: "rings_usable x" and known: "clients_known x"
  shows "ps = lfq_list (client_responses x) \<and> lfq_list (client_responses x') = [] \<and> matching_engine x' = matching_engine x \<and>
      market_updates x' = market_updates x \<and> market_data_publisher x' = market_data_publisher x"
    "lfq_list (client_requests x') = lfq_list (client_requests x) @ rs" "rings_usable x'" "clients_known x'"
    "registered (order_server x) c \<Longrightarrow> registered (order_server x') c" "\<forall>r \<in> set rs. request_canonical r"
proof -
  obtain ready connections incoming os incoming2 os2 out where
    turn: "server_turn srt ready connections incoming os incoming2 os2 x = Inr (x', out)"
    and push: "client_requests x' = lfq_push_all (client_requests x) rs"
    and ps: "ps = lfq_list (client_responses x)"
    using step by (elim ServedE) blast
  have inv: "pending_known (order_server x)" "lfq_inv (client_responses x)" "lfq_inv (client_requests x)"
    using rings known by (simp_all add: rings_usable_def clients_known_def)
  obtain rs' where rs': "client_requests x' = lfq_push_all (client_requests x) rs'" "length rs' \<le> ME_MAX_PENDING_REQUESTS"
      "\<forall>r \<in> set rs'. admitted (order_server x') r" "pending_known (order_server x')"
    and mono: "\<forall>c. registered (order_server x) c \<longrightarrow> registered (order_server x') c"
    and same: "client_responses x' = lfq_emptied (client_responses x)" "matching_engine x' = matching_engine x"
      "market_data_publisher x' = market_data_publisher x" "market_updates x' = market_updates x"
    using server_turn_serves [OF srt inv(1,2) turn] by blast
  have "rs' = rs" using same_push [OF _ inv(3)] push rs'(1,2) fits by simp
  moreover note list = lfq_push_all_list [OF inv(3), of rs]
  ultimately show "lfq_list (client_requests x') = lfq_list (client_requests x) @ rs" "clients_known x'"
    "\<forall>r \<in> set rs. request_canonical r"
    using fits rs' known admitted_mono [of "order_server x" "order_server x'"] mono
    by (auto simp: push same clients_known_def admitted_def)
  show "rings_usable x'" using rings list fits by (simp add: rings_usable_def push same)
  show "registered (order_server x) c \<Longrightarrow> registered (order_server x') c" using mono by blast
  show "ps = lfq_list (client_responses x) \<and> lfq_list (client_responses x') = [] \<and> matching_engine x' = matching_engine x \<and>
      market_updates x' = market_updates x \<and> market_data_publisher x' = market_data_publisher x"
    by (simp add: same ps)
qed

lemma spec_process_client:
  "spec_process r B = Inr (B', ps, us) \<Longrightarrow> p \<in> set ps \<Longrightarrow> rs_clientId p = rq_clientId r"
  by (auto simp: spec_process_def spec_add_def spec_cancel_def Let_def bindR_eq_Inr message_defs
      split: if_splits option.splits ClientRequestType.splits)

definition engine_follows :: "Exchange \<Rightarrow> Exchange \<Rightarrow> bool" where
  "engine_follows x x' \<longleftrightarrow> (\<exists>rs ps us. lfq_list (client_requests x) = rs @ lfq_list (client_requests x') \<and>
       spec_requests rs (abs_engine (matching_engine x)) = Inr (abs_engine (matching_engine x'), ps, us) \<and>
       lfq_list (client_responses x') = lfq_list (client_responses x) @ ps \<and>
       lfq_list (market_updates x') = lfq_list (market_updates x) @ us)"

lemma Matched_effect:
  assumes step: "exchange_step srt Matched x x'" and fits: "turn_fits x Matched"
    and rings: "rings_usable x" and known: "clients_known x"
  shows "engine_follows x x'"
    and "market_data_publisher x' = market_data_publisher x \<and> order_server x' = order_server x"
    and "rings_usable x'" and "clients_known x'"
proof -
  have turn: "engine_turn 1 x = Inr x'" using step by (elim MatchedE) simp
  have inv: "engine_inv (matching_engine x)" "lfq_inv (client_requests x)" "lfq_inv (client_responses x)"
      "lfq_inv (market_updates x)" "outbound_data (incremental_socket (market_data_publisher x)) = []"
    using rings by (simp_all add: rings_usable_def)
  note one = engine_turn_one [OF inv(1,2)]
  have "engine_follows x x' \<and>
    (market_data_publisher x' = market_data_publisher x \<and> order_server x' = order_server x) \<and>
    rings_usable x' \<and> clients_known x'"
  proof (cases "lfq_list (client_requests x)")
    case Nil
    then obtain e where "x' = x\<lparr>matching_engine := e\<rparr>" "engine_inv e" "abs_engine e = abs_engine (matching_engine x)"
      using one turn by auto
    then show ?thesis using Nil inv known by (simp add: rings_usable_def clients_known_def engine_follows_def)
  next
    case (Cons r rs)
    obtain B ps us where spec: "spec_process r (abs_engine (matching_engine x)) = Inr (B, ps, us)"
      using one turn Cons by (cases "spec_process r (abs_engine (matching_engine x))") auto
    then obtain e where e: "engine_inv e" "abs_engine e = B" and x': "x' = x\<lparr>matching_engine := e,
        client_requests := lfq_pop (client_requests x), client_responses := lfq_push_all (client_responses x) ps,
        market_updates := lfq_push_all (market_updates x) us\<rparr>"
      using one turn Cons by auto
    have len: "length ps \<le> 1" "length us \<le> 1" using spec_process_lengths [OF spec] by simp_all
    have "store_count (client_requests x) \<noteq> 0" using Cons length_lfq_list [of "client_requests x"] by auto
    note pop = lfq_pop_list [OF inv(2) this]
    have ps: "lfq_list (lfq_push_all (client_responses x) ps) = lfq_list (client_responses x) @ ps"
      "lfq_inv (lfq_push_all (client_responses x) ps)"
      using lfq_push_all_list [OF inv(3), of ps] len fits by simp_all
    have us: "lfq_list (lfq_push_all (market_updates x) us) = lfq_list (market_updates x) @ us"
      "lfq_inv (lfq_push_all (market_updates x) us)"
      using lfq_push_all_list [OF inv(4), of us] len fits by simp_all
    have "spec_requests [r] (abs_engine (matching_engine x)) = Inr (abs_engine e, ps, us)" by (simp add: spec e(2))
    moreover have "\<forall>p \<in> set ps. registered (order_server x) (rs_clientId p)"
      using spec_process_client [OF spec] known Cons by (auto simp: clients_known_def admitted_def)
    ultimately show ?thesis
      using Cons pop ps us inv e known
      by (auto simp: x' rings_usable_def clients_known_def engine_follows_def intro!: exI [of _ "[r]"])
  qed
  then show "engine_follows x x'"
    and "market_data_publisher x' = market_data_publisher x \<and> order_server x' = order_server x"
    and "rings_usable x'" and "clients_known x'" by simp_all
qed

lemma Published_effect:
  assumes step: "exchange_step srt (Published us sent) x x'" and rings: "rings_usable x" and known: "clients_known x"
  shows "us = lfq_list (market_updates x)" and "lfq_list (market_updates x') = []"
    and "sent \<in> {[], [update_stream (numbered_updates (next_inc_seq_num (market_data_publisher x)) us)]}"
    and "next_inc_seq_num (market_data_publisher x') = next_inc_seq_num (market_data_publisher x) + of_nat (length us)"
    and "client_requests x' = client_requests x \<and> client_responses x' = client_responses x \<and>
      matching_engine x' = matching_engine x \<and> order_server x' = order_server x"
    and "rings_usable x'" and "clients_known x'"
proof -
  obtain incoming send_ok where turn: "publisher_turn incoming send_ok x = Inr (x', sent)"
    and us: "us = lfq_list (market_updates x)"
    using step by (elim PublishedE) blast
  have inv: "lfq_inv (market_updates x)" "outbound_data (incremental_socket (market_data_publisher x)) = []"
    using rings by (simp_all add: rings_usable_def)
  obtain p where x': "x' = x\<lparr>market_data_publisher := p, market_updates := lfq_emptied (market_updates x)\<rparr>"
    and p: "outbound_data (incremental_socket p) = []"
      "next_inc_seq_num p = next_inc_seq_num (market_data_publisher x) + of_nat (length us)"
    and sent: "sent \<in> {[], [update_stream (numbered_updates (next_inc_seq_num (market_data_publisher x)) us)]}"
    using publisher_turn_any [OF inv turn] unfolding us by blast
  show "rings_usable x'" "clients_known x'"
    using rings known p(1) by (simp_all add: x' rings_usable_def clients_known_def)
  show "us = lfq_list (market_updates x)" by (rule us)
  show "sent \<in> {[], [update_stream (numbered_updates (next_inc_seq_num (market_data_publisher x)) us)]}" by (rule sent)
  show "lfq_list (market_updates x') = []"
    and "next_inc_seq_num (market_data_publisher x') = next_inc_seq_num (market_data_publisher x) + of_nat (length us)"
    and "client_requests x' = client_requests x \<and> client_responses x' = client_responses x \<and>
      matching_engine x' = matching_engine x \<and> order_server x' = order_server x"
    using p(2) by (simp_all add: x')
qed

text \<open>The invariant, kept by every turn.\<close>

definition run_inv :: "Exchange \<Rightarrow> exchange_event list \<Rightarrow> Exchange \<Rightarrow> bool" where
  "run_inv x0 evs x \<longleftrightarrow> books_follow x0 evs x \<and> rings_usable x \<and> clients_known x \<and>
     (\<forall>r \<in> set (sequenced evs). request_canonical r) \<and>
     next_inc_seq_num (market_data_publisher x) =
       next_inc_seq_num (market_data_publisher x0) + of_nat (length (multicast_so_far evs))"

lemma run_inv_step:
  assumes srt: "std_sort srt" and inv: "run_inv x0 evs x" and step: "exchange_step srt ev x x'" and fits: "turn_fits x ev"
  shows "run_inv x0 (evs @ [ev]) x'"
proof -
  have x: "rings_usable x" "clients_known x" using inv by (simp_all add: run_inv_def)
  obtain processed where seq: "sequenced evs = processed @ lfq_list (client_requests x)"
    and spec: "spec_requests processed (abs_engine (matching_engine x0)) = Inr (abs_engine (matching_engine x),
       answered evs @ lfq_list (client_responses x), multicast_so_far evs @ lfq_list (market_updates x))"
    using inv by (auto simp: run_inv_def books_follow_def)
  show ?thesis
  proof (cases ev)
    case (Served rs ps)
    note effect = Served_effect [OF srt step [unfolded Served] fits [unfolded Served] x]
    then have "books_follow x0 (evs @ [ev]) x'"
      using seq spec by (auto simp: books_follow_def Served intro!: exI [of _ processed])
    then show ?thesis using effect inv by (auto simp: run_inv_def Served)
  next
    case Matched
    note effect = Matched_effect [OF step [unfolded Matched] fits [unfolded Matched] x]
    from effect(1) obtain rs ps us where "lfq_list (client_requests x) = rs @ lfq_list (client_requests x')"
      and "spec_requests rs (abs_engine (matching_engine x)) = Inr (abs_engine (matching_engine x'), ps, us)"
      and "lfq_list (client_responses x') = lfq_list (client_responses x) @ ps"
      and "lfq_list (market_updates x') = lfq_list (market_updates x) @ us"
      unfolding engine_follows_def by blast
    then have "books_follow x0 (evs @ [ev]) x'"
      using seq spec by (auto simp: books_follow_def Matched spec_requests_append intro!: exI [of _ "processed @ rs"])
    then show ?thesis using effect(2-4) inv by (simp add: run_inv_def Matched)
  next
    case (Published us sent)
    note effect = Published_effect [OF step [unfolded Published] x]
    then have "books_follow x0 (evs @ [ev]) x'"
      using seq spec by (auto simp: books_follow_def Published intro!: exI [of _ processed])
    then show ?thesis using effect(4,6,7) inv by (simp add: run_inv_def Published algebra_simps)
  qed
qed

lemma run_inv_run:
  assumes "std_sort srt" and "idle_exchange x0" and "exchange_run srt x0 evs x"
  shows "run_inv x0 evs x"
  using assms(3)
proof induction
  case run_start
  then show ?case using assms(2) idle_start by (simp add: run_inv_def idle_exchange_def)
next
  case (run_turn evs x ev x')
  then show ?case using run_inv_step [OF assms(1)] by blast
qed

section \<open>Catching up\<close>

text \<open>One pass more, as a turn of a run, when the abstract engine does not fail on the first request.\<close>

lemma run_matches_one:
  assumes run: "exchange_run srt x0 evs x" and rings: "rings_usable x"
    and list: "lfq_list (client_requests x) = r # rs"
    and spec: "spec_process r (abs_engine (matching_engine x)) = Inr (B, ps, us)"
    and room: "Suc (store_count (client_responses x)) < ring_size (client_responses x)"
      "Suc (store_count (market_updates x)) < ring_size (market_updates x)"
  shows "\<exists>x'. exchange_run srt x0 (evs @ [Matched]) x' \<and> lfq_list (client_requests x') = rs \<and>
    abs_engine (matching_engine x') = B \<and> ring_size (client_responses x') = ring_size (client_responses x) \<and>
    ring_size (market_updates x') = ring_size (market_updates x) \<and>
    store_count (client_responses x') \<le> Suc (store_count (client_responses x)) \<and>
    store_count (market_updates x') \<le> Suc (store_count (market_updates x))"
proof -
  have inv: "engine_inv (matching_engine x)" "lfq_inv (client_requests x)" "lfq_inv (client_responses x)"
    "lfq_inv (market_updates x)" using rings by (simp_all add: rings_usable_def)
  obtain e where e: "abs_engine e = B"
    and turn: "engine_turn 1 x = Inr (x\<lparr>matching_engine := e, client_requests := lfq_pop (client_requests x),
      client_responses := lfq_push_all (client_responses x) ps, market_updates := lfq_push_all (market_updates x) us\<rparr>)"
    using engine_turn_one [OF inv(1,2)] list spec by auto
  have "store_count (client_requests x) \<noteq> 0" using list length_lfq_list [of "client_requests x"] by auto
  note pop = lfq_pop_list [OF inv(2) this]
  have len: "length ps \<le> 1" "length us \<le> 1" using spec_process_lengths [OF spec] by simp_all
  have "store_count (lfq_push_all (client_responses x) ps) \<le> Suc (store_count (client_responses x))"
    "store_count (lfq_push_all (market_updates x) us) \<le> Suc (store_count (market_updates x))"
    using lfq_push_all_list [OF inv(3), of ps] lfq_push_all_list [OF inv(4), of us] room len by simp_all
  moreover have "turn_fits x Matched" using room by simp
  ultimately show ?thesis
    using exchange_run.run_turn [OF run exchange_step.Engine [OF turn]] pop list e by fastforce
qed

lemma run_matches_all:
  assumes srt: "std_sort srt" and idle: "idle_exchange x0"
  shows "exchange_run srt x0 evs x \<Longrightarrow> lfq_list (client_requests x) = rs \<Longrightarrow>
    spec_requests rs (abs_engine (matching_engine x)) = Inr z \<Longrightarrow>
    store_count (client_responses x) + length rs < ring_size (client_responses x) \<Longrightarrow>
    store_count (market_updates x) + length rs < ring_size (market_updates x) \<Longrightarrow>
    \<exists>x'. exchange_run srt x0 (evs @ replicate (length rs) Matched) x' \<and> lfq_list (client_requests x') = [] \<and>
      store_count (market_updates x') \<le> store_count (market_updates x) + length rs"
proof (induction rs arbitrary: evs x z)
  case Nil
  then show ?case by (intro exI [of _ x]) simp
next
  case (Cons r rs)
  have rings: "rings_usable x" using run_inv_run [OF srt idle Cons.prems(1)] by (simp add: run_inv_def)
  obtain B ps us z' where spec: "spec_process r (abs_engine (matching_engine x)) = Inr (B, ps, us)"
    and rest: "spec_requests rs B = Inr z'"
    using Cons.prems(3) by (auto simp: bindR_eq_Inr)
  obtain x1 where run: "exchange_run srt x0 (evs @ [Matched]) x1"
    and x1: "lfq_list (client_requests x1) = rs" "abs_engine (matching_engine x1) = B"
      "ring_size (client_responses x1) = ring_size (client_responses x)"
      "ring_size (market_updates x1) = ring_size (market_updates x)"
      "store_count (client_responses x1) \<le> Suc (store_count (client_responses x))"
      "store_count (market_updates x1) \<le> Suc (store_count (market_updates x))"
    using run_matches_one [OF Cons.prems(1) rings Cons.prems(2) spec] Cons.prems(4,5) by auto
  have "\<exists>x'. exchange_run srt x0 ((evs @ [Matched]) @ replicate (length rs) Matched) x' \<and>
      lfq_list (client_requests x') = [] \<and> store_count (market_updates x') \<le> store_count (market_updates x1) + length rs"
    by (rule Cons.IH [OF run x1(1)]) (use rest x1(2-6) Cons.prems(4,5) in simp_all)
  then show ?case using x1(6) by (auto intro: order_trans)
qed

lemma catches_up:
  assumes srt: "std_sort srt" and start: "exchange_main new_fd = Inr x0"
    and run: "exchange_run srt (x0\<lparr>tcp_server := sv\<rparr>) evs x"
    and spec: "spec_requests (sequenced evs) (abs_engine (matching_engine x0)) = Inr (B, ps, us)"
    and n: "n = store_count (client_requests x)"
    and room: "store_count (client_responses x) + n < ring_size (client_responses x)"
      "store_count (market_updates x) + n < ring_size (market_updates x)"
      "sizeof_MDPMarketUpdate * (store_count (market_updates x) + n) < MulticastBufferSize"
  shows "\<exists>x' rest sent. let evs' = evs @ replicate n Matched @ [Published rest sent] in
    exchange_run srt (x0\<lparr>tcp_server := sv\<rparr>) evs' x' \<and> lfq_list (client_requests x') = [] \<and>
    lfq_list (market_updates x') = [] \<and> abs_engine (matching_engine x') = B \<and> multicast_so_far evs' = us \<and>
    answered evs' @ lfq_list (client_responses x') = ps \<and> ev_accepted (Published rest sent)"
proof -
  let ?x0 = "x0\<lparr>tcp_server := sv\<rparr>"
  note idle = idle_exchange_main [OF start, of sv]
  obtain processed ps1 us1 where seq: "sequenced evs = processed @ lfq_list (client_requests x)"
    and done1: "spec_requests processed (abs_engine (matching_engine x0)) = Inr (abs_engine (matching_engine x), ps1, us1)"
    using run_inv_run [OF srt idle run] by (auto simp: run_inv_def books_follow_def)
  then obtain z where rest: "spec_requests (lfq_list (client_requests x)) (abs_engine (matching_engine x)) = Inr z"
    using spec by (auto simp: spec_requests_append bindR_eq_Inr)
  obtain x1 where run1: "exchange_run srt ?x0 (evs @ replicate n Matched) x1" and x1: "lfq_list (client_requests x1) = []"
      "store_count (market_updates x1) \<le> store_count (market_updates x) + n"
    using run_matches_all [OF srt idle run refl rest] room(1,2) n by auto
  let ?us = "lfq_list (market_updates x1)" and ?n = "next_inc_seq_num (market_data_publisher x1)"
  have inv1: "run_inv ?x0 (evs @ replicate n Matched) x1" by (rule run_inv_run [OF srt idle run1])
  have "sizeof_MDPMarketUpdate * length ?us \<le> sizeof_MDPMarketUpdate * (store_count (market_updates x) + n)"
    using x1(2) unfolding length_lfq_list by (rule mult_le_mono2)
  then have small: "sizeof_MDPMarketUpdate * length ?us < MulticastBufferSize" using room(3) by (rule le_less_trans)
  obtain x' where turn: "publisher_turn [] True x1 = Inr (x', if ?us = [] then [] else [update_stream (numbered_updates ?n ?us)])"
    and x': "client_requests x' = client_requests x1" "lfq_list (market_updates x') = []"
    using publisher_turn_spec [OF _ refl _ small] inv1 by (auto simp: run_inv_def rings_usable_def)
  let ?sent = "if ?us = [] then [] else [update_stream (numbered_updates ?n ?us)]"
  let ?evs = "evs @ replicate n Matched @ [Published ?us ?sent]"
  have "exchange_run srt ?x0 ((evs @ replicate n Matched) @ [Published ?us ?sent]) x'"
    by (rule exchange_run.run_turn [OF run1 exchange_step.Publisher [OF turn]]) simp
  then have run': "exchange_run srt ?x0 ?evs x'" by simp
  have "sequenced (replicate n Matched) = []" by (induction n) simp_all
  then have "spec_requests (sequenced evs) (abs_engine (matching_engine x0)) =
      Inr (abs_engine (matching_engine x'), answered ?evs @ lfq_list (client_responses x'), multicast_so_far ?evs)"
    using run_inv_run [OF srt idle run'] x1(1) x' by (simp add: run_inv_def books_follow_def)
  then show ?thesis using run' x1(1) x' spec unfolding Let_def by (intro exI [of _ x'] exI [of _ ?us] exI [of _ ?sent]) auto
qed

section \<open>A concrete run\<close>

text \<open>For concrete runs: the server reads one request of client 4, for instance this one.\<close>

definition demo_request :: MEClientRequest where
  "demo_request = \<lparr>rq_requestType = Request_NEW, rq_clientId = 4, rq_tickerId = 0, rq_orderId = 9,
     rq_price = 100, rq_qty = 5, rq_side = BUY\<rparr>"

lemma one_served:
  assumes client: "from_client 4 [r]"
  shows "\<exists>x0 x1 sv. exchange_main 3 = Inr x0 \<and> exchange_run (sort_key recv_time) (x0\<lparr>tcp_server := sv\<rparr>)
     [Served [r] []] x1 \<and> lfq_list (client_requests x1) = [r] \<and>
     client_responses x1 = lfq_emptied (client_responses x0) \<and> market_updates x1 = market_updates x0 \<and>
     matching_engine x1 = matching_engine x0"
proof -
  obtain x0 where start: "exchange_main 3 = Inr x0"
    by (simp add: exchange_main_def MarketDataPublisher_ctor_def mc_init_def Let_def)
  let ?sv = "TCPServer_ctor\<lparr>recv_sockets := [1]\<rparr>" and ?srt = "sort_key recv_time"
  let ?x = "x0\<lparr>tcp_server := ?sv\<rparr>" and ?bytes = "concat (map encode_OMClientRequest (numbered 1 [r]))"
  note x0 = exchange_main_fields [OF start]
  have conn: "one_connection 1 (tcp_server ?x)"
    by (simp add: one_connection_def TCPServer_ctor_def TCPSocket_ctor_def)
  have "\<exists>x1 out. server_turn ?srt [] [] ((\<lambda>_. None)(1 := Some (7, ?bytes))) (\<lambda>_ _. Sent TCPBufferSize)
      (\<lambda>_. None) (\<lambda>_ _. Sent TCPBufferSize) ?x = Inr (x1, out) \<and>
    matching_engine x1 = matching_engine ?x \<and> market_data_publisher x1 = market_data_publisher ?x \<and>
    market_updates x1 = market_updates ?x \<and> lfq_inv (client_requests x1) \<and>
    lfq_list (client_requests x1) = published ?srt 7 [r] \<and>
    client_responses x1 = lfq_emptied (client_responses ?x)"
    by (rule server_turn_takes [OF stable.std_sort_axioms conn client])
      (use x0 in \<open>auto simp: OrderServer_ctor_def FIFOSequencer_ctor_def limit_defs ME_MAX_PENDING_REQUESTS_def\<close>)
  then obtain x1 out where turn: "server_turn ?srt [] [] ((\<lambda>_. None)(1 := Some (7, ?bytes))) (\<lambda>_ _. Sent TCPBufferSize)
      (\<lambda>_. None) (\<lambda>_ _. Sent TCPBufferSize) ?x = Inr (x1, out)"
    and x1: "matching_engine x1 = matching_engine x0" "market_updates x1 = market_updates x0" "lfq_inv (client_requests x1)"
      "lfq_list (client_requests x1) = [r]" "client_responses x1 = lfq_emptied (client_responses x0)"
    by (auto simp: published_def)
  have idle: "idle_exchange ?x" using idle_exchange_main [OF start] .
  have "\<exists>rs. client_requests x1 = lfq_push_all (client_requests ?x) rs \<and> length rs \<le> ME_MAX_PENDING_REQUESTS"
    using server_turn_serves [OF stable.std_sort_axioms _ _ turn] idle
    by (auto simp: idle_exchange_def rings_usable_def pending_known_def)
  then obtain rs where rs: "client_requests x1 = lfq_push_all (client_requests ?x) rs" "length rs \<le> ME_MAX_PENDING_REQUESTS"
    by blast
  have "lfq_list (client_requests x1) = lfq_list (client_requests ?x) @ rs"
    using lfq_push_all_list [of "client_requests ?x" rs] rs x0(1) by (auto simp: limit_defs ME_MAX_PENDING_REQUESTS_def)
  then have "rs = [r]" using x1(4) x0(1) by simp
  then have "exchange_step ?srt (Served [r] (lfq_list (client_responses ?x))) ?x x1"
    using exchange_step.Server [OF turn rs(1)] by simp
  then have "exchange_run ?srt ?x ([] @ [Served [r] []]) x1"
    by (intro exchange_run.run_turn [OF exchange_run.run_start])
      (use x0 in \<open>simp_all add: limit_defs\<close>)
  then show ?thesis using start x1 by auto
qed

lemma demo_request_client: "from_client 4 [demo_request\<lparr>rq_tickerId := t\<rparr>]" "from_client 4 [demo_request]"
  by (simp_all add: from_client_def demo_request_def limit_defs request_canonical_def)

text \<open>The request of the example in a run of all three threads: it is accepted and its update multicast.\<close>

lemma three_turns:
  "\<exists>x0 x' sv sent. exchange_main 3 = Inr x0 \<and> sent \<noteq> [] \<and> exchange_run (sort_key recv_time) (x0\<lparr>tcp_server := sv\<rparr>)
      [Served [demo_request] [], Matched, Published [add_update 1 0 BUY 100 5 1] sent] x' \<and>
    lfq_list (client_requests x') = [] \<and> lfq_list (client_responses x') = [accepted_response 4 9 0 BUY 100 5 1] \<and>
    lfq_list (market_updates x') = []"
proof -
  obtain x0 x1 sv where start: "exchange_main 3 = Inr x0"
    and run: "exchange_run (sort_key recv_time) (x0\<lparr>tcp_server := sv\<rparr>) [Served [demo_request] []] x1"
    and x1: "lfq_list (client_requests x1) = [demo_request]" "client_responses x1 = lfq_emptied (client_responses x0)"
      "market_updates x1 = market_updates x0"
    using one_served [OF demo_request_client(2)] by blast
  note x0 = exchange_main_fields [OF start]
  have "\<exists>B. spec_requests [demo_request] (abs_engine (matching_engine x0)) =
      Inr (B, [accepted_response 4 9 0 BUY 100 5 1], [add_update 1 0 BUY 100 5 1])"
    using x0(6) by (auto simp: demo_request_def abs_engine_ctor spec_defs limit_defs priceToIndex_def)
  then obtain B where spec: "spec_requests (sequenced [Served [demo_request] []]) (abs_engine (matching_engine x0)) =
      Inr (B, [accepted_response 4 9 0 BUY 100 5 1], [add_update 1 0 BUY 100 5 1])" by auto
  have n: "1 = store_count (client_requests x1)" using x1(1) length_lfq_list [of "client_requests x1"] by simp
  have room: "store_count (client_responses x1) + 1 < ring_size (client_responses x1)"
    "store_count (market_updates x1) + 1 < ring_size (market_updates x1)"
    "sizeof_MDPMarketUpdate * (store_count (market_updates x1) + 1) < MulticastBufferSize"
    using x0(2,3) by (simp_all add: x1 lfq_emptied_def limit_defs sizeof_defs MulticastBufferSize_def)
  from catches_up [OF stable.std_sort_axioms start run spec n room] show ?thesis
    using start by (fastforce simp: Let_def)
qed

section \<open>The exchange's promises\<close>

text \<open>
  C2. The exchange under every schedule: whatever turns its threads take, in whatever order and with
  whatever input, as long as no ring overflows, the requests the server has handed over are those
  the engine has processed and those that wait, in that order; the books are the abstract
  engine's after the processed ones; and its responses and its updates are, in order and each
  once, those taken by the server and those multicast by the publisher, and after them those that wait.
\<close>

theorem exchange_run_refines:
  assumes "std_sort srt" and "exchange_main new_fd = Inr x0"
    and "exchange_run srt (x0\<lparr>tcp_server := sv\<rparr>) evs x"
  shows "\<exists>processed. sequenced evs = processed @ lfq_list (client_requests x) \<and>
    spec_requests processed (abs_engine (matching_engine x0)) = Inr (abs_engine (matching_engine x),
      answered evs @ lfq_list (client_responses x), multicast_so_far evs @ lfq_list (market_updates x))"
  using run_inv_run [OF assms(1) idle_exchange_main [OF assms(2)] assms(3)]
  by (simp add: run_inv_def books_follow_def)

theorem exchange_run_refines_witness:
  "\<exists>x0 x1 sv sent processed. exchange_run (sort_key recv_time) (x0\<lparr>tcp_server := sv\<rparr>)
      [Served [demo_request] [], Matched, Published [add_update 1 0 BUY 100 5 1] sent] x1 \<and>
    processed = [demo_request] \<and>
    spec_requests processed (abs_engine (matching_engine x0)) = Inr (abs_engine (matching_engine x1),
      [accepted_response 4 9 0 BUY 100 5 1], [add_update 1 0 BUY 100 5 1] @ lfq_list (market_updates x1))"
proof -
  obtain x0 x1 sv sent where start: "exchange_main 3 = Inr x0"
    and run: "exchange_run (sort_key recv_time) (x0\<lparr>tcp_server := sv\<rparr>)
      [Served [demo_request] [], Matched, Published [add_update 1 0 BUY 100 5 1] sent] x1"
    and lists: "lfq_list (client_requests x1) = []" "lfq_list (client_responses x1) = [accepted_response 4 9 0 BUY 100 5 1]"
    using three_turns by blast
  from exchange_run_refines [OF stable.std_sort_axioms start run] show ?thesis using run by (auto simp: lists)
qed

section \<open>What is on the wire\<close>

definition segment_of :: "u64 \<Rightarrow> MEMarketUpdate list \<Rightarrow> u8 list \<Rightarrow> bool" where
  "segment_of n us d \<longleftrightarrow> (\<exists>k l. d = update_stream (numbered_updates (n + of_nat k) (take l (drop k us))))"

lemma segment_of_append:
  assumes "segment_of n us d"
  shows "segment_of n (us @ vs) d"
proof -
  obtain k l where d: "d = update_stream (numbered_updates (n + of_nat k) (take l (drop k us)))"
    using assms by (auto simp: segment_of_def)
  show ?thesis
  proof (cases "k \<le> length us")
    case True
    then have "take (min l (length us - k)) (drop k (us @ vs)) = take l (drop k us)"
      by (cases "l \<le> length us - k") (simp_all add: min_def)
    then show ?thesis unfolding segment_of_def d by metis
  next
    case False
    then show ?thesis unfolding segment_of_def d by (intro exI [of _ k] exI [of _ 0]) simp
  qed
qed

lemma wire_run:
  assumes srt: "std_sort srt" and idle: "idle_exchange x0" and run: "exchange_run srt x0 evs x"
  shows "let n = next_inc_seq_num (market_data_publisher x0); us = multicast_so_far evs in
    (\<forall>d \<in> set (on_wire evs). segment_of n us d) \<and>
    (list_all ev_accepted evs \<longrightarrow> concat (on_wire evs) = update_stream (numbered_updates n us))"
  using run
proof induction
  case run_start
  then show ?case by (simp add: on_wire_def)
next
  case (run_turn evs x ev x')
  let ?n = "next_inc_seq_num (market_data_publisher x0)" and ?us = "multicast_so_far evs"
  have inv: "run_inv x0 evs x" by (rule run_inv_run [OF srt idle run_turn.hyps(1)])
  show ?case
  proof (cases ev)
    case (Published us sent)
    have step: "exchange_step srt (Published us sent) x x'" using run_turn.hyps(2) Published by simp
    have sent: "sent \<in> {[], [update_stream (numbered_updates (?n + of_nat (length ?us)) us)]}"
      using Published_effect(3) [OF step] inv by (simp add: run_inv_def)
    have "segment_of ?n (?us @ us) (update_stream (numbered_updates (?n + of_nat (length ?us)) us))"
      unfolding segment_of_def by (intro exI [of _ "length ?us"] exI [of _ "length us"]) simp
    then show ?thesis
      using run_turn.IH sent
      by (auto simp: Published Let_def on_wire_def numbered_updates_append segment_of_append)
  qed (use run_turn.IH in \<open>simp_all add: Let_def on_wire_def\<close>)
qed

text \<open>
  C3. What the market sees: every datagram of a run carries a stretch of the published updates
  under consecutive numbers, counted from one for the first update ever published, however the
  threads take turns; and if the kernel refuses none, the datagrams together are all the published
  updates, numbered without a gap or a repetition.
\<close>

theorem exchange_wire_is_numbered:
  assumes "std_sort srt" and "exchange_main new_fd = Inr x0"
    and "exchange_run srt (x0\<lparr>tcp_server := sv\<rparr>) evs x"
  shows "(\<forall>d \<in> set (on_wire evs). segment_of 1 (multicast_so_far evs) d) \<and>
    (list_all ev_accepted evs \<longrightarrow>
      concat (on_wire evs) = update_stream (numbered_updates 1 (multicast_so_far evs)))"
  using wire_run [OF assms(1) idle_exchange_main [OF assms(2)] assms(3)] exchange_main_fields(8) [OF assms(2)]
  by (simp add: Let_def)

theorem exchange_wire_is_numbered_witness:
  "\<exists>x0 x1 sv sent. exchange_run (sort_key recv_time) (x0\<lparr>tcp_server := sv\<rparr>)
      [Served [demo_request] [], Matched, Published [add_update 1 0 BUY 100 5 1] sent] x1 \<and>
    concat sent = encode_MDPMarketUpdate \<lparr>mdp_seq_num = 1, mdp_update = add_update 1 0 BUY 100 5 1\<rparr>"
proof -
  obtain x0 x1 sv sent where start: "exchange_main 3 = Inr x0" and sent: "sent \<noteq> []"
    and run: "exchange_run (sort_key recv_time) (x0\<lparr>tcp_server := sv\<rparr>)
      [Served [demo_request] [], Matched, Published [add_update 1 0 BUY 100 5 1] sent] x1"
    using three_turns by blast
  from exchange_wire_is_numbered [OF stable.std_sort_axioms start run] show ?thesis
    using run sent by (auto simp: on_wire_def)
qed

section \<open>Answers have a socket\<close>

lemma os_send_registered:
  assumes "\<forall>r \<in> set rs. registered s (rs_clientId r)" and "foldR os_send_response rs (s, socks) = Inl e"
  shows "e = Out_of_bounds"
  using assms
proof (induction rs arbitrary: s socks)
  case (Cons r rs)
  have reg: "unat (rs_clientId r) < ME_MAX_NUM_CLIENTS" "clientId_socket s (unat (rs_clientId r)) \<noteq> None"
    using Cons.prems(1) by (simp_all add: registered_def)
  show ?case
  proof (cases "os_send_response r (s, socks)")
    case (Inl f)
    then have "f = Out_of_bounds"
      using reg by (auto simp: os_send_response_def Let_def bindR_def tcp_send_def split: sum.splits if_splits)
    then show ?thesis using Inl Cons.prems(2) by simp
  next
    case (Inr z)
    obtain s' socks' where z: "z = (s', socks')" by (cases z)
    have "registered s' = registered s" using os_send_response_keeps Inr z by metis
    then show ?thesis using Cons.IH [of s' socks'] Cons.prems Inr z by simp
  qed
qed simp

text \<open>
  C15. The server never lacks a socket for an answer: in every run each waiting response is of a
  client with a number in range and a socket, so sending the responses never fails the assertion
  that there is one, nor goes through a null pointer; all that can stop it is a full send buffer.
\<close>

theorem exchange_answers_have_socket:
  assumes "std_sort srt" and "exchange_main new_fd = Inr x0"
    and "exchange_run srt (x0\<lparr>tcp_server := sv\<rparr>) evs x"
  shows "(\<forall>r \<in> set (lfq_list (client_responses x)). registered (order_server x) (rs_clientId r)) \<and>
    (case os_send_responses ((order_server x)\<lparr>os_client_responses := client_responses x\<rparr>, socks) of
       Inl e \<Rightarrow> e = Out_of_bounds | Inr z \<Rightarrow> True)"
proof -
  have "rings_usable x" "clients_known x"
    using run_inv_run [OF assms(1) idle_exchange_main [OF assms(2)] assms(3)] by (simp_all add: run_inv_def)
  then have known: "\<forall>r \<in> set (lfq_list (client_responses x)). registered (order_server x) (rs_clientId r)"
    and inv: "lfq_inv (client_responses x)" by (simp_all add: clients_known_def rings_usable_def)
  let ?s = "(order_server x)\<lparr>os_client_responses := client_responses x\<rparr>"
  have "registered ?s = registered (order_server x)" by (simp add: registered_def fun_eq_iff)
  then show ?thesis
    using known inv os_send_registered [of "lfq_list (client_responses x)" ?s socks]
    by (cases "foldR os_send_response (lfq_list (client_responses x)) (?s, socks)")
      (auto simp: os_send_responses_def lfq_drain_eq)
qed

section \<open>Faults\<close>



theorem exchange_answers_have_socket_witness:
  "\<exists>x0 x1 sv. exchange_main 3 = Inr x0 \<and>
    exchange_run (sort_key recv_time) (x0\<lparr>tcp_server := sv\<rparr>) [Served [demo_request] []] x1 \<and>
    (case os_send_responses ((order_server x1)\<lparr>os_client_responses := client_responses x1\<rparr>, \<lambda>_. TCPSocket_ctor) of
       Inl e \<Rightarrow> e = Out_of_bounds | Inr z \<Rightarrow> True)"
proof -
  obtain x0 x1 sv where start: "exchange_main 3 = Inr x0"
    and run: "exchange_run (sort_key recv_time) (x0\<lparr>tcp_server := sv\<rparr>) [Served [demo_request] []] x1"
    using one_served [OF demo_request_client(2)] by blast
  from exchange_answers_have_socket [OF stable.std_sort_axioms start run, of "\<lambda>_. TCPSocket_ctor"]
  show ?thesis using start run by blast
qed

section \<open>Progress\<close>

text \<open>
  Nothing is left behind: from every state of a run in which the abstract engine can process all
  that was handed over, and with room in the rings and the datagram, one pass of the engine for
  each waiting request and a round of the publisher bring the exchange to a state where all has
  been processed and multicast, with the books, the responses and the updates of the abstract engine.
\<close>

theorem exchange_catches_up:
  assumes srt: "std_sort srt" and start: "exchange_main new_fd = Inr x0"
    and run: "exchange_run srt (x0\<lparr>tcp_server := sv\<rparr>) evs x"
    and spec: "spec_requests (sequenced evs) (abs_engine (matching_engine x0)) = Inr (B, ps, us)"
    and n: "n = store_count (client_requests x)"
    and room: "store_count (client_responses x) + n < ring_size (client_responses x)"
      "store_count (market_updates x) + n < ring_size (market_updates x)"
      "sizeof_MDPMarketUpdate * (store_count (market_updates x) + n) < MulticastBufferSize"
  shows "\<exists>x' rest sent. let evs' = evs @ replicate n Matched @ [Published rest sent] in
    exchange_run srt (x0\<lparr>tcp_server := sv\<rparr>) evs' x' \<and> lfq_list (client_requests x') = [] \<and>
    lfq_list (market_updates x') = [] \<and> abs_engine (matching_engine x') = B \<and> multicast_so_far evs' = us \<and>
    answered evs' @ lfq_list (client_responses x') = ps \<and> ev_accepted (Published rest sent)"
  using assms by (rule catches_up)

theorem exchange_catches_up_witness:
  "\<exists>x0 x1 x' sv rest sent. exchange_run (sort_key recv_time) (x0\<lparr>tcp_server := sv\<rparr>) [Served [demo_request] []] x1 \<and>
    exchange_run (sort_key recv_time) (x0\<lparr>tcp_server := sv\<rparr>) [Served [demo_request] [], Matched, Published rest sent] x' \<and>
    rest = [add_update 1 0 BUY 100 5 1]"
proof -
  obtain x0 x1 sv where start: "exchange_main 3 = Inr x0"
    and run: "exchange_run (sort_key recv_time) (x0\<lparr>tcp_server := sv\<rparr>) [Served [demo_request] []] x1"
    and x1: "lfq_list (client_requests x1) = [demo_request]" "client_responses x1 = lfq_emptied (client_responses x0)"
      "market_updates x1 = market_updates x0"
    using one_served [OF demo_request_client(2)] by blast
  note x0 = exchange_main_fields [OF start]
  have "\<exists>B. spec_requests [demo_request] (abs_engine (matching_engine x0)) =
      Inr (B, [accepted_response 4 9 0 BUY 100 5 1], [add_update 1 0 BUY 100 5 1])"
    using x0(6) by (auto simp: demo_request_def abs_engine_ctor spec_defs limit_defs priceToIndex_def)
  then obtain B where spec: "spec_requests (sequenced [Served [demo_request] []]) (abs_engine (matching_engine x0)) =
      Inr (B, [accepted_response 4 9 0 BUY 100 5 1], [add_update 1 0 BUY 100 5 1])" by auto
  have n: "1 = store_count (client_requests x1)" using x1(1) length_lfq_list [of "client_requests x1"] by simp
  have room: "store_count (client_responses x1) + 1 < ring_size (client_responses x1)"
    "store_count (market_updates x1) + 1 < ring_size (market_updates x1)"
    "sizeof_MDPMarketUpdate * (store_count (market_updates x1) + 1) < MulticastBufferSize"
    using x0(2,3) by (simp_all add: x1 lfq_emptied_def limit_defs sizeof_defs MulticastBufferSize_def)
  from exchange_catches_up [OF stable.std_sort_axioms start run spec n room] show ?thesis
    using run by (fastforce simp: Let_def)
qed

end
