(* ===== verification/Endurance.thy ===== *)
theory Endurance
  imports Interleaving
begin

text \<open>
  How long the engine lasts. Orders and price levels come from pools that reuse nothing, so each
  instrument has a budget: so many orders, and so many levels opened, where a level is opened for
  an index of the ladder that is used for the first time or again after a cancel has emptied it.
  Requests within the budget never end the process, whatever their order.
\<close>

section \<open>The budget of an instrument\<close>

definition adds_to :: "TickerId \<Rightarrow> MEClientRequest list \<Rightarrow> MEClientRequest list" where
  "adds_to t rqs = filter (\<lambda>r. rq_tickerId r = t \<and> rq_requestType r = Request_NEW \<and> rq_qty r \<noteq> 0) rqs"

definition cancels_to :: "TickerId \<Rightarrow> MEClientRequest list \<Rightarrow> MEClientRequest list" where
  "cancels_to t rqs = filter (\<lambda>r. rq_tickerId r = t \<and> rq_requestType r = Request_CANCEL) rqs"

definition indices_of :: "MEClientRequest list \<Rightarrow> nat set" where
  "indices_of rqs = (\<lambda>r. priceToIndex (rq_price r)) ` set rqs"

definition well_formed :: "MEClientRequest \<Rightarrow> bool" where
  "well_formed r \<longleftrightarrow> unat (rq_tickerId r) < ME_MAX_TICKERS \<and> unat (rq_clientId r) < ME_MAX_NUM_CLIENTS \<and>
     unat (rq_orderId r) < ME_MAX_ORDER_IDS \<and> (rq_requestType r = Request_NEW \<or> rq_requestType r = Request_CANCEL)"

definition within_budget :: "MEClientRequest list \<Rightarrow> bool" where
  "within_budget rqs \<longleftrightarrow> (\<forall>r \<in> set rqs. well_formed r) \<and>
     (\<forall>t. length (adds_to t rqs) < ME_MAX_ORDER_IDS \<and>
       card (indices_of (adds_to t rqs)) + length (cancels_to t rqs) < ME_MAX_PRICE_LEVELS)"

lemma budget_simps [simp]:
  "adds_to t [] = []" "cancels_to t [] = []" "indices_of [] = {}"
  "adds_to t (rs @ rs') = adds_to t rs @ adds_to t rs'" "cancels_to t (rs @ rs') = cancels_to t rs @ cancels_to t rs'"
  "indices_of (rs @ rs') = indices_of rs \<union> indices_of rs'" "finite (indices_of rs)"
  by (simp_all add: adds_to_def cancels_to_def indices_of_def image_Un)

lemma within_budget_prefix:
  assumes "within_budget (rs @ rs')"
  shows "within_budget rs"
proof -
  have "length (adds_to t rs) < ME_MAX_ORDER_IDS \<and>
      card (indices_of (adds_to t rs)) + length (cancels_to t rs) < ME_MAX_PRICE_LEVELS" for t
  proof -
    have "card (indices_of (adds_to t rs)) \<le> card (indices_of (adds_to t (rs @ rs')))"
      by (intro card_mono) simp_all
    moreover have "length (adds_to t (rs @ rs')) < ME_MAX_ORDER_IDS \<and> card (indices_of (adds_to t (rs @ rs'))) +
        length (cancels_to t (rs @ rs')) < ME_MAX_PRICE_LEVELS"
      using assms unfolding within_budget_def by blast
    ultimately show ?thesis unfolding budget_simps length_append by linarith
  qed
  then show ?thesis using assms by (simp add: within_budget_def)
qed

section \<open>What a book has spent\<close>

text \<open>
  The levels a book has opened, and the used indices that are empty now, come to at most the
  indices used and the cancels.
\<close>

definition placed :: "spec_book \<Rightarrow> nat set \<Rightarrow> nat \<Rightarrow> bool" where
  "placed A U n \<longleftrightarrow> finite U \<and> sp_tickets A = n \<and> (\<forall>i. \<forall>p \<in> set (sp_queue A i). p < n \<and> i \<in> U) \<and>
     (\<forall>i j p. p \<in> set (sp_queue A i) \<longrightarrow> p \<in> set (sp_queue A j) \<longrightarrow> i = j)"

definition spent :: "spec_book \<Rightarrow> nat set \<Rightarrow> nat \<Rightarrow> nat \<Rightarrow> bool" where
  "spent A U n c \<longleftrightarrow> placed A U n \<and> sp_levels A + card {i \<in> U. sp_queue A i = []} \<le> card U + c"

lemma spent_insert:
  assumes "spent A U n c" and "i = priceToIndex (ord_price x)"
  shows "spent (spec_insert A x) (insert i U) (Suc n) c"
proof -
  let ?A = "spec_insert A x" and ?E = "\<lambda>A U. {i \<in> U. sp_queue A i = []}"
  have fin: "finite U" and bound: "sp_levels A + card (?E A U) \<le> card U + c"
    and used: "i \<notin> U \<Longrightarrow> sp_queue A i = []" for i
    using assms(1) by (auto simp: spent_def placed_def) (metis list.set_intros(1) neq_Nil_conv)
  have A: "sp_queue ?A = (sp_queue A)(i := sp_queue A i @ [sp_tickets A])" "sp_tickets ?A = Suc (sp_tickets A)"
    "sp_levels ?A = (if sp_queue A i = [] then Suc (sp_levels A) else sp_levels A)"
    by (simp_all add: spec_insert_def Let_def assms(2))
  have E: "?E ?A (insert i U) = ?E A U - {i}" by (auto simp: A)
  have "placed ?A (insert i U) (Suc n)" using assms(1) unfolding spent_def placed_def A by (auto split: if_splits intro: less_SucI)
  moreover have "sp_levels ?A + card (?E ?A (insert i U)) \<le> card (insert i U) + c"
  proof (cases "sp_queue A i = [] \<and> i \<in> U")
    case True
    then have "card (?E A U) = Suc (card (?E A U - {i}))" using fin by (intro card.remove) auto
    then show ?thesis using True bound unfolding E by (simp add: A insert_absorb)
  next
    case False
    then have E': "?E A U - {i} = ?E A U" by blast
    show ?thesis
    proof (cases "i \<in> U")
      case True
      then show ?thesis using False bound unfolding E E' by (simp add: A insert_absorb)
    next
      case new: False
      then show ?thesis using used [OF new] bound fin unfolding E E' by (simp add: A)
    qed
  qed
  ultimately show ?thesis unfolding spent_def by (rule conjI)
qed

lemma spent_remove:
  assumes "spent A U n c"
  shows "spent (spec_remove A p) U n (Suc c)"
proof -
  let ?A = "spec_remove A p" and ?E = "\<lambda>A. {i \<in> U. sp_queue A i = []}"
  have A: "sp_queue ?A = (\<lambda>i. filter (\<lambda>q. q \<noteq> p) (sp_queue A i))" "sp_tickets ?A = sp_tickets A" "sp_levels ?A = sp_levels A"
    by (simp_all add: spec_remove_def)
  let ?P = "{i \<in> U. p \<in> set (sp_queue A i)}"
  have fin: "finite U" using assms by (simp add: spent_def placed_def)
  have "?E ?A \<subseteq> ?E A \<union> ?P"
  proof
    fix i assume i: "i \<in> ?E ?A"
    then have "\<forall>q \<in> set (sp_queue A i). q = p" by (simp add: A filter_empty_conv)
    then show "i \<in> ?E A \<union> ?P" using i by (cases "sp_queue A i") auto
  qed
  then have "card (?E ?A) \<le> card (?E A \<union> ?P)" using fin by (intro card_mono) simp_all
  also have "\<dots> \<le> card (?E A) + card ?P" by (rule card_Un_le)
  finally have "card (?E ?A) \<le> card (?E A) + card ?P" .
  moreover have "card ?P \<le> Suc 0"
  proof -
    have "finite ?P" using fin by simp
    moreover have "\<forall>i \<in> ?P. \<forall>j \<in> ?P. i = j" using assms unfolding spent_def placed_def by blast
    ultimately show ?thesis by (simp only: card_le_Suc0_iff_eq)
  qed
  moreover have "sp_levels A + card (?E A) \<le> card U + c" using assms by (simp add: spent_def)
  ultimately have "sp_levels ?A + card (?E ?A) \<le> card U + Suc c" unfolding A(3) by linarith
  moreover have "placed ?A U n" using assms unfolding spent_def placed_def A by auto
  ultimately show ?thesis unfolding spent_def by simp
qed

lemma spent_more: "spent A U n c \<Longrightarrow> spent A U n (Suc c)"
  and spent_next_id: "spent (A\<lparr>sp_next_id := k\<rparr>) U n c = spent A U n c"
  by (simp_all add: spent_def placed_def)

section \<open>No request within the budget fails\<close>

definition all_spent :: "spec_books \<Rightarrow> MEClientRequest list \<Rightarrow> bool" where
  "all_spent B rqs \<longleftrightarrow> (\<forall>t. spent (B (unat t)) (indices_of (adds_to t rqs)) (length (adds_to t rqs)) (length (cancels_to t rqs)))"

lemma new_add_endures:
  assumes A: "spent A U n c" and client: "unat clientId < ME_MAX_NUM_CLIENTS" "unat k < ME_MAX_ORDER_IDS"
    and U': "U' = (if q = 0 then U else insert (priceToIndex p) U)"
    and room: "q \<noteq> 0 \<Longrightarrow> Suc n < ME_MAX_ORDER_IDS" "q \<noteq> 0 \<Longrightarrow> card U' + c < ME_MAX_PRICE_LEVELS"
  shows "\<exists>A' ps us. spec_add A clientId k tk s p q = Inr (A', ps, us) \<and> spent A' U' (if q = 0 then n else Suc n) c"
proof (cases "q = 0")
  case True
  then show ?thesis using A by (simp add: spec_add_def Let_def spent_next_id U')
next
  case False
  let ?i = "priceToIndex p"
  let ?x = "\<lparr>ord_tickerId = tk, ord_clientId = clientId, ord_client_orderId = k, ord_market_orderId = sp_next_id A, ord_side = s,
    ord_price = p, ord_qty = q, ord_priority = spec_priority A ?i, ord_prev = None, ord_next = None\<rparr>"
  have ins: "spent (spec_insert (A\<lparr>sp_next_id := sp_next_id A + 1\<rparr>) ?x) U' (Suc n) c"
    using spent_insert [of "A\<lparr>sp_next_id := sp_next_id A + 1\<rparr>" U n c ?i ?x] A False by (simp add: spent_next_id U')
  have "sp_levels (spec_insert (A\<lparr>sp_next_id := sp_next_id A + 1\<rparr>) ?x) \<le> card U' + c"
    using ins unfolding spent_def by linarith
  then have "sp_queue A ?i = [] \<longrightarrow> Suc (sp_levels A) < ME_MAX_PRICE_LEVELS"
    using room(2) [OF False] by (auto simp: spec_insert_def Let_def)
  moreover have "Suc (sp_tickets A) < ME_MAX_ORDER_IDS" using A room(1) [OF False] by (simp add: spent_def placed_def)
  ultimately show ?thesis using False client ins by (auto simp: spec_add_def Let_def)
qed

lemma cancel_endures:
  assumes "spent A U n c" and "unat k < ME_MAX_ORDER_IDS"
  shows "\<exists>A' ps us. spec_cancel A clientId k tk = Inr (A', ps, us) \<and> spent A' U n (Suc c)"
  using assms spent_remove spent_more by (auto simp: spec_cancel_def split: option.splits)

lemma spec_process_endures:
  assumes B: "all_spent B pre" and budget: "within_budget (pre @ [r])"
  shows "\<exists>B' ps us. spec_process r B = Inr (B', ps, us) \<and> all_spent B' (pre @ [r])"
proof -
  let ?tk = "rq_tickerId r"
  let ?U = "\<lambda>rqs. indices_of (adds_to ?tk rqs)" and ?n = "\<lambda>rqs. length (adds_to ?tk rqs)" and ?c = "\<lambda>rqs. length (cancels_to ?tk rqs)"
  have wf: "well_formed r" and limits: "?n (pre @ [r]) < ME_MAX_ORDER_IDS" "card (?U (pre @ [r])) + ?c (pre @ [r]) < ME_MAX_PRICE_LEVELS"
    using budget unfolding within_budget_def by auto
  have A: "spent (B (unat ?tk)) (?U pre) (?n pre) (?c pre)" using B by (simp add: all_spent_def)
  have "\<exists>A' ps us. spec_process r B = Inr (B(unat ?tk := A'), ps, us) \<and>
      spent A' (?U (pre @ [r])) (?n (pre @ [r])) (?c (pre @ [r]))"
  proof (cases "rq_requestType r = Request_NEW")
    case True
    have parts: "?U (pre @ [r]) = (if rq_qty r = 0 then ?U pre else insert (priceToIndex (rq_price r)) (?U pre))"
      "?n (pre @ [r]) = (if rq_qty r = 0 then ?n pre else Suc (?n pre))" "?c (pre @ [r]) = ?c pre"
      using True by (auto simp: adds_to_def cancels_to_def indices_of_def)
    have valid: "unat (rq_clientId r) < ME_MAX_NUM_CLIENTS" "unat (rq_orderId r) < ME_MAX_ORDER_IDS"
      using wf by (simp_all add: well_formed_def)
    have "rq_qty r \<noteq> 0 \<Longrightarrow> Suc (?n pre) < ME_MAX_ORDER_IDS"
      "rq_qty r \<noteq> 0 \<Longrightarrow> card (?U (pre @ [r])) + ?c pre < ME_MAX_PRICE_LEVELS"
      using limits unfolding parts(2,3) by auto
    from new_add_endures [OF A valid parts(1) this, of ?tk "rq_side r"]
    obtain A' ps us where "spec_add (B (unat ?tk)) (rq_clientId r) (rq_orderId r) ?tk (rq_side r) (rq_price r) (rq_qty r) =
        Inr (A', ps, us)" and "spent A' (?U (pre @ [r])) (?n (pre @ [r])) (?c pre)"
      unfolding parts(2) by blast
    then show ?thesis using True wf parts(3) by (auto simp: spec_process_def Let_def well_formed_def)
  next
    case False
    then have can: "rq_requestType r = Request_CANCEL" using wf by (simp add: well_formed_def)
    have parts: "?U (pre @ [r]) = ?U pre" "?n (pre @ [r]) = ?n pre" "?c (pre @ [r]) = Suc (?c pre)"
      using can by (auto simp: adds_to_def cancels_to_def indices_of_def)
    obtain A' ps us where "spec_cancel (B (unat ?tk)) (rq_clientId r) (rq_orderId r) ?tk = Inr (A', ps, us)"
      and "spent A' (?U pre) (?n pre) (Suc (?c pre))"
      using cancel_endures [OF A, of "rq_orderId r" "rq_clientId r" ?tk] wf by (auto simp: well_formed_def)
    then show ?thesis using can wf unfolding parts by (auto simp: spec_process_def Let_def well_formed_def)
  qed
  then obtain A' ps us where run: "spec_process r B = Inr (B(unat ?tk := A'), ps, us)"
    and A': "spent A' (?U (pre @ [r])) (?n (pre @ [r])) (?c (pre @ [r]))" by blast
  have "all_spent (B(unat ?tk := A')) (pre @ [r])"
    unfolding all_spent_def
  proof
    fix t
    show "spent ((B(unat ?tk := A')) (unat t)) (indices_of (adds_to t (pre @ [r]))) (length (adds_to t (pre @ [r])))
        (length (cancels_to t (pre @ [r])))"
    proof (cases "t = ?tk")
      case True
      then show ?thesis using A' by simp
    next
      case False
      then have "unat t \<noteq> unat ?tk" by (simp add: word_unat_eq_iff)
      moreover have "adds_to t [r] = []" "cancels_to t [r] = []" using False by (simp_all add: adds_to_def cancels_to_def)
      moreover have "spent (B (unat t)) (indices_of (adds_to t pre)) (length (adds_to t pre)) (length (cancels_to t pre))"
        using B unfolding all_spent_def by (rule spec)
      ultimately show ?thesis by simp
    qed
  qed
  then show ?thesis using run by blast
qed

lemma spec_requests_endure:
  assumes "all_spent B pre" and "within_budget (pre @ rqs)"
  shows "\<exists>B' ps us. spec_requests rqs B = Inr (B', ps, us) \<and> all_spent B' (pre @ rqs)"
  using assms
proof (induction rqs arbitrary: B pre)
  case (Cons r rqs)
  have "within_budget (pre @ [r])" using within_budget_prefix [of "pre @ [r]" rqs] Cons.prems(2) by simp
  then obtain B1 ps1 us1 where one: "spec_process r B = Inr (B1, ps1, us1)" and B1: "all_spent B1 (pre @ [r])"
    using spec_process_endures [OF Cons.prems(1)] by blast
  obtain B' ps us where "spec_requests rqs B1 = Inr (B', ps, us)" and "all_spent B' (pre @ r # rqs)"
    using Cons.IH [OF B1] Cons.prems(2) by auto
  then show ?case using one by auto
qed simp

lemma new_engine_unspent: "all_spent (abs_engine (MatchingEngine_ctor q io)) []"
  by (simp add: all_spent_def spent_def placed_def abs_engine_ctor)

text \<open>Every well-formed request that is processed is answered once, under its client's numbers.\<close>

definition asked :: "MEClientRequest \<Rightarrow> ClientId \<times> OrderId" where
  "asked r = (rq_clientId r, rq_orderId r)"

definition told :: "MEClientResponse \<Rightarrow> ClientId \<times> OrderId" where
  "told p = (rs_clientId p, rs_client_order_id p)"

lemma spec_process_answers:
  assumes "spec_process r B = Inr (B', ps, us)" and "well_formed r"
  shows "map told ps = [asked r]"
  using assms
  by (auto simp: spec_process_def spec_add_def spec_cancel_def Let_def bindR_eq_Inr message_defs well_formed_def
      told_def asked_def split: if_splits option.splits)

lemma spec_requests_answer:
  "spec_requests rqs B = Inr (B', ps, us) \<Longrightarrow> \<forall>r \<in> set rqs. well_formed r \<Longrightarrow> map told ps = map asked rqs"
proof (induction rqs arbitrary: B ps us)
  case (Cons r rqs)
  then obtain B1 ps1 us1 ps2 us2 where "spec_process r B = Inr (B1, ps1, us1)"
    and rest: "spec_requests rqs B1 = Inr (B', ps2, us2)" and "ps = ps1 @ ps2"
    by (auto simp: bindR_eq_Inr)
  then show ?case using spec_process_answers Cons.IH [OF rest] Cons.prems(2) by fastforce
qed simp

lemma budget_spec:
  assumes "within_budget rqs"
  shows "\<exists>B ps us. spec_requests rqs (abs_engine (MatchingEngine_ctor q io)) = Inr (B, ps, us) \<and>
    map told ps = map asked rqs"
proof -
  have "\<forall>r \<in> set rqs. well_formed r" using assms by (simp add: within_budget_def)
  then show ?thesis
    using spec_requests_endure [OF new_engine_unspent [of q io], of rqs] assms spec_requests_answer by fastforce
qed

text \<open>In a run whose requests the abstract engine can process, no pass of the engine fails.\<close>

lemma engine_turn_within:
  assumes "std_sort srt" and "exchange_main new_fd = Inr x0" and "exchange_run srt (x0\<lparr>tcp_server := sv\<rparr>) evs x"
    and all: "spec_requests (sequenced evs) (abs_engine (matching_engine x0)) = Inr (B, ps, us)"
  shows "\<exists>x'. engine_turn 1 x = Inr x'"
proof -
  have inv: "run_inv (x0\<lparr>tcp_server := sv\<rparr>) evs x"
    by (rule run_inv_run [OF assms(1) idle_exchange_main [OF assms(2)] assms(3)])
  then obtain processed ps' us' where seq: "sequenced evs = processed @ lfq_list (client_requests x)"
    and spec: "spec_requests processed (abs_engine (matching_engine x0)) = Inr (abs_engine (matching_engine x), ps', us')"
    by (auto simp: run_inv_def books_follow_def)
  have "engine_inv (matching_engine x)" "lfq_inv (client_requests x)"
    using inv by (simp_all add: run_inv_def rings_usable_def)
  note one = engine_turn_one [OF this]
  show ?thesis
  proof (cases "lfq_list (client_requests x)")
    case Nil
    then show ?thesis using one by auto
  next
    case (Cons r rs)
    then obtain B1 ps1 us1 where "spec_process r (abs_engine (matching_engine x)) = Inr (B1, ps1, us1)"
      using all seq spec by (auto simp: spec_requests_append bindR_eq_Inr)
    then show ?thesis using one Cons by auto
  qed
qed

section \<open>The promises\<close>

text \<open>
  C13. The engine lasts as long as the pools do: a new engine processes every sequence of well-formed
  requests in which each instrument gets fewer than 1048576 orders, and the indices of the ladder
  these use and the cancels are together fewer than 256, and it answers each request once, in their
  order. At 256 it can fail.
\<close>

theorem engine_endures:
  assumes "within_budget rqs"
  shows "\<exists>e ps us. foldR processClientRequest rqs (MatchingEngine_ctor q io) = Inr e \<and>
    engine_io e = io_after io ps us \<and> map told ps = map asked rqs"
proof -
  obtain B ps us where spec: "spec_requests rqs (abs_engine (MatchingEngine_ctor q io)) = Inr (B, ps, us)"
    and told: "map told ps = map asked rqs"
    using budget_spec [OF assms] by blast
  have "engine_io (MatchingEngine_ctor q io) = io" by (simp add: MatchingEngine_ctor_def)
  then show ?thesis
    using requests_implement [OF engine_inv_ctor [of q io], of rqs] spec told by (auto simp: engine_implements_def)
qed

lemma demo_within_budget: "within_budget [demo_buy, demo_sell]"
  by (auto simp: within_budget_def well_formed_def adds_to_def cancels_to_def indices_of_def demo_buy_def demo_sell_def
      limit_defs card_insert_if)

theorem engine_endures_witness:
  "\<exists>e ps us. foldR processClientRequest [demo_buy, demo_sell] demo_engine = Inr e \<and>
    engine_io e = io_after demo_io ps us \<and> map told ps = [(1, 7), (2, 9)]"
proof -
  have "map asked [demo_buy, demo_sell] = [(1, 7), (2, 9)]" by (simp add: asked_def demo_buy_def demo_sell_def)
  then show ?thesis
    using engine_endures [OF demo_within_budget, of demo_queue demo_io] by (simp only: demo_engine_def)
qed



end
