(* ===== verification/Admission.thy ===== *)
theory Admission
  imports OrderServer "HOL-Library.Sublist"
begin

text \<open>
  What the order server lets through, whatever its clients send: any messages, of any clients, on
  any sockets, in any order. What reaches the sequencer is a subsequence of them in which the
  messages of one client are numbered on without a gap and came on one socket.
\<close>

section \<open>One message\<close>

type_synonym arrival = "nat \<times> Nanos \<times> OMClientRequest"

definition sender :: "arrival \<Rightarrow> nat" where
  "sender a = unat (rq_clientId (omrq_request (snd (snd a))))"

definition number_of :: "arrival \<Rightarrow> u64" where
  "number_of a = omrq_seq_num (snd (snd a))"

definition arrive :: "arrival \<Rightarrow> OrderServer \<Rightarrow> OrderServer res" where
  "arrive a = os_request (fst a) (fst (snd a)) (snd (snd a))"

definition queued :: "arrival \<Rightarrow> RecvTimeClientRequest" where
  "queued a = RecvTimeClientRequest (fst (snd a)) (omrq_request (snd (snd a)))"

text \<open>The sockets of clients, once set, stay.\<close>

definition same_owners :: "OrderServer \<Rightarrow> OrderServer \<Rightarrow> bool" where
  "same_owners s s' \<longleftrightarrow> (\<forall>c k. clientId_socket s c = Some k \<longrightarrow> clientId_socket s' c = Some k)"

definition admits :: "arrival \<Rightarrow> OrderServer \<Rightarrow> OrderServer \<Rightarrow> bool" where
  "admits a s s' \<longleftrightarrow> clientId_socket s' (sender a) = Some (fst a) \<and> number_of a = clientId_outgoing_seqNum s (sender a) \<and>
     clientId_outgoing_seqNum s' = (clientId_outgoing_seqNum s)(sender a := clientId_outgoing_seqNum s (sender a) + 1) \<and>
     pending_client_requests (fifo_sequencer s') = pending_client_requests (fifo_sequencer s) @ [queued a]"

definition skips :: "OrderServer \<Rightarrow> OrderServer \<Rightarrow> bool" where
  "skips s s' \<longleftrightarrow> clientId_outgoing_seqNum s' = clientId_outgoing_seqNum s \<and> fifo_sequencer s' = fifo_sequencer s"

lemma arrive_cases:
  assumes "arrive a s = Inr s'"
  shows "same_owners s s' \<and> (admits a s s' \<or> skips s s')"
proof -
  obtain socket t m where a: "a = (socket, t, m)" by (cases a)
  let ?c = "sender a"
  define s1 where "s1 = (if clientId_socket s ?c = None
    then s\<lparr>clientId_socket := (clientId_socket s)(?c := Some socket)\<rparr> else s)"
  have c: "?c < ME_MAX_NUM_CLIENTS"
    using assms by (auto simp: a arrive_def sender_def os_request_def Let_def bindR_eq_Inr arr_idx_def split: if_splits)
  have s1: "same_owners s s1" "skips s s1" by (auto simp: s1_def same_owners_def skips_def)
  let ?s2 = "s1\<lparr>clientId_outgoing_seqNum := (clientId_outgoing_seqNum s1)(?c := clientId_outgoing_seqNum s1 ?c + 1)\<rparr>"
  have "(if clientId_socket s1 ?c \<noteq> Some socket then Inr s1
      else if omrq_seq_num m \<noteq> clientId_outgoing_seqNum s1 ?c then Inr s1
      else bindR (addClientRequest t (omrq_request m) (fifo_sequencer ?s2)) (\<lambda>fifo. Inr (?s2\<lparr>fifo_sequencer := fifo\<rparr>))) = Inr s'"
    using assms c unfolding arrive_def a os_request_def Let_def sender_def s1_def fst_conv snd_conv
    by (simp only: arr_idx_ok bindR_Inr)
  then consider "s' = s1"
    | fifo where "clientId_socket s1 ?c = Some socket" "omrq_seq_num m = clientId_outgoing_seqNum s1 ?c"
      "addClientRequest t (omrq_request m) (fifo_sequencer ?s2) = Inr fifo" "s' = ?s2\<lparr>fifo_sequencer := fifo\<rparr>"
    unfolding bindR_eq_Inr [symmetric]
    by (cases "addClientRequest t (omrq_request m) (fifo_sequencer ?s2)") (auto split: if_splits)
  then show ?thesis
  proof cases
    case 2
    note f = addClientRequest_Inr [OF 2(3)]
    have "admits a s s'"
      using s1(2) 2(1,2) by (simp add: admits_def skips_def 2(4) f number_of_def queued_def a sender_def)
    moreover have "same_owners s s'" using s1(1) by (simp add: same_owners_def 2(4))
    ultimately show ?thesis by simp
  qed (use s1 in simp)
qed

section \<open>All of them\<close>

definition from_sender :: "nat \<Rightarrow> arrival list \<Rightarrow> arrival list" where
  "from_sender c = filter (\<lambda>a. sender a = c)"

definition in_sequence :: "OrderServer \<Rightarrow> OrderServer \<Rightarrow> arrival list \<Rightarrow> bool" where
  "in_sequence s s' acc \<longleftrightarrow> (\<forall>c. let mine = from_sender c acc; n = clientId_outgoing_seqNum s c in
     map number_of mine = map (\<lambda>k. n + of_nat k) [0..<length mine] \<and>
     clientId_outgoing_seqNum s' c = n + of_nat (length mine) \<and>
     (\<forall>a \<in> set mine. clientId_socket s' c = Some (fst a)))"

lemma in_sequence_step:
  assumes one: "admits a s s1" and rest: "in_sequence s1 s' acc" and owners: "same_owners s1 s'"
  shows "in_sequence s s' (a # acc)"
  unfolding in_sequence_def Let_def
proof
  fix c
  let ?n = "clientId_outgoing_seqNum s c" and ?mine = "from_sender c acc"
  have tail: "map number_of ?mine = map (\<lambda>k. clientId_outgoing_seqNum s1 c + of_nat k) [0..<length ?mine]"
    "clientId_outgoing_seqNum s' c = clientId_outgoing_seqNum s1 c + of_nat (length ?mine)"
    "\<forall>a \<in> set ?mine. clientId_socket s' c = Some (fst a)"
    using rest by (simp_all add: in_sequence_def Let_def)
  show "map number_of (from_sender c (a # acc)) = map (\<lambda>k. ?n + of_nat k) [0..<length (from_sender c (a # acc))] \<and>
     clientId_outgoing_seqNum s' c = ?n + of_nat (length (from_sender c (a # acc))) \<and>
     (\<forall>x \<in> set (from_sender c (a # acc)). clientId_socket s' c = Some (fst x))"
  proof (cases "sender a = c")
    case True
    have shift: "map (\<lambda>k. ?n + of_nat k) [0..<Suc (length ?mine)] =
        ?n # map (\<lambda>k. (?n + 1) + of_nat k) [0..<length ?mine]"
      by (simp add: upt_conv_Cons map_Suc_upt [symmetric] comp_def algebra_simps del: upt_Suc)
    have "clientId_outgoing_seqNum s1 c = ?n + 1" "number_of a = ?n" "clientId_socket s' c = Some (fst a)"
      using one owners True by (auto simp: admits_def same_owners_def)
    then show ?thesis using tail True shift by (simp add: from_sender_def algebra_simps del: upt_Suc)
  next
    case False
    then show ?thesis using tail one by (simp add: from_sender_def admits_def)
  qed
qed

lemma arrivals_in_sequence:
  "foldR arrive as s = Inr s' \<Longrightarrow> \<exists>acc. subseq acc as \<and> in_sequence s s' acc \<and> same_owners s s' \<and>
     pending_client_requests (fifo_sequencer s') = pending_client_requests (fifo_sequencer s) @ map queued acc"
proof (induction as arbitrary: s)
  case Nil
  then show ?case by (auto simp: in_sequence_def Let_def from_sender_def same_owners_def)
next
  case (Cons a as)
  then obtain s1 where one: "arrive a s = Inr s1" and rest: "foldR arrive as s1 = Inr s'"
    by (auto simp: bindR_eq_Inr)
  obtain acc where acc: "subseq acc as" "in_sequence s1 s' acc" "same_owners s1 s'"
    "pending_client_requests (fifo_sequencer s') = pending_client_requests (fifo_sequencer s1) @ map queued acc"
    using Cons.IH [OF rest] by blast
  have owners: "same_owners s s'" using arrive_cases [OF one] acc(3) by (auto simp: same_owners_def)
  show ?case
  proof (cases "admits a s s1")
    case True
    have "in_sequence s s' (a # acc)" by (rule in_sequence_step [OF True acc(2,3)])
    then show ?thesis using True acc(1,4) owners by (intro exI [of _ "a # acc"]) (simp add: admits_def)
  next
    case False
    then have "skips s s1" using arrive_cases [OF one] by simp
    then have "in_sequence s s' acc" using acc(2) by (simp add: in_sequence_def skips_def)
    then show ?thesis using \<open>skips s s1\<close> acc(1,4) owners by (intro exI [of _ acc]) (simp add: skips_def list_emb_Cons)
  qed
qed

text \<open>
  C20. No message gets through twice or out of turn: after any messages, of any clients, on any
  sockets, the sequencer has got a subsequence of them, in their order, in which the messages of
  one client carry the numbers that follow the client's counter, without a gap or a repetition, and all came
  on the one socket the client is known by; the counter is past them.
\<close>

theorem server_admits_in_sequence:
  assumes "foldR arrive ms s = Inr s'"
  shows "\<exists>acc. subseq acc ms \<and>
    pending_client_requests (fifo_sequencer s') = pending_client_requests (fifo_sequencer s) @ map queued acc \<and>
    (\<forall>c. let mine = from_sender c acc; n = clientId_outgoing_seqNum s c in
      map number_of mine = map (\<lambda>k. n + of_nat k) [0..<length mine] \<and>
      clientId_outgoing_seqNum s' c = n + of_nat (length mine) \<and>
      (\<forall>a \<in> set mine. clientId_socket s' c = Some (fst a)))"
  using arrivals_in_sequence [OF assms] unfolding in_sequence_def by blast

theorem server_admits_in_sequence_witness:
  "\<exists>s' acc. foldR arrive [(5, 7, \<lparr>omrq_seq_num = 1, omrq_request = MEClientRequest_default\<lparr>rq_clientId := 4\<rparr>\<rparr>),
      (5, 8, \<lparr>omrq_seq_num = 1, omrq_request = MEClientRequest_default\<lparr>rq_clientId := 4\<rparr>\<rparr>)] demo_server = Inr s' \<and>
    pending_client_requests (fifo_sequencer s') = map queued acc \<and> length acc = 1 \<and>
    map number_of (from_sender 4 acc) = map (\<lambda>k. 1 + of_nat k) [0..<length (from_sender 4 acc)]"
proof -
  let ?m = "\<lparr>omrq_seq_num = 1, omrq_request = MEClientRequest_default\<lparr>rq_clientId := 4\<rparr>\<rparr>"
  have start: "clientId_outgoing_seqNum demo_server 4 = 1" "pending_client_requests (fifo_sequencer demo_server) = []"
    by (simp_all add: demo_server_def OrderServer_ctor_def FIFOSequencer_ctor_def)
  have "\<exists>s'. foldR arrive [(5, 7, ?m), (5, 8, ?m)] demo_server = Inr s' \<and>
      length (pending_client_requests (fifo_sequencer s')) = 1"
    by (simp add: arrive_def os_request_def demo_server_def OrderServer_ctor_def FIFOSequencer_ctor_def addClientRequest_def
        arr_idx_def limit_defs ME_MAX_PENDING_REQUESTS_def Let_def)
  then obtain s' where run: "foldR arrive [(5, 7, ?m), (5, 8, ?m)] demo_server = Inr s'"
    and one: "length (pending_client_requests (fifo_sequencer s')) = 1" by blast
  from server_admits_in_sequence [OF run] obtain acc where
    acc: "pending_client_requests (fifo_sequencer s') = map queued acc"
      "map number_of (from_sender 4 acc) = map (\<lambda>k. 1 + of_nat k) [0..<length (from_sender 4 acc)]"
    unfolding Let_def start append_Nil by (metis start(1))
  have "length acc = 1" using one unfolding acc(1) length_map .
  then show ?thesis using run acc by blast
qed

end
