(* ===== verification/MarketBookProps.thy ===== *)
theory MarketBookProps
  imports MarketOrderBook
begin

text \<open>
  What the client's book holds after a run of market updates. The history of \<open>ADD\<close> updates
  determines the reachable books: block \<open>k\<close> of the order pool holds the \<open>k\<close>-th added order, and
  each index of the ladder has one ring with the orders of that index in arrival order.
\<close>

section \<open>Reading a book after a store\<close>

lemma mord_upd_mord [simp]: "mord (upd_mord b p f) q = (if q = p then f (mord b p) else mord b q)"
  and mlvl_upd_mord [simp]: "mlvl (upd_mord b p f) q = mlvl b q"
  and mord_upd_mlvl [simp]: "mord (upd_mlvl b p g) q = mord b q"
  and mlvl_upd_mlvl [simp]: "mlvl (upd_mlvl b p g) q = (if q = p then g (mlvl b p) else mlvl b q)"
  by (simp_all add: mord_def mlvl_def upd_mord_def upd_mlvl_def)

lemma upd_mord_fields [simp]:
  "orderId_to_order (upd_mord b p f) = orderId_to_order b"
  "mb_level_pool (upd_mord b p f) = mb_level_pool b"
  "bid_price_levels (upd_mord b p f) = bid_price_levels b"
  "ask_price_levels (upd_mord b p f) = ask_price_levels b"
  "orders_at_price_levels (upd_mord b p f) = orders_at_price_levels b"
  "best_offer (upd_mord b p f) = best_offer b"
  "pool_inv (mb_order_pool (upd_mord b p f)) = pool_inv (mb_order_pool b)"
  "pool_size (mb_order_pool (upd_mord b p f)) = pool_size (mb_order_pool b)"
  "next_free_index (mb_order_pool (upd_mord b p f)) = next_free_index (mb_order_pool b)"
  by (simp_all add: upd_mord_def)

lemma upd_mlvl_fields [simp]:
  "orderId_to_order (upd_mlvl b p g) = orderId_to_order b"
  "mb_order_pool (upd_mlvl b p g) = mb_order_pool b"
  "bid_price_levels (upd_mlvl b p g) = bid_price_levels b"
  "ask_price_levels (upd_mlvl b p g) = ask_price_levels b"
  "orders_at_price_levels (upd_mlvl b p g) = orders_at_price_levels b"
  "best_offer (upd_mlvl b p g) = best_offer b"
  "pool_inv (mb_level_pool (upd_mlvl b p g)) = pool_inv (mb_level_pool b)"
  "pool_size (mb_level_pool (upd_mlvl b p g)) = pool_size (mb_level_pool b)"
  "next_free_index (mb_level_pool (upd_mlvl b p g)) = next_free_index (mb_level_pool b)"
  by (simp_all add: upd_mlvl_def)

lemma m_other_fields [simp]:
  "mord (b\<lparr>mb_level_pool := x1\<rparr>) = mord b" "mord (b\<lparr>orders_at_price_levels := x2\<rparr>) = mord b"
  "mlvl (b\<lparr>mb_order_pool := x3\<rparr>) = mlvl b" "mlvl (b\<lparr>orders_at_price_levels := x2\<rparr>) = mlvl b"
  "mord (b\<lparr>mb_order_pool := pl\<rparr>) q = pool_get pl q"
  "mlvl (b\<lparr>mb_level_pool := lp\<rparr>) q = pool_get lp q"
  by (simp_all add: mord_def mlvl_def fun_eq_iff)

lemma pool_get_mord_mlvl [simp]:
  "pool_get (mb_order_pool b) p = mord b p" "pool_get (mb_level_pool b) l = mlvl b l"
  by (simp_all add: mord_def mlvl_def)

section \<open>The invariant\<close>

text \<open>The orders of one index among the added ones, oldest first, as block numbers.\<close>

definition update_index :: "MEMarketUpdate \<Rightarrow> nat" where
  "update_index u = mb_priceToIndex (mu_price u)"

definition arrived :: "MEMarketUpdate list \<Rightarrow> nat \<Rightarrow> nat list" where
  "arrived adds i = filter (\<lambda>k. update_index (adds ! k) = i) [0..<length adds]"

definition holds_update :: "MarketOrder \<Rightarrow> MEMarketUpdate \<Rightarrow> bool" where
  "holds_update r u \<longleftrightarrow> mo_orderId r = mu_orderId u \<and> mo_side r = mu_side u \<and>
     mo_price r = mu_price u \<and> mo_qty r = mu_qty u \<and> mo_priority r = mu_priority u"

definition mb_ring :: "MarketOrderBook \<Rightarrow> nat list \<Rightarrow> bool" where
  "mb_ring b ks \<longleftrightarrow> cring (\<lambda>p. mo_next (mord b p)) (\<lambda>p. mo_prev (mord b p)) ks"

definition mb_level_ok :: "MEMarketUpdate list \<Rightarrow> MarketOrderBook \<Rightarrow> nat \<Rightarrow> bool" where
  "mb_level_ok adds b i \<longleftrightarrow> (case orders_at_price_levels b i of
     None \<Rightarrow> arrived adds i = []
   | Some l \<Rightarrow> arrived adds i \<noteq> [] \<and> l < next_free_index (mb_level_pool b) \<and>
       mb_priceToIndex (ml_price (mlvl b l)) = i \<and>
       ml_first_order (mlvl b l) = Some (hd (arrived adds i)) \<and> mb_ring b (arrived adds i) \<and>
       ml_total_qty (mlvl b l) = sum_list (map (\<lambda>k. mu_qty (adds ! k)) (arrived adds i)) - 1 \<and>
       ml_orders_count (mlvl b l) = of_nat (length (arrived adds i)))"

definition used_indices :: "MEMarketUpdate list \<Rightarrow> nat" where
  "used_indices adds = card (update_index ` set adds)"

definition mb_inv :: "MEMarketUpdate list \<Rightarrow> MarketOrderBook \<Rightarrow> bool" where
  "mb_inv adds b \<longleftrightarrow> orderId_to_order b = (\<lambda>_. None) \<and>
     bid_price_levels b = None \<and> ask_price_levels b = None \<and> best_offer b = BestBidOffer_default \<and>
     pool_inv (mb_order_pool b) \<and> pool_size (mb_order_pool b) = ME_MAX_ORDER_IDS \<and>
     next_free_index (mb_order_pool b) = length adds \<and>
     pool_inv (mb_level_pool b) \<and> pool_size (mb_level_pool b) = ME_MAX_PRICE_LEVELS \<and>
     next_free_index (mb_level_pool b) = used_indices adds \<and>
     (\<forall>k < length adds. holds_update (mord b k) (adds ! k)) \<and>
     (\<forall>i. mb_level_ok adds b i)"

lemma arrived_snoc:
  "arrived (adds @ [u]) i = arrived adds i @ (if update_index u = i then [length adds] else [])"
  by (auto simp: arrived_def nth_append intro: filter_cong)

lemma set_arrived: "k \<in> set (arrived adds i) \<longleftrightarrow> k < length adds \<and> update_index (adds ! k) = i"
  by (simp add: arrived_def)

lemma arrived_distinct [simp]: "distinct (arrived adds i)"
  by (simp add: arrived_def)

lemma arrived_Nil: "arrived adds i = [] \<longleftrightarrow> i \<notin> update_index ` set adds"
  by (force simp: arrived_def filter_empty_conv in_set_conv_nth image_iff)

lemma arrived_qtys:
  "sum_list (map (\<lambda>k. mu_qty ((adds @ [u]) ! k)) (arrived adds i)) =
   sum_list (map (\<lambda>k. mu_qty (adds ! k)) (arrived adds i))"
  by (rule arg_cong [of _ _ sum_list]) (auto simp: set_arrived nth_append)

lemma used_indices_snoc:
  "used_indices (adds @ [u]) = used_indices adds + (if arrived adds (update_index u) = [] then 1 else 0)"
  by (simp add: used_indices_def arrived_Nil card_insert_if)

lemma mb_inv_init: "mb_inv [] (MarketOrderBook_zeroed t)"
  by (simp add: mb_inv_def MarketOrderBook_zeroed_def MarketOrderBook_ctor_def used_indices_def
      mb_level_ok_def arrived_def)

section \<open>Adding an order\<close>

text \<open>What every path of \<open>addOrder\<close> leaves as it was.\<close>

definition mb_frame :: "MarketOrderBook \<Rightarrow> MarketOrderBook \<Rightarrow> bool" where
  "mb_frame b b' \<longleftrightarrow> orderId_to_order b' = orderId_to_order b \<and>
     bid_price_levels b' = bid_price_levels b \<and> ask_price_levels b' = ask_price_levels b \<and>
     best_offer b' = best_offer b \<and>
     pool_inv (mb_order_pool b') = pool_inv (mb_order_pool b) \<and>
     pool_size (mb_order_pool b') = pool_size (mb_order_pool b) \<and>
     next_free_index (mb_order_pool b') = next_free_index (mb_order_pool b) \<and>
     pool_size (mb_level_pool b') = pool_size (mb_level_pool b) \<and>
     (\<forall>q u. holds_update (mord b' q) u = holds_update (mord b q) u)"

definition counted :: "Qty \<Rightarrow> MarketOrderPriceLevel \<Rightarrow> MarketOrderPriceLevel" where
  "counted q r = r\<lparr>ml_total_qty := ml_total_qty r + q, ml_orders_count := ml_orders_count r + 1\<rparr>"

lemma holds_update_links [simp]:
  "holds_update (r\<lparr>mo_prev := x\<rparr>) u = holds_update r u"
  "holds_update (r\<lparr>mo_next := x\<rparr>) u = holds_update r u"
  by (simp_all add: holds_update_def)

lemma mb_addOrder_append:
  assumes level: "mb_getPriceLevel b (mo_price (mord b p)) = Some l"
    and first: "ml_first_order (mlvl b l) = Some f" and last: "mo_prev (mord b f) = Some e"
    and ne: "p \<noteq> f"
  obtains b' where "mb_addOrder b p = Inr b'" and "mb_frame b b'"
    and "(\<lambda>q. mo_next (mord b' q)) = (\<lambda>q. mo_next (mord b q))(e := Some p, p := Some f)"
    and "(\<lambda>q. mo_prev (mord b' q)) = (\<lambda>q. mo_prev (mord b q))(p := Some e, f := Some p)"
    and "orders_at_price_levels b' = orders_at_price_levels b"
    and "mlvl b' = (mlvl b)(l := counted (mo_qty (mord b p)) (mlvl b l))"
    and "pool_inv (mb_level_pool b') = pool_inv (mb_level_pool b)"
    and "next_free_index (mb_level_pool b') = next_free_index (mb_level_pool b)"
proof -
  let ?b1 = "upd_mord b e (mo_next_update (\<lambda>_. Some p))"
  let ?b2 = "upd_mord ?b1 p (mo_prev_update (\<lambda>_. mo_prev (mord ?b1 f)))"
  let ?b3 = "upd_mord ?b2 p (mo_next_update (\<lambda>_. Some f))"
  let ?b4 = "upd_mord ?b3 f (mo_prev_update (\<lambda>_. Some p))"
  let ?q = "mo_qty (mord b p)"
  let ?b5 = "upd_mlvl ?b4 l (ml_total_qty_update (\<lambda>t. t + ?q))"
  let ?b6 = "upd_mlvl ?b5 l (ml_orders_count_update (\<lambda>c. c + 1))"
  have prev1: "mo_prev (mord ?b1 f) = Some e" using last by auto
  have "mo_qty (mord ?b4 p) = ?q" by auto
  then have "mb_addOrder b p = Inr ?b6"
    unfolding mb_addOrder_def using level first last by (simp add: Let_def)
  moreover have "mb_frame b ?b6" by (simp add: mb_frame_def)
  moreover have "(\<lambda>q. mo_next (mord ?b6 q)) = (\<lambda>q. mo_next (mord b q))(e := Some p, p := Some f)"
    and "(\<lambda>q. mo_prev (mord ?b6 q)) = (\<lambda>q. mo_prev (mord b q))(p := Some e, f := Some p)"
    using prev1 ne by (auto simp: fun_eq_iff)
  moreover have "orders_at_price_levels ?b6 = orders_at_price_levels b" by simp
  moreover have "mlvl ?b6 = (mlvl b)(l := counted ?q (mlvl b l))"
    by (auto simp: fun_eq_iff counted_def)
  ultimately show thesis by (rule that) simp_all
qed

lemma addOrdersAtPriceLevel_no_head:
  assumes "bid_price_levels b = None" and "ask_price_levels b = None"
  shows "addOrdersAtPriceLevel b new = Inr (upd_mlvl (upd_mlvl
    (b\<lparr>orders_at_price_levels := (orders_at_price_levels b)(mb_priceToIndex (ml_price (mlvl b new)) := Some new)\<rparr>)
    new (ml_prev_update (\<lambda>_. Some new))) new (ml_next_update (\<lambda>_. Some new)))"
  using assms by (simp add: addOrdersAtPriceLevel_def Let_def)

lemma mb_addOrder_new_level:
  assumes level: "mb_getPriceLevel b (mo_price (mord b p)) = None"
    and heads: "bid_price_levels b = None" "ask_price_levels b = None"
    and pool: "pool_inv (mb_level_pool b)"
      "Suc (next_free_index (mb_level_pool b)) < pool_size (mb_level_pool b)"
    and l: "l = next_free_index (mb_level_pool b)"
  obtains b' where "mb_addOrder b p = Inr b'" and "mb_frame b b'"
    and "(\<lambda>q. mo_next (mord b' q)) = (\<lambda>q. mo_next (mord b q))(p := Some p)"
    and "(\<lambda>q. mo_prev (mord b' q)) = (\<lambda>q. mo_prev (mord b q))(p := Some p)"
    and "orders_at_price_levels b' =
      (orders_at_price_levels b)(mb_priceToIndex (mo_price (mord b p)) := Some l)"
    and "mlvl b' = (mlvl b)(l := \<lparr>ml_total_qty = Qty_INVALID + mo_qty (mord b p), ml_orders_count = 1,
        ml_side = mo_side (mord b p), ml_price = mo_price (mord b p),
        ml_first_order = Some p, ml_prev = Some l, ml_next = Some l\<rparr>)"
    and "pool_inv (mb_level_pool b')" and "next_free_index (mb_level_pool b') = Suc l"
proof -
  let ?lev = "MarketOrderPriceLevel_ctor (mo_side (mord b p)) (mo_price (mord b p)) (Some p) None None"
  let ?b2 = "upd_mord (upd_mord b p (mo_prev_update (\<lambda>_. Some p))) p (mo_next_update (\<lambda>_. Some p))"
  let ?b3 = "?b2\<lparr>mb_level_pool := pool_alloc (mb_level_pool b) ?lev\<rparr>"
  let ?b4 = "upd_mlvl (upd_mlvl (?b3\<lparr>orders_at_price_levels :=
      (orders_at_price_levels b)(mb_priceToIndex (mo_price (mord b p)) := Some l)\<rparr>)
    l (ml_prev_update (\<lambda>_. Some l))) l (ml_next_update (\<lambda>_. Some l))"
  let ?b5 = "upd_mlvl ?b4 l (ml_total_qty_update (\<lambda>t. t + mo_qty (mord b p)))"
  let ?b6 = "upd_mlvl ?b5 l (ml_orders_count_update (\<lambda>c. c + 1))"
  have place: "addOrdersAtPriceLevel ?b3 l = Inr ?b4"
    by (subst addOrdersAtPriceLevel_no_head)
      (simp_all add: heads l MarketOrderPriceLevel_ctor_def)
  have "mo_qty (mord ?b4 p) = mo_qty (mord b p)" by simp
  then have "mb_addOrder b p = Inr ?b6"
    unfolding mb_addOrder_def using level pool place by (simp add: Let_def allocate_eq l [symmetric])
  moreover have "mb_frame b ?b6" by (simp add: mb_frame_def)
  moreover have "(\<lambda>q. mo_next (mord ?b6 q)) = (\<lambda>q. mo_next (mord b q))(p := Some p)"
    and "(\<lambda>q. mo_prev (mord ?b6 q)) = (\<lambda>q. mo_prev (mord b q))(p := Some p)"
    by (auto simp: fun_eq_iff)
  moreover have "mlvl ?b6 = (mlvl b)(l := \<lparr>ml_total_qty = Qty_INVALID + mo_qty (mord b p),
      ml_orders_count = 1, ml_side = mo_side (mord b p), ml_price = mo_price (mord b p),
      ml_first_order = Some p, ml_prev = Some l, ml_next = Some l\<rparr>)"
    by (auto simp: fun_eq_iff MarketOrderPriceLevel_ctor_def l)
  ultimately show thesis
    using pool by (intro that [of ?b6]) (simp_all add: l pool_inv_alloc)
qed

section \<open>Added orders join the ring of their index\<close>

lemma mb_ring_cong:
  assumes "\<And>p. p \<in> set ks \<Longrightarrow> mo_next (mord b' p) = mo_next (mord b p)"
    and "\<And>p. p \<in> set ks \<Longrightarrow> mo_prev (mord b' p) = mo_prev (mord b p)"
  shows "mb_ring b' ks = mb_ring b ks"
  unfolding mb_ring_def using assms by (intro cring_cong) auto

lemma mb_level_ok_other:
  assumes "mb_level_ok adds b i" and "update_index u \<noteq> i"
    and "orders_at_price_levels b' i = orders_at_price_levels b i"
    and "\<And>l. orders_at_price_levels b i = Some l \<Longrightarrow> mlvl b' l = mlvl b l"
    and "next_free_index (mb_level_pool b) \<le> next_free_index (mb_level_pool b')"
    and "\<And>p. p \<in> set (arrived adds i) \<Longrightarrow>
      mo_next (mord b' p) = mo_next (mord b p) \<and> mo_prev (mord b' p) = mo_prev (mord b p)"
  shows "mb_level_ok (adds @ [u]) b' i"
proof -
  have "mb_ring b' (arrived adds i) = mb_ring b (arrived adds i)"
    using assms(6) by (intro mb_ring_cong) auto
  then show ?thesis
    using assms by (auto simp: mb_level_ok_def arrived_snoc arrived_qtys split: option.splits)
qed

text \<open>The state between the allocation of an order and \<open>addOrder\<close>.\<close>

definition mb_ready :: "MEMarketUpdate list \<Rightarrow> MEMarketUpdate \<Rightarrow> MarketOrderBook \<Rightarrow> bool" where
  "mb_ready adds u b \<longleftrightarrow> orderId_to_order b = (\<lambda>_. None) \<and>
     bid_price_levels b = None \<and> ask_price_levels b = None \<and> best_offer b = BestBidOffer_default \<and>
     pool_inv (mb_order_pool b) \<and> pool_size (mb_order_pool b) = ME_MAX_ORDER_IDS \<and>
     next_free_index (mb_order_pool b) = Suc (length adds) \<and>
     pool_inv (mb_level_pool b) \<and> pool_size (mb_level_pool b) = ME_MAX_PRICE_LEVELS \<and>
     next_free_index (mb_level_pool b) = used_indices adds \<and>
     (\<forall>k < length adds. holds_update (mord b k) (adds ! k)) \<and> holds_update (mord b (length adds)) u \<and>
     (\<forall>i. mb_level_ok adds b i)"

lemma mb_ready_price: "mb_ready adds u b \<Longrightarrow> mo_price (mord b (length adds)) = mu_price u"
  and mb_ready_qty: "mb_ready adds u b \<Longrightarrow> mo_qty (mord b (length adds)) = mu_qty u"
  by (simp_all add: mb_ready_def holds_update_def)

lemma mb_inv_of_frame:
  assumes ready: "mb_ready adds u b" and frame: "mb_frame b b'"
    and lpool: "pool_inv (mb_level_pool b')"
      "next_free_index (mb_level_pool b') = used_indices (adds @ [u])"
    and levels: "\<And>i. mb_level_ok (adds @ [u]) b' i"
  shows "mb_inv (adds @ [u]) b'"
proof -
  have "holds_update (mord b' k) ((adds @ [u]) ! k)" if "k < Suc (length adds)" for k
    using that ready frame by (auto simp: mb_ready_def mb_frame_def nth_append less_Suc_eq)
  then show ?thesis
    using assms by (simp add: mb_inv_def mb_ready_def mb_frame_def)
qed

lemma mb_add_existing:
  assumes ready: "mb_ready adds u b" and level: "orders_at_price_levels b (update_index u) = Some l"
  shows "\<exists>b'. mb_addOrder b (length adds) = Inr b' \<and> mb_inv (adds @ [u]) b'"
proof -
  let ?p = "length adds" and ?i = "update_index u"
  let ?ks = "arrived adds ?i"
  have ok: "mb_level_ok adds b j" for j using ready by (simp add: mb_ready_def)
  have l: "?ks \<noteq> []" "l < next_free_index (mb_level_pool b)" "mb_priceToIndex (ml_price (mlvl b l)) = ?i"
    "ml_first_order (mlvl b l) = Some (hd ?ks)" and ring: "mb_ring b ?ks"
    and sums: "ml_total_qty (mlvl b l) = sum_list (map (\<lambda>k. mu_qty (adds ! k)) ?ks) - 1"
    "ml_orders_count (mlvl b l) = of_nat (length ?ks)"
    using ok [of ?i] level by (simp_all add: mb_level_ok_def)
  have fresh: "?p \<notin> set (arrived adds j)" for j by (simp add: set_arrived)
  have mem: "hd ?ks \<in> set ?ks" "last ?ks \<in> set ?ks" using l(1) by simp_all
  have last: "mo_prev (mord b (hd ?ks)) = Some (last ?ks)"
    using cring_hd_prev ring by (simp add: mb_ring_def)
  have at: "mb_getPriceLevel b (mo_price (mord b ?p)) = Some l"
    using level mb_ready_price [OF ready] by (simp add: mb_getPriceLevel_def update_index_def)
  have ne: "?p \<noteq> hd ?ks" using mem fresh by metis
  obtain b' where b': "mb_addOrder b ?p = Inr b'" "mb_frame b b'"
    and nexts: "(\<lambda>q. mo_next (mord b' q)) = (\<lambda>q. mo_next (mord b q))(last ?ks := Some ?p, ?p := Some (hd ?ks))"
    and prevs: "(\<lambda>q. mo_prev (mord b' q)) = (\<lambda>q. mo_prev (mord b q))(?p := Some (last ?ks), hd ?ks := Some ?p)"
    and same: "orders_at_price_levels b' = orders_at_price_levels b"
    and lvls: "mlvl b' = (mlvl b)(l := counted (mo_qty (mord b ?p)) (mlvl b l))"
    and pools: "pool_inv (mb_level_pool b') = pool_inv (mb_level_pool b)"
      "next_free_index (mb_level_pool b') = next_free_index (mb_level_pool b)"
    by (rule mb_addOrder_append [OF at l(4) last ne])
  have "mb_ring b' (?ks @ [?p])"
    unfolding mb_ring_def nexts prevs
    using ring fresh by (intro cring_append) (simp_all add: mb_ring_def)
  then have "mb_level_ok (adds @ [u]) b' ?i"
    using level l sums mb_ready_qty [OF ready]
    by (simp add: mb_level_ok_def same lvls counted_def arrived_snoc arrived_qtys pools)
  moreover have "mb_level_ok (adds @ [u]) b' j" if j: "?i \<noteq> j" for j
  proof (rule mb_level_ok_other [OF ok j])
    show "mlvl b' m = mlvl b m" if "orders_at_price_levels b j = Some m" for m
      using that ok [of j] l(3) j by (auto simp: lvls mb_level_ok_def)
    show "mo_next (mord b' q) = mo_next (mord b q) \<and> mo_prev (mord b' q) = mo_prev (mord b q)"
      if q: "q \<in> set (arrived adds j)" for q
    proof -
      have "q \<noteq> ?p" "q \<noteq> hd ?ks" "q \<noteq> last ?ks"
        using q mem j by (auto simp: set_arrived)
      then show ?thesis using fun_cong [OF nexts, of q] fun_cong [OF prevs, of q] by simp
    qed
  qed (simp_all add: same pools)
  ultimately have "mb_level_ok (adds @ [u]) b' j" for j by (cases "?i = j") auto
  then have "mb_inv (adds @ [u]) b'"
    using ready l(1) by (intro mb_inv_of_frame [OF ready b'(2)])
      (simp_all add: pools mb_ready_def used_indices_snoc)
  with b'(1) show ?thesis by blast
qed

lemma mb_add_first:
  assumes ready: "mb_ready adds u b" and level: "orders_at_price_levels b (update_index u) = None"
    and room: "Suc (used_indices adds) < ME_MAX_PRICE_LEVELS"
  shows "\<exists>b'. mb_addOrder b (length adds) = Inr b' \<and> mb_inv (adds @ [u]) b'"
proof -
  let ?p = "length adds" and ?i = "update_index u" and ?l = "next_free_index (mb_level_pool b)"
  have ok: "mb_level_ok adds b j" for j using ready by (simp add: mb_ready_def)
  have empty: "arrived adds ?i = []" using ok [of ?i] level by (simp add: mb_level_ok_def)
  have price: "mo_price (mord b ?p) = mu_price u" by (rule mb_ready_price [OF ready])
  have at: "mb_getPriceLevel b (mo_price (mord b ?p)) = None"
    using level price by (simp add: mb_getPriceLevel_def update_index_def)
  have heads: "bid_price_levels b = None" "ask_price_levels b = None"
    and pool: "pool_inv (mb_level_pool b)" "Suc ?l < pool_size (mb_level_pool b)"
    and free: "?l = used_indices adds"
    using ready room by (simp_all add: mb_ready_def)
  obtain b' where b': "mb_addOrder b ?p = Inr b'" "mb_frame b b'"
    and nexts: "(\<lambda>q. mo_next (mord b' q)) = (\<lambda>q. mo_next (mord b q))(?p := Some ?p)"
    and prevs: "(\<lambda>q. mo_prev (mord b' q)) = (\<lambda>q. mo_prev (mord b q))(?p := Some ?p)"
    and here: "orders_at_price_levels b' =
      (orders_at_price_levels b)(mb_priceToIndex (mo_price (mord b ?p)) := Some ?l)"
    and lvls: "mlvl b' = (mlvl b)(?l := \<lparr>ml_total_qty = Qty_INVALID + mo_qty (mord b ?p),
        ml_orders_count = 1, ml_side = mo_side (mord b ?p), ml_price = mo_price (mord b ?p),
        ml_first_order = Some ?p, ml_prev = Some ?l, ml_next = Some ?l\<rparr>)"
    and pool': "pool_inv (mb_level_pool b')" "next_free_index (mb_level_pool b') = Suc ?l"
    by (rule mb_addOrder_new_level [OF at heads pool refl])
  have links: "mo_next (mord b' q) = (if q = ?p then Some ?p else mo_next (mord b q))"
    "mo_prev (mord b' q) = (if q = ?p then Some ?p else mo_prev (mord b q))" for q
    using fun_cong [OF nexts, of q] fun_cong [OF prevs, of q] by simp_all
  have "mb_level_ok (adds @ [u]) b' ?i"
    using mb_ready_qty [OF ready]
    by (simp add: mb_level_ok_def here price lvls arrived_snoc empty pool' mb_ring_def links
        update_index_def empty [unfolded update_index_def] Qty_INVALID_def)
  moreover have "mb_level_ok (adds @ [u]) b' j" if j: "?i \<noteq> j" for j
  proof (rule mb_level_ok_other [OF ok j])
    show "orders_at_price_levels b' j = orders_at_price_levels b j"
      using j by (simp add: here price update_index_def)
    show "mlvl b' m = mlvl b m" if "orders_at_price_levels b j = Some m" for m
      using that ok [of j] by (auto simp: lvls mb_level_ok_def)
    show "mo_next (mord b' q) = mo_next (mord b q) \<and> mo_prev (mord b' q) = mo_prev (mord b q)"
      if "q \<in> set (arrived adds j)" for q
      using that by (auto simp: links set_arrived)
  qed (simp add: pool')
  ultimately have "mb_level_ok (adds @ [u]) b' j" for j by (cases "?i = j") auto
  then have "mb_inv (adds @ [u]) b'"
    using empty by (intro mb_inv_of_frame [OF ready b'(2)])
      (simp_all add: pool' used_indices_snoc free)
  with b'(1) show ?thesis by blast
qed

section \<open>A market update on a reachable book\<close>

text \<open>One block of each pool is never handed out, so the orders and the indices in use stay below.\<close>

definition fits :: "MEMarketUpdate list \<Rightarrow> bool" where
  "fits adds \<longleftrightarrow> length adds < ME_MAX_ORDER_IDS \<and> used_indices adds < ME_MAX_PRICE_LEVELS"

lemma mb_inv_fits: "mb_inv adds b \<Longrightarrow> fits adds"
  by (simp add: mb_inv_def fits_def pool_inv_def)

lemma mb_inv_no_tests: "mb_inv adds b \<Longrightarrow> best_ask_updated b u = Inr False"
  by (simp add: mb_inv_def best_ask_updated_def)

lemma mb_ready_alloc:
  assumes inv: "mb_inv adds b" and room: "Suc (length adds) < ME_MAX_ORDER_IDS"
    and holds: "holds_update r u"
  shows "mb_ready adds u (b\<lparr>mb_order_pool := pool_alloc (mb_order_pool b) r\<rparr>)"
    (is "mb_ready adds u ?b")
proof -
  have free: "next_free_index (mb_order_pool b) = length adds" using inv by (simp add: mb_inv_def)
  have "mb_ring ?b (arrived adds i) = mb_ring b (arrived adds i)" for i
    by (rule mb_ring_cong) (auto simp: free set_arrived)
  moreover have "mlvl ?b = mlvl b" by simp
  ultimately have "mb_level_ok adds ?b i = mb_level_ok adds b i" for i
    by (simp add: mb_level_ok_def split: option.split)
  then show ?thesis
    using inv room holds by (simp add: mb_ready_def mb_inv_def pool_inv_alloc)
qed

lemma mb_add_no_level:
  assumes ready: "mb_ready adds u b" and level: "orders_at_price_levels b (update_index u) = None"
    and full: "Suc (used_indices adds) = ME_MAX_PRICE_LEVELS"
  shows "mb_addOrder b (length adds) = Inl Out_of_bounds"
proof -
  have "mb_getPriceLevel b (mo_price (mord b (length adds))) = None"
    using level mb_ready_price [OF ready] by (simp add: mb_getPriceLevel_def update_index_def)
  then show ?thesis
    using ready full by (simp add: mb_addOrder_def Let_def mb_ready_def allocate_eq)
qed

lemma onMarketUpdate_add:
  assumes inv: "mb_inv adds b" and ty: "mu_type u = ADD"
  shows "if fits (adds @ [u]) then \<exists>b'. onMarketUpdate u b = Inr b' \<and> mb_inv (adds @ [u]) b'
    else onMarketUpdate u b = Inl Out_of_bounds"
proof (cases "Suc (length adds) < ME_MAX_ORDER_IDS")
  case False
  then have "onMarketUpdate u b = Inl Out_of_bounds"
    using inv ty by (simp add: onMarketUpdate_def mb_inv_no_tests [OF inv] mb_inv_def allocate_eq)
  with False show ?thesis by (simp add: fits_def)
next
  case room: True
  define r where "r = \<lparr>mo_orderId = mu_orderId u, mo_side = mu_side u, mo_price = mu_price u,
    mo_qty = mu_qty u, mo_priority = mu_priority u, mo_next = None, mo_prev = None\<rparr>"
  let ?b = "b\<lparr>mb_order_pool := pool_alloc (mb_order_pool b) r\<rparr>"
  have run: "onMarketUpdate u b = mb_addOrder ?b (length adds)"
    using inv ty room
    by (simp add: onMarketUpdate_def mb_inv_no_tests [OF inv] mb_inv_def allocate_eq r_def)
  have ready: "mb_ready adds u ?b"
    by (rule mb_ready_alloc [OF inv room]) (simp add: r_def holds_update_def)
  show ?thesis
  proof (cases "orders_at_price_levels ?b (update_index u)")
    case (Some l)
    have "mb_level_ok adds ?b (update_index u)" using ready by (simp add: mb_ready_def)
    then have "arrived adds (update_index u) \<noteq> []" using Some by (simp add: mb_level_ok_def)
    then have "fits (adds @ [u])"
      using mb_inv_fits [OF inv] room by (simp add: fits_def used_indices_snoc)
    then show ?thesis using mb_add_existing [OF ready Some] run by simp
  next
    case None
    have "mb_level_ok adds ?b (update_index u)" using ready by (simp add: mb_ready_def)
    then have empty: "arrived adds (update_index u) = []" using None by (simp add: mb_level_ok_def)
    show ?thesis
    proof (cases "Suc (used_indices adds) < ME_MAX_PRICE_LEVELS")
      case True
      then have "fits (adds @ [u])" using room empty by (simp add: fits_def used_indices_snoc)
      then show ?thesis using mb_add_first [OF ready None True] run by simp
    next
      case False
      then have "Suc (used_indices adds) = ME_MAX_PRICE_LEVELS"
        using mb_inv_fits [OF inv] by (simp add: fits_def)
      moreover from this have "\<not> fits (adds @ [u])" using empty by (simp add: fits_def used_indices_snoc)
      ultimately show ?thesis using mb_add_no_level [OF ready None] run by simp
    qed
  qed
qed

lemma foldR_idle: "(\<And>x. x \<in> set xs \<Longrightarrow> f x s = Inr s) \<Longrightarrow> foldR f xs s = Inr s"
  by (induction xs) auto

lemma clear_book_idle: "mb_inv adds b \<Longrightarrow> clear_book b = Inr b"
proof -
  assume inv: "mb_inv adds b"
  have "foldR clear_order [0..<ME_MAX_ORDER_IDS] b = Inr b"
    using inv by (intro foldR_idle) (simp add: clear_order_def mb_inv_def)
  then show ?thesis using inv by (simp add: clear_book_def clear_side_def mb_inv_def)
qed

lemma onMarketUpdate_other:
  assumes inv: "mb_inv adds b" and ty: "mu_type u \<noteq> ADD"
  shows "onMarketUpdate u b =
    (if mu_type u \<in> {MODIFY, CANCEL} \<and> ME_MAX_ORDER_IDS \<le> unat (mu_orderId u) then Inl Out_of_range
     else if mu_type u = MODIFY then Inl Null_deref else Inr b)"
  using inv ty
  by (cases "mu_type u")
    (auto simp: onMarketUpdate_def mb_inv_no_tests [OF inv] clear_book_idle [OF inv] mb_inv_def)

definition adds_of :: "MEMarketUpdate list \<Rightarrow> MEMarketUpdate list" where
  "adds_of us = filter (\<lambda>u. mu_type u = ADD) us"

definition market_book_run :: "TickerId \<Rightarrow> MEMarketUpdate list \<Rightarrow> MarketOrderBook res" where
  "market_book_run t us = foldR onMarketUpdate us (MarketOrderBook_zeroed t)"

lemma market_book_run_snoc:
  "market_book_run t (us @ [u]) = bindR (market_book_run t us) (onMarketUpdate u)"
proof -
  have "foldR onMarketUpdate [u] = onMarketUpdate u" by (simp add: fun_eq_iff bindR_def split: sum.split)
  then show ?thesis by (simp add: market_book_run_def foldR_append)
qed

lemma mb_run_inv: "market_book_run t us = Inr b \<Longrightarrow> mb_inv (adds_of us) b"
proof (induction us arbitrary: b rule: rev_induct)
  case Nil
  then show ?case using mb_inv_init [of t] by (auto simp: market_book_run_def adds_of_def)
next
  case (snoc u us)
  then obtain c where c: "market_book_run t us = Inr c" and step: "onMarketUpdate u c = Inr b"
    by (auto simp: market_book_run_snoc bindR_eq_Inr)
  note inv = snoc.IH [OF c]
  show ?case
  proof (cases "mu_type u = ADD")
    case True
    then show ?thesis
      using onMarketUpdate_add [OF inv True] step by (auto simp: adds_of_def split: if_splits)
  next
    case False
    then show ?thesis
      using onMarketUpdate_other [OF inv False] step inv by (auto simp: adds_of_def split: if_splits)
  qed
qed

text \<open>A run within the capacities, without a \<open>MODIFY\<close> or an identifier out of range, succeeds.\<close>

definition harmless :: "MEMarketUpdate \<Rightarrow> bool" where
  "harmless u \<longleftrightarrow> mu_type u \<noteq> MODIFY \<and>
     (mu_type u = CANCEL \<longrightarrow> unat (mu_orderId u) < ME_MAX_ORDER_IDS)"

lemma fits_snocD: "fits (adds @ [u]) \<Longrightarrow> fits adds"
  by (auto simp: fits_def used_indices_snoc split: if_splits)

lemma market_book_returns:
  "list_all harmless us \<Longrightarrow> fits (adds_of us) \<Longrightarrow> \<exists>b. market_book_run t us = Inr b"
proof (induction us rule: rev_induct)
  case Nil
  then show ?case by (simp add: market_book_run_def)
next
  case (snoc u us)
  have "fits (adds_of us)" using snoc.prems(2) by (auto simp: adds_of_def split: if_splits dest: fits_snocD)
  then obtain c where c: "market_book_run t us = Inr c" using snoc.IH snoc.prems(1) by auto
  note inv = mb_run_inv [OF c]
  have "\<exists>b. onMarketUpdate u c = Inr b"
  proof (cases "mu_type u = ADD")
    case True
    then show ?thesis
      using onMarketUpdate_add [OF inv True] snoc.prems(2) by (auto simp: adds_of_def split: if_splits)
  next
    case False
    then show ?thesis
      using onMarketUpdate_other [OF inv False] snoc.prems(1) by (auto simp: harmless_def)
  qed
  then show ?case by (simp add: market_book_run_snoc c)
qed

section \<open>Properties\<close>

text \<open>A run for the examples: three orders, two of them at one price, and a cancellation.\<close>

definition demo_update :: "MarketUpdateType \<Rightarrow> OrderId \<Rightarrow> Price \<Rightarrow> Qty \<Rightarrow> MEMarketUpdate" where
  "demo_update ty oid price qty = \<lparr>mu_type = ty, mu_orderId = oid, mu_tickerId = 0, mu_side = BUY,
     mu_price = price, mu_qty = qty, mu_priority = 1\<rparr>"

definition demo_updates :: "MEMarketUpdate list" where
  "demo_updates = [demo_update ADD 1 100 5, demo_update ADD 2 101 7, demo_update ADD 3 100 6,
     demo_update CANCEL 1 100 5]"

lemma demo_adds:
  "adds_of demo_updates = [demo_update ADD 1 100 5, demo_update ADD 2 101 7, demo_update ADD 3 100 6]"
  by (simp add: adds_of_def demo_updates_def demo_update_def)

lemma demo_arrived:
  "arrived (adds_of demo_updates) 100 = [0, 2]" "arrived (adds_of demo_updates) 101 = [1]"
  by (simp_all add: arrived_def demo_adds update_index_def mb_priceToIndex_def demo_update_def
      ME_MAX_PRICE_LEVELS_def upt_rec)

lemma demo_market_book: "\<exists>b. market_book_run 0 demo_updates = Inr b"
proof (rule market_book_returns)
  show "list_all harmless demo_updates"
    by (simp add: demo_updates_def demo_update_def harmless_def ME_MAX_ORDER_IDS_def)
  show "fits (adds_of demo_updates)"
    by (simp add: fits_def demo_adds used_indices_def update_index_def demo_update_def
        mb_priceToIndex_def ME_MAX_ORDER_IDS_def ME_MAX_PRICE_LEVELS_def card_insert_if)
qed

text \<open>
  C33. The client's book holds exactly the added orders: after any run of market updates that does
  not fail, block \<open>k\<close> of the order pool holds the data of the \<open>k\<close>-th \<open>ADD\<close>, and every index of
  the price ladder is empty or its level heads one circular list with all orders ever added at that
  index, in arrival order, with their number as the count and, since the level's total starts
  at \<open>Qty_INVALID\<close>, one less than their summed quantity (modulo \<open>2 ^ 32\<close>) as the total.
\<close>

theorem market_book_rings:
  assumes "market_book_run t us = Inr b"
  shows "(\<forall>k < length (adds_of us). holds_update (mord b k) (adds_of us ! k)) \<and>
    (\<forall>i. case orders_at_price_levels b i of
        None \<Rightarrow> arrived (adds_of us) i = []
      | Some l \<Rightarrow> ml_first_order (mlvl b l) = Some (hd (arrived (adds_of us) i)) \<and>
          mb_ring b (arrived (adds_of us) i) \<and>
          ml_total_qty (mlvl b l) =
            sum_list (map (\<lambda>k. mu_qty (adds_of us ! k)) (arrived (adds_of us) i)) - 1 \<and>
          ml_orders_count (mlvl b l) = of_nat (length (arrived (adds_of us) i)))"
proof -
  have inv: "mb_inv (adds_of us) b" by (rule mb_run_inv [OF assms])
  then have level: "mb_level_ok (adds_of us) b i" for i by (simp add: mb_inv_def)
  show ?thesis
  proof (intro conjI allI)
    fix i
    show "case orders_at_price_levels b i of None \<Rightarrow> arrived (adds_of us) i = []
      | Some l \<Rightarrow> ml_first_order (mlvl b l) = Some (hd (arrived (adds_of us) i)) \<and>
          mb_ring b (arrived (adds_of us) i) \<and>
          ml_total_qty (mlvl b l) =
            sum_list (map (\<lambda>k. mu_qty (adds_of us ! k)) (arrived (adds_of us) i)) - 1 \<and>
          ml_orders_count (mlvl b l) = of_nat (length (arrived (adds_of us) i))"
      using level [of i] by (cases "orders_at_price_levels b i") (simp_all add: mb_level_ok_def)
  qed (use inv in \<open>simp add: mb_inv_def\<close>)
qed

theorem market_book_rings_witness:
  "\<exists>b l. market_book_run 0 demo_updates = Inr b \<and> orders_at_price_levels b 100 = Some l \<and>
     ml_first_order (mlvl b l) = Some 0 \<and> mb_ring b [0, 2] \<and> ml_total_qty (mlvl b l) = 10 \<and>
     ml_orders_count (mlvl b l) = 2"
proof -
  obtain b where run: "market_book_run 0 demo_updates = Inr b" using demo_market_book by blast
  note level = market_book_rings [OF run, THEN conjunct2, THEN spec [of _ 100]]
  obtain l where l: "orders_at_price_levels b 100 = Some l"
    using level by (cases "orders_at_price_levels b 100") (auto simp: demo_arrived)
  with level run show ?thesis by (auto simp: demo_arrived) (simp add: demo_adds demo_update_def)
qed

text \<open>
  An \<open>ADD\<close> on a reachable book of the client succeeds exactly as long as one block of each pool
  is left: fewer than \<open>ME_MAX_ORDER_IDS\<close> orders and fewer than \<open>ME_MAX_PRICE_LEVELS\<close> indices of the
  ladder in use, the new one included. Otherwise it reads past the end of a pool.
\<close>

theorem market_book_add_capacity:
  assumes "market_book_run t us = Inr b" and "mu_type u = ADD"
  shows "if fits (adds_of us @ [u]) then \<exists>b'. onMarketUpdate u b = Inr b'
    else onMarketUpdate u b = Inl Out_of_bounds"
  using onMarketUpdate_add [OF mb_run_inv [OF assms(1)] assms(2)] by (auto split: if_splits)

theorem market_book_add_capacity_witness:
  "\<exists>b b'. market_book_run 0 demo_updates = Inr b \<and> onMarketUpdate (demo_update ADD 9 102 1) b = Inr b'"
proof -
  obtain b where run: "market_book_run 0 demo_updates = Inr b" using demo_market_book by blast
  have "fits (adds_of demo_updates @ [demo_update ADD 9 102 1])"
    by (simp add: fits_def demo_adds used_indices_def update_index_def demo_update_def
        mb_priceToIndex_def ME_MAX_ORDER_IDS_def ME_MAX_PRICE_LEVELS_def card_insert_if)
  then show ?thesis
    using run market_book_add_capacity [OF run, of "demo_update ADD 9 102 1"]
    by (simp add: demo_update_def)
qed

text \<open>
  No update other than an \<open>ADD\<close> ever changes a reachable book of the client: \<open>CANCEL\<close>, \<open>TRADE\<close>,
  \<open>CLEAR\<close>, the snapshot marks and unknown types leave it as it is, a \<open>MODIFY\<close> dereferences null,
  and an identifier past the order table ends the program.
\<close>

theorem market_book_only_adds:
  assumes "market_book_run t us = Inr b" and "mu_type u \<noteq> ADD"
  shows "onMarketUpdate u b =
    (if mu_type u \<in> {MODIFY, CANCEL} \<and> ME_MAX_ORDER_IDS \<le> unat (mu_orderId u) then Inl Out_of_range
     else if mu_type u = MODIFY then Inl Null_deref else Inr b)"
  by (rule onMarketUpdate_other [OF mb_run_inv [OF assms(1)] assms(2)])

theorem market_book_only_adds_witness:
  "\<exists>b. market_book_run 0 demo_updates = Inr b \<and> onMarketUpdate (demo_update CANCEL 2 101 0) b = Inr b \<and>
     onMarketUpdate (demo_update CLEAR 0 0 0) b = Inr b \<and>
     onMarketUpdate (demo_update MODIFY 2 101 3) b = Inl Null_deref \<and>
     onMarketUpdate (demo_update CANCEL (- 1) 101 0) b = Inl Out_of_range"
proof -
  obtain b where run: "market_book_run 0 demo_updates = Inr b" using demo_market_book by blast
  note eq = market_book_only_adds [OF run]
  have "unat (- 1 :: u64) = 18446744073709551615"
    by (simp add: unsigned_minus_1_eq_mask mask_eq_exp_minus_1)
  then show ?thesis
    using run eq [of "demo_update CANCEL 2 101 0"] eq [of "demo_update CLEAR 0 0 0"]
      eq [of "demo_update MODIFY 2 101 3"] eq [of "demo_update CANCEL (- 1) 101 0"]
    by (auto simp: demo_update_def ME_MAX_ORDER_IDS_def)
qed

text \<open>
  The client's best bid and best offer are never set: on every reachable book both pointers of
  the structure that \<open>getBBO\<close> returns are null, and printing it dereferences null.
\<close>

theorem market_book_no_bbo:
  assumes "market_book_run t us = Inr b"
  shows "getBBO b = BestBidOffer_default \<and>
    BestBidOffer_toString (mb_level_pool b) (getBBO b) = Inl Null_deref"
  using mb_run_inv [OF assms]
  by (simp add: getBBO_def mb_inv_def BestBidOffer_toString_def BestBidOffer_default_def)

theorem market_book_no_bbo_witness:
  "\<exists>b. market_book_run 0 demo_updates = Inr b \<and>
     BestBidOffer_toString (mb_level_pool b) (getBBO b) = Inl Null_deref"
proof -
  obtain b where run: "market_book_run 0 demo_updates = Inr b" using demo_market_book by blast
  then show ?thesis using market_book_no_bbo [OF run] by blast
qed

end
