(* ===== verification/BookMirror.thy ===== *)
theory BookMirror
  imports EngineProps MarketBookProps "HOL-Library.Sublist"
begin

text \<open>
  The client's book beside the exchange's: what the market updates of the matching engine make of a
  new client book. Both books number the orders of an instrument in the order they were added,
  so the abstract book of the exchange and the history that determines the client's book can be
  compared block by block.
\<close>

section \<open>What both books show of an order\<close>

type_synonym book_line = "OrderId \<times> Side \<times> Price \<times> Qty \<times> Priority"

definition order_view :: "MEOrder \<Rightarrow> book_line" where
  "order_view r = (ord_market_orderId r, ord_side r, ord_price r, ord_qty r, ord_priority r)"

definition update_view :: "MEMarketUpdate \<Rightarrow> book_line" where
  "update_view u = (mu_orderId u, mu_side u, mu_price u, mu_qty u, mu_priority u)"

definition client_view :: "MarketOrder \<Rightarrow> book_line" where
  "client_view r = (mo_orderId r, mo_side r, mo_price r, mo_qty r, mo_priority r)"

lemma holds_update_view: "holds_update r u \<longleftrightarrow> client_view r = update_view u"
  by (simp add: holds_update_def client_view_def update_view_def)

lemma order_view_data [simp]: "order_view (ord_data r) = order_view r"
  by (simp add: order_view_def ord_data_def)

definition ticker_updates :: "TickerId \<Rightarrow> MEMarketUpdate list \<Rightarrow> MEMarketUpdate list" where
  "ticker_updates t us = filter (\<lambda>u. mu_tickerId u = t) us"

lemma ticker_updates_simps [simp]:
  "ticker_updates t [] = []" "ticker_updates t (us @ vs) = ticker_updates t us @ ticker_updates t vs"
  "adds_of [] = []" "adds_of (us @ vs) = adds_of us @ adds_of vs"
  by (simp_all add: ticker_updates_def adds_of_def)

section \<open>The abstract book and the history of its additions\<close>

text \<open>
  Ticket \<open>k\<close> of the abstract book is the \<open>k\<close>-th order added, and what rests at an index is what
  was added there without the cancelled orders.
\<close>

definition mirrors :: "spec_book \<Rightarrow> MEMarketUpdate list \<Rightarrow> bool" where
  "mirrors A adds \<longleftrightarrow> length adds = sp_tickets A \<and> sp_tickets A < ME_MAX_ORDER_IDS \<and>
     used_indices adds \<le> sp_levels A \<and> sp_levels A < ME_MAX_PRICE_LEVELS \<and>
     (\<forall>k < length adds. order_view (sp_orders A k) = update_view (adds ! k)) \<and>
     (\<forall>i. subseq (sp_queue A i) (arrived adds i))"

definition nothing_cancelled :: "spec_book \<Rightarrow> MEMarketUpdate list \<Rightarrow> bool" where
  "nothing_cancelled A adds \<longleftrightarrow> sp_queue A = arrived adds"

lemma mirrors_fits: "mirrors A adds \<Longrightarrow> fits adds"
  by (simp add: mirrors_def fits_def)

lemma update_index_add [simp]: "update_index (add_update n t s p q prio) = priceToIndex p"
  by (simp add: update_index_def add_update_def priceToIndex_def mb_priceToIndex_def)

lemma mirrors_insert:
  assumes "mirrors A adds" and "Suc (sp_tickets A) < ME_MAX_ORDER_IDS"
    and "sp_queue A (priceToIndex (ord_price x)) = [] \<longrightarrow> Suc (sp_levels A) < ME_MAX_PRICE_LEVELS"
    and "update_view u = order_view x" and "update_index u = priceToIndex (ord_price x)"
  shows "mirrors (spec_insert A x) (adds @ [u])"
    and "nothing_cancelled A adds \<Longrightarrow> nothing_cancelled (spec_insert A x) (adds @ [u])"
proof -
  let ?i = "priceToIndex (ord_price x)" and ?A = "spec_insert A x"
  have len: "length adds = sp_tickets A" and sub: "subseq (sp_queue A i) (arrived adds i)" for i
    using assms(1) by (simp_all add: mirrors_def)
  have orders: "sp_orders ?A = (sp_orders A)(sp_tickets A := x)" "sp_tickets ?A = Suc (sp_tickets A)"
    "sp_queue ?A = (sp_queue A)(?i := sp_queue A ?i @ [sp_tickets A])"
    "sp_levels ?A = (if sp_queue A ?i = [] then Suc (sp_levels A) else sp_levels A)"
    by (simp_all add: spec_insert_def Let_def)
  have "order_view (sp_orders ?A k) = update_view ((adds @ [u]) ! k)" if "k < length (adds @ [u])" for k
    using that assms(1,4) by (auto simp: orders nth_append mirrors_def less_Suc_eq)
  moreover have "subseq (sp_queue ?A i) (arrived (adds @ [u]) i)" for i
    using sub [of i] by (auto simp: orders arrived_snoc assms(5) len intro: list_emb_append_mono)
  moreover have "used_indices (adds @ [u]) \<le> sp_levels ?A"
  proof (cases "sp_queue A ?i = []")
    case False
    then have "arrived adds ?i \<noteq> []" using sub [of ?i] by auto
    then show ?thesis using assms(1) False by (simp add: used_indices_snoc assms(5) orders mirrors_def)
  qed (use assms(1) in \<open>simp add: used_indices_snoc orders mirrors_def\<close>)
  ultimately show "mirrors ?A (adds @ [u])"
    using assms(1-3) unfolding mirrors_def by (auto simp: orders)
  show "nothing_cancelled ?A (adds @ [u])" if "nothing_cancelled A adds"
    using that by (auto simp: nothing_cancelled_def orders arrived_snoc assms(5) len fun_eq_iff)
qed

lemma mirrors_remove: "mirrors A adds \<Longrightarrow> mirrors (spec_remove A p) adds"
  by (auto simp: mirrors_def spec_remove_def intro: subseq_order.trans [OF subseq_filter_left])

lemma mirrors_add:
  assumes "mirrors A adds" and "spec_add A c k tk s p q = Inr (A', rs, us)"
  shows "mirrors A' (adds @ adds_of us)" and "nothing_cancelled A adds \<Longrightarrow> nothing_cancelled A' (adds @ adds_of us)"
proof -
  let ?A0 = "A\<lparr>sp_next_id := sp_next_id A + 1\<rparr>" and ?i = "priceToIndex p"
  let ?x = "\<lparr>ord_tickerId = tk, ord_clientId = c, ord_client_orderId = k, ord_market_orderId = sp_next_id A, ord_side = s,
    ord_price = p, ord_qty = q, ord_priority = spec_priority A ?i, ord_prev = None, ord_next = None\<rparr>"
  let ?u = "add_update (sp_next_id A) tk s p q (spec_priority A ?i)"
  have A0: "mirrors ?A0 adds" "nothing_cancelled ?A0 adds = nothing_cancelled A adds"
    using assms(1) by (simp_all add: mirrors_def nothing_cancelled_def)
  consider "us = []" "A' = ?A0"
    | "us = [?u]" "A' = spec_insert ?A0 ?x" "Suc (sp_tickets A) < ME_MAX_ORDER_IDS"
      "sp_queue A ?i = [] \<longrightarrow> Suc (sp_levels A) < ME_MAX_PRICE_LEVELS"
    using assms(2) by (auto simp: spec_add_def Let_def split: if_splits)
  then have "mirrors A' (adds @ adds_of us) \<and> (nothing_cancelled A adds \<longrightarrow> nothing_cancelled A' (adds @ adds_of us))"
  proof cases
    case 2
    have "update_view ?u = order_view ?x" by (simp add: update_view_def order_view_def add_update_def)
    note ins = mirrors_insert [OF A0(1), of ?x ?u, OF _ _ this]
    have "adds_of us = [?u]" by (simp add: 2(1) adds_of_def add_update_def)
    then show ?thesis using ins 2 A0(2) by simp
  qed (use A0 in simp)
  then show "mirrors A' (adds @ adds_of us)" and "nothing_cancelled A adds \<Longrightarrow> nothing_cancelled A' (adds @ adds_of us)"
    by blast+
qed

lemma mirrors_cancel:
  assumes "mirrors A adds" and "spec_cancel A c k tk = Inr (A', rs, us)"
  shows "mirrors A' adds" and "adds_of us = []"
  using assms mirrors_remove
  by (auto simp: spec_cancel_def adds_of_def cancel_update_def split: if_splits option.splits)

text \<open>The updates of a request are of its ticker, and none can make the client's book fail.\<close>

lemma spec_process_updates:
  assumes "spec_process r B = Inr (B', rs, us)"
  shows "list_all harmless us \<and> (\<forall>u \<in> set us. mu_tickerId u = rq_tickerId r)"
  using assms
proof (cases rule: spec_process_cases)
  case (new A)
  from new(2) show ?thesis
    by (auto simp: spec_add_def Let_def harmless_def add_update_def split: if_splits)
next
  case (can A)
  from can(2) show ?thesis
    by (auto simp: spec_cancel_def harmless_def cancel_update_def split: if_splits option.splits)
qed

section \<open>A run of requests\<close>

definition only_new :: "MEClientRequest list \<Rightarrow> bool" where
  "only_new rqs \<longleftrightarrow> (\<forall>r \<in> set rqs. rq_requestType r = Request_NEW)"

lemma spec_process_mirrors:
  assumes B: "mirrors (B (unat t)) adds" and run: "spec_process r B = Inr (B', rs, us)"
  shows "mirrors (B' (unat t)) (adds @ adds_of (ticker_updates t us)) \<and> list_all harmless us \<and>
    (rq_requestType r = Request_NEW \<longrightarrow> nothing_cancelled (B (unat t)) adds \<longrightarrow>
      nothing_cancelled (B' (unat t)) (adds @ adds_of (ticker_updates t us)))"
proof -
  let ?tk = "rq_tickerId r"
  note any = spec_process_updates [OF run]
  then have other: "ticker_updates t us = (if ?tk = t then us else [])"
    by (auto simp: ticker_updates_def filter_empty_conv)
  show ?thesis
    using run
  proof (cases rule: spec_process_cases)
    case (new A)
    show ?thesis
    proof (cases "?tk = t")
      case True
      then show ?thesis using mirrors_add [OF B, of _ _ _ _ _ _ A rs us] new other any by simp
    next
      case False
      then have "unat ?tk \<noteq> unat t" by (simp add: word_unat_eq_iff)
      then show ?thesis using False new(3) B other any by simp
    qed
  next
    case (can A)
    show ?thesis
    proof (cases "?tk = t")
      case True
      then show ?thesis using mirrors_cancel [OF B, of _ _ _ A rs us] can other any by simp
    next
      case False
      then have "unat ?tk \<noteq> unat t" by (simp add: word_unat_eq_iff)
      then show ?thesis using False can(1,3) B other any by simp
    qed
  qed
qed

lemma spec_requests_mirror:
  "spec_requests rqs B = Inr (B', rs, us) \<Longrightarrow> mirrors (B (unat t)) adds \<Longrightarrow>
   mirrors (B' (unat t)) (adds @ adds_of (ticker_updates t us)) \<and> list_all harmless us \<and>
   (only_new rqs \<longrightarrow> nothing_cancelled (B (unat t)) adds \<longrightarrow>
     nothing_cancelled (B' (unat t)) (adds @ adds_of (ticker_updates t us)))"
proof (induction rqs arbitrary: B rs us adds)
  case (Cons r rqs)
  then obtain B1 rs1 us1 rs2 us2 where step: "spec_process r B = Inr (B1, rs1, us1)"
    and rest: "spec_requests rqs B1 = Inr (B', rs2, us2)" and us: "us = us1 @ us2"
    by (auto simp: bindR_eq_Inr)
  note one = spec_process_mirrors [OF Cons.prems(2) step]
  note two = Cons.IH [OF rest, of "adds @ adds_of (ticker_updates t us1)"]
  show ?case using one two by (simp add: us only_new_def)
qed simp

text \<open>Updates survive the wire: a book that has seen only decoded sides sends only such sides.\<close>

definition sides_canonical :: "spec_books \<Rightarrow> bool" where
  "sides_canonical B \<longleftrightarrow> (\<forall>t p. side_canonical (ord_side (sp_orders (B t) p)))"

lemma spec_process_canonical:
  assumes "spec_process r B = Inr (B', rs, us)" and "sides_canonical B" and "request_canonical r"
  shows "sides_canonical B' \<and> (\<forall>u \<in> set us. update_canonical u)"
  using assms(1)
proof (cases rule: spec_process_cases)
  case (new A)
  then show ?thesis
    using assms(2,3)
    by (auto simp: spec_add_def Let_def sides_canonical_def request_canonical_def update_canonical_def add_update_def
        spec_insert_def split: if_splits)
next
  case (can A)
  then show ?thesis
    using assms(2)
    by (auto simp: spec_cancel_def sides_canonical_def update_canonical_def cancel_update_def spec_remove_def
        split: if_splits option.splits)
qed

lemma spec_requests_canonical:
  "spec_requests rqs B = Inr (B', rs, us) \<Longrightarrow> sides_canonical B \<Longrightarrow> \<forall>r \<in> set rqs. request_canonical r \<Longrightarrow>
   \<forall>u \<in> set us. update_canonical u"
proof (induction rqs arbitrary: B rs us)
  case (Cons r rqs)
  then obtain B1 rs1 us1 rs2 us2 where step: "spec_process r B = Inr (B1, rs1, us1)"
    and rest: "spec_requests rqs B1 = Inr (B', rs2, us2)" and us: "us = us1 @ us2"
    by (auto simp: bindR_eq_Inr)
  have "sides_canonical B1 \<and> (\<forall>u \<in> set us1. update_canonical u)"
    using spec_process_canonical [OF step] Cons.prems(2,3) by simp
  then show ?case using Cons.IH [OF rest] Cons.prems(3) by (auto simp: us)
qed simp

section \<open>The two books\<close>

text \<open>What a price index of the client's book holds: no level, or one whose ring is the list of blocks.\<close>

definition client_level :: "MarketOrderBook \<Rightarrow> nat \<Rightarrow> nat list \<Rightarrow> bool" where
  "client_level b i ks \<longleftrightarrow> (case orders_at_price_levels b i of
     None \<Rightarrow> ks = []
   | Some l \<Rightarrow> ks \<noteq> [] \<and> ml_first_order (mlvl b l) = Some (hd ks) \<and> mb_ring b ks)"

definition resting_views :: "MEOrderBook \<Rightarrow> nat \<Rightarrow> book_line list" where
  "resting_views b i = map (\<lambda>p. order_view (ord b p)) (resting b i)"

definition client_views :: "MarketOrderBook \<Rightarrow> nat list \<Rightarrow> book_line list" where
  "client_views b ks = map (\<lambda>k. client_view (mord b k)) ks"

lemma subseq_map: "subseq xs ys \<Longrightarrow> subseq (map f xs) (map f ys)"
  by (induction rule: list_emb.induct) auto

lemma books_mirror:
  assumes run: "market_book_run t us = Inr b" and A: "mirrors (abs_book a) (adds_of us)"
  shows "\<exists>ks. client_level b i ks \<and> subseq (resting_views a i) (client_views b ks) \<and>
    (nothing_cancelled (abs_book a) (adds_of us) \<longrightarrow> resting_views a i = client_views b ks)"
proof (intro exI conjI impI)
  let ?ks = "arrived (adds_of us) i"
  have inv: "mb_inv (adds_of us) b" by (rule mb_run_inv [OF run])
  then show "client_level b i ?ks"
    by (auto simp: mb_inv_def mb_level_ok_def client_level_def split: option.splits dest: spec [of _ i])
  have same: "order_view (ord a k) = client_view (mord b k)" if "k \<in> set ?ks" for k
    using that inv A by (simp add: mb_inv_def mirrors_def set_arrived holds_update_view)
  then have views: "client_views b ?ks = map (\<lambda>p. order_view (ord a p)) ?ks" by (simp add: client_views_def)
  have "subseq (resting a i) ?ks" using A by (simp add: mirrors_def)
  then show "subseq (resting_views a i) (client_views b ?ks)"
    unfolding resting_views_def views by (rule subseq_map)
  assume "nothing_cancelled (abs_book a) (adds_of us)"
  then have "resting a = arrived (adds_of us)" by (simp add: nothing_cancelled_def)
  then show "resting_views a i = client_views b ?ks" by (simp add: resting_views_def views)
qed

text \<open>A new engine's books, after any requests, beside what new client books make of the updates.\<close>

definition books_agree :: "MatchingEngine \<Rightarrow> MEMarketUpdate list \<Rightarrow> TickerId \<Rightarrow> bool \<Rightarrow> bool" where
  "books_agree e us t equal \<longleftrightarrow> (\<exists>b. market_book_run t (ticker_updates t us) = Inr b \<and>
     (\<forall>i. \<exists>ks. client_level b i ks \<and>
       subseq (resting_views (ticker_order_book e (unat t)) i) (client_views b ks) \<and>
       (equal \<longrightarrow> resting_views (ticker_order_book e (unat t)) i = client_views b ks)))"

lemma new_books_agree:
  assumes spec: "spec_requests rqs (abs_engine (MatchingEngine_ctor q io)) = Inr (abs_engine e', rs, us)"
  shows "books_agree e' us t (only_new rqs)"
proof -
  let ?e = "MatchingEngine_ctor q io" and ?a = "ticker_order_book e' (unat t)"
  have "mirrors (abs_engine ?e (unat t)) []" "nothing_cancelled (abs_engine ?e (unat t)) []"
    by (simp_all add: abs_engine_ctor mirrors_def nothing_cancelled_def arrived_def used_indices_def limit_defs fun_eq_iff)
  then have A: "mirrors (abs_book ?a) (adds_of (ticker_updates t us))" "list_all harmless us"
    "only_new rqs \<Longrightarrow> nothing_cancelled (abs_book ?a) (adds_of (ticker_updates t us))"
    using spec_requests_mirror [OF spec, of t "[]"] by (simp_all add: abs_engine_at)
  have "list_all harmless (ticker_updates t us)" using A(2) by (auto simp: ticker_updates_def list_all_iff)
  then obtain b where run: "market_book_run t (ticker_updates t us) = Inr b"
    using market_book_returns mirrors_fits [OF A(1)] by blast
  then show ?thesis using books_mirror [OF run A(1)] A(3) unfolding books_agree_def by metis
qed

lemma new_updates_canonical:
  assumes "spec_requests rqs (abs_engine (MatchingEngine_ctor q io)) = Inr (B', rs, us)"
    and "\<forall>r \<in> set rqs. request_canonical r"
  shows "\<forall>u \<in> set us. update_canonical u"
proof -
  have "side_canonical (ord_side (ord_data MEOrder_default))" by (simp add: ord_data_def MEOrder_default_def)
  then have "sides_canonical (abs_engine (MatchingEngine_ctor q io))"
    unfolding sides_canonical_def abs_engine_ctor spec_book.simps by blast
  then show ?thesis using spec_requests_canonical assms by blast
qed

text \<open>
  C9. The client's book mirrors the exchange's: whatever requests a new engine has processed, the
  updates it has sent for an instrument never make a new client book fail, and then every price
  index of that book is one ring with the orders that rest at that index of the exchange's book,
  in the same order and with the same numbers, sides, prices, quantities and priorities, besides
  which it still has those that were cancelled; without cancels, the two are equal.
\<close>

theorem client_book_mirrors:
  assumes "foldR processClientRequest rqs (MatchingEngine_ctor q io) = Inr e'"
  shows "\<exists>rs us b. engine_io e' = io_after io rs us \<and> market_book_run t (ticker_updates t us) = Inr b \<and>
    (\<forall>i. \<exists>ks. client_level b i ks \<and>
      subseq (resting_views (ticker_order_book e' (unat t)) i) (client_views b ks) \<and>
      (only_new rqs \<longrightarrow> resting_views (ticker_order_book e' (unat t)) i = client_views b ks))"
proof -
  obtain rs us where spec: "spec_requests rqs (abs_engine (MatchingEngine_ctor q io)) = Inr (abs_engine e', rs, us)"
    and io: "engine_io e' = io_after (engine_io (MatchingEngine_ctor q io)) rs us"
    using requests_run [OF engine_inv_ctor assms] by metis
  have "engine_io (MatchingEngine_ctor q io) = io" by (simp add: MatchingEngine_ctor_def)
  then show ?thesis using io new_books_agree [OF spec, of t] unfolding books_agree_def by auto
qed

theorem client_book_mirrors_witness:
  "\<exists>e' rs us b ks. foldR processClientRequest [demo_buy, demo_sell] demo_engine = Inr e' \<and>
    engine_io e' = io_after demo_io rs us \<and> market_book_run 3 (ticker_updates 3 us) = Inr b \<and>
    resting (ticker_order_book e' 3) 100 = [0] \<and> client_level b 100 ks \<and>
    resting_views (ticker_order_book e' 3) 100 = client_views b ks"
proof -
  obtain B rs us where spec: "spec_requests [demo_buy, demo_sell] (abs_engine demo_engine) = Inr (B, rs, us)"
    and q: "sp_queue (B 3) 100 = [0]" using demo_spec by blast
  obtain e' where run: "foldR processClientRequest [demo_buy, demo_sell] demo_engine = Inr e'" and B: "abs_engine e' = B"
    using requests_implement [OF demo_facts(1), of "[demo_buy, demo_sell]"] spec by (auto simp: engine_implements_def)
  have rest: "resting (ticker_order_book e' 3) 100 = [0]" using q B by (auto simp: abs_engine_def)
  have "only_new [demo_buy, demo_sell]" by (simp add: only_new_def demo_buy_def demo_sell_def)
  then show ?thesis
    using client_book_mirrors [OF run [unfolded demo_engine_def], of 3] run rest unfolding demo_engine_def by fastforce
qed

end
