(* ===== verification/OrderManager.thy ===== *)
theory OrderManager
  imports Messages
begin

text \<open>
  trading_system/strategy/order_manager.h, order_manager.cpp and order_manager_order.h: the client
  keeps one order per instrument and side and moves it to the strategy's price and quantity. An
  order is a small state machine driven by the strategy's moves and the exchange's responses.
\<close>

datatype OMOrderState = OM_INVALID | PENDING_NEW | LIVE | PENDING_CANCEL | DEAD

fun OMOrderStateToString :: "OMOrderState \<Rightarrow> string" where
  "OMOrderStateToString PENDING_NEW = ''PENDING_NEW''"
| "OMOrderStateToString LIVE = ''LIVE''"
| "OMOrderStateToString PENDING_CANCEL = ''PENDING_CANCEL''"
| "OMOrderStateToString DEAD = ''DEAD''"
| "OMOrderStateToString OM_INVALID = ''INVALID''"

record OMOrder =
  oo_ticker_id :: TickerId
  oo_order_id :: OrderId
  oo_side :: Side
  oo_price :: Price
  oo_qty :: Qty
  oo_state :: OMOrderState

definition OMOrder_default :: OMOrder where
  "OMOrder_default = \<lparr>oo_ticker_id = TickerId_INVALID, oo_order_id = OrderId_INVALID,
     oo_side = Side_INVALID, oo_price = Price_INVALID, oo_qty = Qty_INVALID, oo_state = OM_INVALID\<rparr>"

definition OMOrder_toString :: "OMOrder \<Rightarrow> string" where
  "OMOrder_toString r =
     ''OMOrder'' @ ''['' @
     ''tid:'' @ tickerIdToString (oo_ticker_id r) @ '' '' @
     ''oid:'' @ orderIdToString (oo_order_id r) @ '' '' @
     ''side:'' @ sideToString (oo_side r) @ '' '' @
     ''price:'' @ priceToString (oo_price r) @ '' '' @
     ''qty:'' @ qtyToString (oo_qty r) @ '' '' @
     ''state:'' @ OMOrderStateToString (oo_state r) @ '']''"

text \<open>
  \<open>trade_engine\<close> is the client number behind the pointer to the trading engine, if it is set. The
  orders are addressed by ticker and by the index of the side; the inner array has
  \<open>sideToIndex(Side::MAX) + 1\<close> entries.
\<close>

record OrderManager =
  mgr_trade_engine :: "ClientId option"
  ticker_orders :: "nat \<Rightarrow> nat \<Rightarrow> OMOrder"
  next_orderId :: OrderId

definition OMOrderSides :: nat where "OMOrderSides = sideToIndex Side_MAX + 1"

definition OrderManager_ctor :: "ClientId option \<Rightarrow> OrderManager" where
  "OrderManager_ctor trade_engine =
     \<lparr>mgr_trade_engine = trade_engine, ticker_orders = (\<lambda>_ _. OMOrder_default), next_orderId = 1\<rparr>"

type_synonym slot = "nat \<times> nat"

definition the_slot :: "OrderManager \<Rightarrow> slot \<Rightarrow> OMOrder" where
  "the_slot m p = ticker_orders m (fst p) (snd p)"

definition put_slot :: "slot \<Rightarrow> OMOrder \<Rightarrow> OrderManager \<Rightarrow> OrderManager" where
  "put_slot p x m = m\<lparr>ticker_orders := (ticker_orders m)
     (fst p := (ticker_orders m (fst p))(snd p := x))\<rparr>"

text \<open>\<open>&ticker_orders_.at(ticker).at(sideToIndex(side))\<close>\<close>

definition order_at :: "OrderManager \<Rightarrow> TickerId \<Rightarrow> Side \<Rightarrow> slot res" where
  "order_at m ticker side =
     bindR (arr_at ME_MAX_TICKERS (ticker_orders m) (unat ticker)) (\<lambda>row.
     bindR (arr_at OMOrderSides row (sideToIndex side)) (\<lambda>_. Inr (unat ticker, sideToIndex side)))"

definition getOMOrderSideHashMap :: "OrderManager \<Rightarrow> TickerId \<Rightarrow> (nat \<Rightarrow> OMOrder) res" where
  "getOMOrderSideHashMap m ticker_id = arr_at ME_MAX_TICKERS (ticker_orders m) (unat ticker_id)"

section \<open>Sending orders\<close>

text \<open>
  The two operations build a request from the client number behind the trading engine's pointer.
  The calls that would send it are commented out, so the request is only logged; the model returns
  it beside the state.
\<close>

definition engine_client :: "OrderManager \<Rightarrow> ClientId res" where
  "engine_client m = (case mgr_trade_engine m of None \<Rightarrow> Inl Null_deref | Some c \<Rightarrow> Inr c)"

definition newOrder ::
    "slot \<Rightarrow> TickerId \<Rightarrow> Price \<Rightarrow> Side \<Rightarrow> Qty \<Rightarrow> OrderManager \<Rightarrow> (OrderManager \<times> MEClientRequest list) res" where
  "newOrder order tickerId price side qty m =
     bindR (engine_client m) (\<lambda>clientId.
       let new_request = \<lparr>rq_requestType = Request_NEW, rq_clientId = clientId, rq_tickerId = tickerId,
             rq_orderId = next_orderId m, rq_price = price, rq_qty = qty, rq_side = side\<rparr>;
           m1 = put_slot order \<lparr>oo_ticker_id = tickerId, oo_order_id = next_orderId m, oo_side = side,
             oo_price = price, oo_qty = qty, oo_state = PENDING_NEW\<rparr> m
       in Inr (m1\<lparr>next_orderId := next_orderId m1 + 1\<rparr>, [new_request]))"

definition cancelOrder :: "slot \<Rightarrow> OrderManager \<Rightarrow> (OrderManager \<times> MEClientRequest list) res" where
  "cancelOrder order m =
     bindR (engine_client m) (\<lambda>clientId.
       let r = the_slot m order;
           cancel_request = \<lparr>rq_requestType = Request_CANCEL, rq_clientId = clientId,
             rq_tickerId = oo_ticker_id r, rq_orderId = oo_order_id r, rq_price = oo_price r,
             rq_qty = oo_qty r, rq_side = oo_side r\<rparr>
       in Inr (put_slot order (r\<lparr>oo_state := PENDING_CANCEL\<rparr>) m, [cancel_request]))"

definition moveOrder ::
    "slot \<Rightarrow> TickerId \<Rightarrow> Price \<Rightarrow> Side \<Rightarrow> Qty \<Rightarrow> OrderManager \<Rightarrow> (OrderManager \<times> MEClientRequest list) res" where
  "moveOrder order tickerId price side qty m =
     (case oo_state (the_slot m order) of
        LIVE \<Rightarrow> if oo_price (the_slot m order) \<noteq> price \<or> oo_qty (the_slot m order) \<noteq> qty
                then cancelOrder order m else Inr (m, [])
      | OM_INVALID \<Rightarrow> newOrder order tickerId price side qty m
      | DEAD \<Rightarrow> newOrder order tickerId price side qty m
      | PENDING_NEW \<Rightarrow> Inr (m, [])
      | PENDING_CANCEL \<Rightarrow> Inr (m, []))"

definition moveOrders ::
    "TickerId \<Rightarrow> Price \<Rightarrow> Price \<Rightarrow> Qty \<Rightarrow> OrderManager \<Rightarrow> (OrderManager \<times> MEClientRequest list) res" where
  "moveOrders tickerid bid_price ask_price clip m =
     bindR (order_at m tickerid BUY) (\<lambda>bid_order.
     bindR (moveOrder bid_order tickerid bid_price BUY clip m) (\<lambda>(m1, rs).
     bindR (order_at m1 tickerid SELL) (\<lambda>ask_order.
     bindR (moveOrder ask_order tickerid ask_price SELL clip m1) (\<lambda>(m2, rs').
       Inr (m2, rs @ rs')))))"

section \<open>Responses\<close>

text \<open>The order a response is applied to is chosen by ticker and side alone.\<close>

definition after_response :: "MEClientResponse \<Rightarrow> OMOrder \<Rightarrow> OMOrder" where
  "after_response response order =
     (case rs_type response of
        ACCEPTED \<Rightarrow> order\<lparr>oo_state := LIVE\<rparr>
      | CANCELED \<Rightarrow> order\<lparr>oo_state := DEAD\<rparr>
      | FILLED \<Rightarrow> (let order1 = order\<lparr>oo_qty := rs_left_qty response\<rparr> in
          if oo_qty order1 = 0 then order1\<lparr>oo_state := DEAD\<rparr> else order1)
      | _ \<Rightarrow> order)"

definition onOrderUpdate :: "MEClientResponse \<Rightarrow> OrderManager \<Rightarrow> OrderManager res" where
  "onOrderUpdate response m =
     bindR (order_at m (rs_tickerId response) (rs_side response)) (\<lambda>order.
       Inr (put_slot order (after_response response (the_slot m order)) m))"

section \<open>Runs\<close>

datatype mgr_event = Move TickerId Price Price Qty | Response MEClientResponse

fun mgr_step :: "mgr_event \<Rightarrow> OrderManager \<times> MEClientRequest list \<Rightarrow> (OrderManager \<times> MEClientRequest list) res" where
  "mgr_step (Move t bid ask clip) (m, out) = bindR (moveOrders t bid ask clip m) (\<lambda>(m', rs). Inr (m', out @ rs))"
| "mgr_step (Response r) (m, out) = bindR (onOrderUpdate r m) (\<lambda>m'. Inr (m', out))"

definition mgr_run :: "mgr_event list \<Rightarrow> OrderManager \<Rightarrow> (OrderManager \<times> MEClientRequest list) res" where
  "mgr_run es m = foldR mgr_step es (m, [])"

section \<open>What the operations do\<close>

lemma OMOrderSides_eq [simp]: "OMOrderSides = 4"
  by (simp add: OMOrderSides_def)

lemma the_put_slot [simp]: "the_slot (put_slot p x m) q = (if q = p then x else the_slot m q)"
  by (cases p; cases q) (auto simp: the_slot_def put_slot_def)

lemma put_slot_fields [simp]:
  "next_orderId (put_slot p x m) = next_orderId m" "mgr_trade_engine (put_slot p x m) = mgr_trade_engine m"
  "the_slot (m\<lparr>next_orderId := n\<rparr>) = the_slot m"
  by (simp_all add: put_slot_def the_slot_def fun_eq_iff)

lemma put_slot_same [simp]: "put_slot p (the_slot m p) m = m"
  by (simp add: put_slot_def the_slot_def)

lemma order_at_eq:
  "order_at m t side = (if unat t < ME_MAX_TICKERS \<and> sideToIndex side < 4
     then Inr (unat t, sideToIndex side) else Inl Out_of_range)"
  by (simp add: order_at_def arr_at_def)

text \<open>The one step of a slot that a move makes, and the request it builds.\<close>

definition moved :: "ClientId \<Rightarrow> OrderId \<Rightarrow> TickerId \<Rightarrow> Price \<Rightarrow> Side \<Rightarrow> Qty \<Rightarrow> OMOrder \<Rightarrow>
    OMOrder \<times> MEClientRequest list \<times> bool" where
  "moved c n t price side qty r =
     (if oo_state r \<in> {OM_INVALID, DEAD} then
        (\<lparr>oo_ticker_id = t, oo_order_id = n, oo_side = side, oo_price = price, oo_qty = qty, oo_state = PENDING_NEW\<rparr>,
         [\<lparr>rq_requestType = Request_NEW, rq_clientId = c, rq_tickerId = t, rq_orderId = n,
           rq_price = price, rq_qty = qty, rq_side = side\<rparr>], True)
      else if oo_state r = LIVE \<and> (oo_price r \<noteq> price \<or> oo_qty r \<noteq> qty) then
        (r\<lparr>oo_state := PENDING_CANCEL\<rparr>,
         [\<lparr>rq_requestType = Request_CANCEL, rq_clientId = c, rq_tickerId = oo_ticker_id r,
           rq_orderId = oo_order_id r, rq_price = oo_price r, rq_qty = oo_qty r, rq_side = oo_side r\<rparr>], False)
      else (r, [], False))"

lemma moveOrder_eq:
  assumes "mgr_trade_engine m = Some c"
  shows "moveOrder p t price side qty m =
    (let (r, rs, new) = moved c (next_orderId m) t price side qty (the_slot m p)
     in Inr ((put_slot p r m)\<lparr>next_orderId := next_orderId m + (if new then 1 else 0)\<rparr>, rs))"
proof -
  have same: "m\<lparr>next_orderId := next_orderId m\<rparr> = m" for m by simp
  show ?thesis
    using assms
    by (cases "oo_state (the_slot m p)")
       (auto simp: moveOrder_def newOrder_def cancelOrder_def engine_client_def moved_def Let_def same put_slot_def
         put_slot_same [unfolded put_slot_def])
qed

lemma moveOrders_eq:
  assumes c: "mgr_trade_engine m = Some c"
  shows "moveOrders t bid ask clip m =
    (if unat t < ME_MAX_TICKERS then
       let pb = (unat t, 2); pa = (unat t, 0);
           (rb, out_b, new_b) = moved c (next_orderId m) t bid BUY clip (the_slot m pb);
           n = next_orderId m + (if new_b then 1 else 0);
           (ra, out_a, new_a) = moved c n t ask SELL clip (the_slot m pa)
       in Inr ((put_slot pa ra (put_slot pb rb m))\<lparr>next_orderId := n + (if new_a then 1 else 0)\<rparr>, out_b @ out_a)
     else Inl Out_of_range)"
proof (cases "unat t < ME_MAX_TICKERS")
  case True
  obtain rb out_b new_b where b: "moved c (next_orderId m) t bid BUY clip (the_slot m (unat t, 2)) = (rb, out_b, new_b)"
    by (cases "moved c (next_orderId m) t bid BUY clip (the_slot m (unat t, 2))")
  let ?m = "(put_slot (unat t, 2) rb m)\<lparr>next_orderId := next_orderId m + (if new_b then 1 else 0)\<rparr>"
  have c1: "mgr_trade_engine ?m = Some c" using c by simp
  have swap: "put_slot p x (m\<lparr>next_orderId := n\<rparr>) = (put_slot p x m)\<lparr>next_orderId := n\<rparr>" for p x m n
    by (simp add: put_slot_def)
  show ?thesis
    using True moveOrder_eq [OF c, of "(unat t, 2)" t bid BUY clip]
      moveOrder_eq [OF c1, of "(unat t, 0)" t ask SELL clip]
    by (simp add: moveOrders_def order_at_eq b Let_def swap split: prod.split)
qed (simp add: moveOrders_def order_at_eq)

lemma moveOrders_returns:
  assumes "mgr_trade_engine m = Some c" and "unat t < ME_MAX_TICKERS"
  shows "\<exists>m' rs. moveOrders t bid ask clip m = Inr (m', rs)"
  using assms by (simp add: moveOrders_eq Let_def split: prod.split)

section \<open>Order numbers\<close>

definition news :: "MEClientRequest list \<Rightarrow> MEClientRequest list" where
  "news out = filter (\<lambda>r. rq_requestType r = Request_NEW) out"

text \<open>
  After \<open>k\<close> new orders: the numbers 1 to \<open>k\<close> have been given out, and every number found in a slot
  is one of them, no two slots holding the same.
\<close>

definition ids_ok :: "nat \<Rightarrow> ('p \<Rightarrow> OrderId) \<Rightarrow> bool" where
  "ids_ok k f \<longleftrightarrow> (\<forall>p. f p = OrderId_INVALID \<or> 1 \<le> unat (f p) \<and> unat (f p) \<le> k) \<and>
     (\<forall>p q. p \<noteq> q \<longrightarrow> f p = f q \<longrightarrow> f p = OrderId_INVALID)"

definition slot_ids :: "OrderManager \<Rightarrow> slot \<Rightarrow> OrderId" where
  "slot_ids m = (\<lambda>p. oo_order_id (the_slot m p))"

definition mgr_inv :: "ClientId \<Rightarrow> nat \<Rightarrow> OrderManager \<Rightarrow> bool" where
  "mgr_inv c k m \<longleftrightarrow> mgr_trade_engine m = Some c \<and> next_orderId m = of_nat (Suc k) \<and> k < 2 ^ 63 \<and>
     ids_ok k (slot_ids m)"

lemma unat_small: "k < 2 ^ 63 \<Longrightarrow> unat (of_nat (Suc k) :: u64) = Suc k"
  by (simp add: unat_of_nat del: of_nat_Suc)

lemma ids_ok_new:
  assumes ok: "ids_ok k f" and n: "unat n = Suc k"
  shows "ids_ok (Suc k) (f(p := n))"
proof -
  have "f q = OrderId_INVALID \<or> f q \<noteq> n" for q
    using ok n not_less_eq_eq by (fastforce simp: ids_ok_def)
  moreover have "f q = OrderId_INVALID \<or> 1 \<le> unat (f q) \<and> unat (f q) \<le> Suc k" for q
    using ok by (auto simp: ids_ok_def le_SucI)
  ultimately show ?thesis
    using ok n unfolding ids_ok_def by (auto simp: fun_upd_def)
qed

lemma slot_ids_put [simp]: "slot_ids (put_slot p r m) = (slot_ids m)(p := oo_order_id r)"
  "slot_ids (m\<lparr>next_orderId := n\<rparr>) = slot_ids m"
  by (simp_all add: slot_ids_def fun_eq_iff del: split_paired_All)

lemma mgr_inv_ctor: "mgr_inv c 0 (OrderManager_ctor (Some c))"
  by (simp add: mgr_inv_def OrderManager_ctor_def the_slot_def OMOrder_default_def slot_ids_def ids_ok_def)

lemma mgr_inv_keep:
  assumes "mgr_inv c k m" and "oo_order_id r = oo_order_id (the_slot m p)"
  shows "mgr_inv c k (put_slot p r m)"
proof -
  have "oo_order_id r = slot_ids m p" using assms(2) by (simp add: slot_ids_def)
  then show ?thesis using assms(1) by (simp add: mgr_inv_def fun_upd_idem)
qed

lemma mgr_inv_new:
  assumes inv: "mgr_inv c k m" and room: "Suc k < 2 ^ 63" and num: "oo_order_id r = next_orderId m"
  shows "mgr_inv c (Suc k) ((put_slot p r m)\<lparr>next_orderId := next_orderId m + 1\<rparr>)"
proof -
  have "unat (oo_order_id r) = Suc k" using inv num unat_small [of k] by (simp add: mgr_inv_def)
  then show ?thesis using inv room ids_ok_new [of k "slot_ids m"] by (simp add: mgr_inv_def)
qed

lemma moved_new:
  assumes "moved c n t price side qty r = (r', out, new)"
  shows "if new then oo_order_id r' = n \<and> map rq_orderId (news out) = [n] \<and> oo_state r' = PENDING_NEW
    else oo_order_id r' = oo_order_id r \<and> news out = []"
  using assms by (auto simp: moved_def news_def split: if_splits)

lemma mgr_inv_moved:
  assumes inv: "mgr_inv c k m" and room: "Suc k < 2 ^ 63"
    and step: "moved c (next_orderId m) t price side qty (the_slot m p) = (r, out, new)"
  shows "mgr_inv c (k + (if new then 1 else 0))
      ((put_slot p r m)\<lparr>next_orderId := next_orderId m + (if new then 1 else 0)\<rparr>) \<and>
    map rq_orderId (news out) = map (\<lambda>i. of_nat (Suc i)) [k..<k + (if new then 1 else 0)]"
proof (cases new)
  case True
  have next_id: "next_orderId m = of_nat (Suc k)" using inv by (simp add: mgr_inv_def)
  have new_id: "oo_order_id r = next_orderId m" and out: "map rq_orderId (news out) = [next_orderId m]"
    using moved_new [OF step] True by simp_all
  from mgr_inv_new [OF inv room new_id, of p] out show ?thesis
    unfolding next_id using True by (simp del: of_nat_Suc)
next
  case False
  have "m\<lparr>next_orderId := next_orderId m\<rparr> = m" for m :: OrderManager by simp
  from this [of "put_slot p r m"]
  have same: "(put_slot p r m)\<lparr>next_orderId := next_orderId m\<rparr> = put_slot p r m" by simp
  show ?thesis using False moved_new [OF step] mgr_inv_keep [OF inv, of r p] by (simp add: same)
qed

lemma news_append [simp]: "news (xs @ ys) = news xs @ news ys"
  by (simp add: news_def)

definition numbers :: "nat \<Rightarrow> nat \<Rightarrow> OrderId list" where
  "numbers i j = map (\<lambda>i. of_nat (Suc i)) [i..<j]"

lemma numbers_append: "i \<le> j \<Longrightarrow> j \<le> k \<Longrightarrow> numbers i j @ numbers j k = numbers i k"
  using upt_add_eq_append [of i j "k - j"] by (simp add: numbers_def flip: map_append)

lemma mgr_inv_move:
  assumes inv: "mgr_inv c k m" and room: "k + 2 < 2 ^ 63"
    and run: "moveOrders t bid ask clip m = Inr (m', out)"
  shows "\<exists>k'. k \<le> k' \<and> k' \<le> k + 2 \<and> mgr_inv c k' m' \<and> map rq_orderId (news out) = numbers k k'"
proof -
  let ?pb = "(unat t, 2)" and ?pa = "(unat t, 0)"
  have c: "mgr_trade_engine m = Some c" using inv by (simp add: mgr_inv_def)
  obtain rb out_b new_b where b: "moved c (next_orderId m) t bid BUY clip (the_slot m ?pb) = (rb, out_b, new_b)"
    by (cases "moved c (next_orderId m) t bid BUY clip (the_slot m ?pb)")
  let ?n = "next_orderId m + (if new_b then 1 else 0)"
  let ?m = "(put_slot ?pb rb m)\<lparr>next_orderId := ?n\<rparr>" and ?k = "k + (if new_b then 1 else 0)"
  obtain ra out_a new_a where a: "moved c (next_orderId ?m) t ask SELL clip (the_slot ?m ?pa) = (ra, out_a, new_a)"
    by (cases "moved c (next_orderId ?m) t ask SELL clip (the_slot ?m ?pa)")
  have one: "mgr_inv c ?k ?m" "map rq_orderId (news out_b) = numbers k ?k"
    using mgr_inv_moved [OF inv _ b] room by (simp_all add: numbers_def)
  let ?m2 = "(put_slot ?pa ra ?m)\<lparr>next_orderId := next_orderId ?m + (if new_a then 1 else 0)\<rparr>"
    and ?k2 = "?k + (if new_a then 1 else 0)"
  have two: "mgr_inv c ?k2 ?m2" "map rq_orderId (news out_a) = numbers ?k ?k2"
    using mgr_inv_moved [OF one(1) _ a] room by (simp_all add: numbers_def)
  have a': "moved c ?n t ask SELL clip (the_slot m ?pa) = (ra, out_a, new_a)" using a by simp
  have "m' = ?m2" and "out = out_b @ out_a"
    using run unfolding moveOrders_eq [OF c] Let_def b prod.case a'
    by (simp_all add: put_slot_def split: if_splits)
  moreover have "numbers k ?k @ numbers ?k ?k2 = numbers k ?k2" by (rule numbers_append) simp_all
  ultimately show ?thesis using one two by (intro exI [of _ ?k2]) simp
qed

lemma mgr_inv_step:
  assumes inv: "mgr_inv c k m" and room: "k + 2 < 2 ^ 63" and run: "mgr_step e (m, out) = Inr (m', out')"
  shows "\<exists>k'. k \<le> k' \<and> k' \<le> k + 2 \<and> mgr_inv c k' m' \<and>
    map rq_orderId (news out') = map rq_orderId (news out) @ numbers k k'"
proof (cases e)
  case (Move t bid ask clip)
  then show ?thesis using run mgr_inv_move [OF inv room] by (fastforce simp: bindR_eq_Inr)
next
  case (Response r)
  have "oo_order_id (after_response r x) = oo_order_id x" for x
    by (simp add: after_response_def Let_def split: ClientResponseType.split)
  then have "mgr_inv c k m'" and "out' = out"
    using run Response inv by (auto simp: onOrderUpdate_def bindR_eq_Inr intro!: mgr_inv_keep)
  then show ?thesis by (intro exI [of _ k]) (simp add: numbers_def)
qed

lemma mgr_inv_run:
  "mgr_run es (OrderManager_ctor (Some c)) = Inr (m, out) \<Longrightarrow> 2 * length es < 2 ^ 63 \<Longrightarrow>
   \<exists>k \<le> 2 * length es. mgr_inv c k m \<and> map rq_orderId (news out) = numbers 0 k"
proof (induction es arbitrary: m out rule: rev_induct)
  case Nil
  then show ?case
    using mgr_inv_ctor [of c] by (intro exI [of _ 0]) (auto simp: mgr_run_def numbers_def news_def)
next
  case (snoc e es)
  from snoc.prems(1) obtain m1 out1 where one: "mgr_run es (OrderManager_ctor (Some c)) = Inr (m1, out1)"
    and step: "mgr_step e (m1, out1) = Inr (m, out)"
    by (force simp: mgr_run_def foldR_append bindR_eq_Inr)
  obtain k where k: "k \<le> 2 * length es" "mgr_inv c k m1" "map rq_orderId (news out1) = numbers 0 k"
    using snoc.IH [OF one] snoc.prems(2) by auto
  have "k + 2 < 2 ^ 63" using k(1) snoc.prems(2) by simp
  from mgr_inv_step [OF k(2) this step] obtain k' where k': "k \<le> k'" "k' \<le> k + 2" "mgr_inv c k' m"
    "map rq_orderId (news out) = numbers 0 k @ numbers k k'"
    using k(3) by auto
  then show ?case
    using k(1) numbers_append [of 0 k k'] by (intro exI [of _ k']) simp
qed

text \<open>
  C34. The client numbers its new orders 1, 2, 3 and so on, whatever moves and responses come, and no
  two orders it keeps ever carry the same number, as long as the numbers do not run out.
\<close>

theorem mgr_numbers_orders:
  assumes "mgr_run es (OrderManager_ctor (Some c)) = Inr (m, out)" and "2 * length es < 2 ^ 63"
  shows "\<exists>k. map rq_orderId (news out) = numbers 0 k \<and> next_orderId m = of_nat (Suc k) \<and>
    (\<forall>p q. p \<noteq> q \<longrightarrow> oo_order_id (the_slot m p) = oo_order_id (the_slot m q) \<longrightarrow>
       oo_order_id (the_slot m p) = OrderId_INVALID)"
  using mgr_inv_run [OF assms]
  by (fastforce simp: mgr_inv_def ids_ok_def slot_ids_def simp del: split_paired_All)

definition demo_response :: "ClientResponseType \<Rightarrow> OrderId \<Rightarrow> Side \<Rightarrow> MEClientResponse" where
  "demo_response ty oid side = MEClientResponse_default\<lparr>rs_type := ty, rs_clientId := 4, rs_tickerId := 0,
     rs_client_order_id := oid, rs_side := side\<rparr>"

definition demo_events :: "mgr_event list" where
  "demo_events = [Move 0 100 102 5, Response (demo_response ACCEPTED 1 BUY), Move 0 99 102 5,
     Response (demo_response CANCELED 1 BUY), Move 0 99 102 5]"

lemma mgr_run_simps [simp]:
  "foldR mgr_step (Move t bid ask clip # es) (m, out) =
     bindR (moveOrders t bid ask clip m) (\<lambda>(m', rs). foldR mgr_step es (m', out @ rs))"
  "foldR mgr_step (Response r # es) (m, out) = bindR (onOrderUpdate r m) (\<lambda>m'. foldR mgr_step es (m', out))"
  by (simp_all add: bindR_assoc case_prod_unfold)

lemma onOrderUpdate_eq:
  "onOrderUpdate r m = (if unat (rs_tickerId r) < ME_MAX_TICKERS \<and> sideToIndex (rs_side r) < 4
     then let p = (unat (rs_tickerId r), sideToIndex (rs_side r))
       in Inr (put_slot p (after_response r (the_slot m p)) m)
     else Inl Out_of_range)"
  by (simp add: onOrderUpdate_def order_at_eq Let_def)

lemma demo_events_run:
  "\<exists>m out. mgr_run demo_events (OrderManager_ctor (Some 4)) = Inr (m, out) \<and>
     map rq_orderId (news out) = [1, 2, 3]"
  by (simp add: mgr_run_def demo_events_def demo_response_def onOrderUpdate_eq moveOrders_eq
      OrderManager_ctor_def the_slot_def OMOrder_default_def ME_MAX_TICKERS_def moved_def Let_def
      put_slot_def after_response_def news_def)

theorem mgr_numbers_orders_witness:
  "\<exists>m out. mgr_run demo_events (OrderManager_ctor (Some 4)) = Inr (m, out) \<and> next_orderId m = 4"
proof -
  obtain m out where run: "mgr_run demo_events (OrderManager_ctor (Some 4)) = Inr (m, out)"
    and ids: "map rq_orderId (news out) = [1, 2, 3]"
    using demo_events_run by (elim exE conjE)
  have "2 * length demo_events < 2 ^ 63" by (simp add: demo_events_def)
  from mgr_numbers_orders [OF run this] obtain k where k: "map rq_orderId (news out) = numbers 0 k"
    "next_orderId m = of_nat (Suc k)" by blast
  have "length (map rq_orderId (news out)) = 3" unfolding ids by simp
  then have "k = 3" unfolding k(1) by (simp add: numbers_def)
  then show ?thesis using run k(2) by auto
qed

section \<open>The life of an order\<close>

text \<open>One event moves a slot along at most one of these edges.\<close>

inductive slot_step :: "OMOrder \<Rightarrow> OMOrder \<Rightarrow> bool" where
  placed: "oo_state r \<in> {OM_INVALID, DEAD} \<Longrightarrow> oo_state r' = PENDING_NEW \<Longrightarrow> slot_step r r'"
| withdrawn: "oo_state r = LIVE \<Longrightarrow> slot_step r (r\<lparr>oo_state := PENDING_CANCEL\<rparr>)"
| accepted: "slot_step r (r\<lparr>oo_state := LIVE\<rparr>)"
| dropped: "slot_step r (r\<lparr>oo_state := DEAD\<rparr>)"
| filled: "q \<noteq> 0 \<Longrightarrow> slot_step r (r\<lparr>oo_qty := q\<rparr>)"
| used_up: "slot_step r (r\<lparr>oo_qty := 0, oo_state := DEAD\<rparr>)"
| idle: "slot_step r r"

inductive_cases slot_stepE: "slot_step r r'"

lemma slot_step_number:
  "slot_step r r' \<Longrightarrow> oo_order_id r' \<noteq> oo_order_id r \<Longrightarrow>
   oo_state r \<in> {OM_INVALID, DEAD} \<and> oo_state r' = PENDING_NEW"
  by (erule slot_stepE) auto

lemma slot_step_moved: "moved c n t price side qty r = (r', out, new) \<Longrightarrow> slot_step r r'"
  by (auto simp: moved_def split: if_splits intro: slot_step.intros)

lemma slot_step_response: "slot_step r (after_response p r)"
  by (cases "rs_type p") (auto simp: after_response_def Let_def intro: slot_step.intros)

lemma moveOrder_no_engine:
  "mgr_trade_engine m = None \<Longrightarrow> moveOrder p t price side qty m = Inr (m', out) \<Longrightarrow> m' = m"
  by (auto simp: moveOrder_def newOrder_def cancelOrder_def engine_client_def
      split: OMOrderState.splits if_splits)

lemma moveOrders_no_engine:
  assumes none: "mgr_trade_engine m = None" and run: "moveOrders t bid ask clip m = Inr (m', out)"
  shows "m' = m"
proof -
  obtain m1 rs rs' where "moveOrder (unat t, 2) t bid BUY clip m = Inr (m1, rs)"
    and "moveOrder (unat t, 0) t ask SELL clip m1 = Inr (m', rs')"
    using run by (auto simp: moveOrders_def order_at_eq bindR_eq_Inr split: if_splits)
  then show "m' = m" using none moveOrder_no_engine by metis
qed

lemma slot_step_move:
  assumes run: "moveOrders t bid ask clip m = Inr (m', out)"
  shows "slot_step (the_slot m p) (the_slot m' p)"
proof (cases "mgr_trade_engine m")
  case None
  then have "m' = m" using run by (rule moveOrders_no_engine)
  then show ?thesis by (simp add: slot_step.idle)
next
  case (Some c)
  let ?pb = "(unat t, 2)" and ?pa = "(unat t, 0)"
  obtain rb out_b new_b where b: "moved c (next_orderId m) t bid BUY clip (the_slot m ?pb) = (rb, out_b, new_b)"
    by (cases "moved c (next_orderId m) t bid BUY clip (the_slot m ?pb)")
  let ?n = "next_orderId m + (if new_b then 1 else 0)"
  obtain ra out_a new_a where a: "moved c ?n t ask SELL clip (the_slot m ?pa) = (ra, out_a, new_a)"
    by (cases "moved c ?n t ask SELL clip (the_slot m ?pa)")
  have "the_slot m' p = (if p = ?pa then ra else if p = ?pb then rb else the_slot m p)"
    using run unfolding moveOrders_eq [OF Some] Let_def b prod.case a by (auto split: if_splits)
  then show ?thesis
    using slot_step_moved [OF b] slot_step_moved [OF a] slot_step.idle by auto
qed

lemma slot_step_event:
  assumes "mgr_step e (m, out) = Inr (m', out')"
  shows "slot_step (the_slot m p) (the_slot m' p)"
proof (cases e)
  case (Move t bid ask clip)
  then obtain rs where "moveOrders t bid ask clip m = Inr (m', rs)"
    using assms by (auto simp: bindR_eq_Inr)
  then show ?thesis by (rule slot_step_move)
next
  case (Response r)
  then show ?thesis
    using assms slot_step_response slot_step.idle
    by (auto simp: bindR_eq_Inr onOrderUpdate_eq Let_def split: if_splits)
qed

text \<open>
  Every event moves each slot along at most one edge of the order's life: a slot's order is
  replaced, that is, gets another number, only by a move and only when the old order is dead or was
  never sent, and the new one is then pending; so a slot never has two orders it knows of.
\<close>

theorem mgr_replaces_only_dead:
  assumes "mgr_step e (m, out) = Inr (m', out')"
  shows "slot_step (the_slot m p) (the_slot m' p) \<and>
    (oo_order_id (the_slot m' p) \<noteq> oo_order_id (the_slot m p) \<longrightarrow>
      oo_state (the_slot m p) \<in> {OM_INVALID, DEAD} \<and> oo_state (the_slot m' p) = PENDING_NEW)"
  using slot_step_event [OF assms, of p] slot_step_number by auto

theorem mgr_replaces_only_dead_witness:
  "\<exists>m' out'. mgr_step (Move 0 100 102 5) (OrderManager_ctor (Some 4), []) = Inr (m', out') \<and>
     slot_step (the_slot (OrderManager_ctor (Some 4)) (0, 2)) (the_slot m' (0, 2)) \<and>
     oo_order_id (the_slot m' (0, 2)) = 1 \<and> oo_state (the_slot m' (0, 2)) = PENDING_NEW"
proof -
  let ?m = "OrderManager_ctor (Some 4)"
  obtain m' out' where run: "mgr_step (Move 0 100 102 5) (?m, []) = Inr (m', out')"
    and one: "oo_order_id (the_slot m' (0, 2)) = 1"
    by (simp add: moveOrders_eq OrderManager_ctor_def the_slot_def OMOrder_default_def ME_MAX_TICKERS_def
      moved_def Let_def put_slot_def)
  have "oo_order_id (the_slot ?m (0, 2)) = - 1"
    by (simp add: OrderManager_ctor_def the_slot_def OMOrder_default_def OrderId_INVALID_def)
  then show ?thesis
    using mgr_replaces_only_dead [OF run, of "(0, 2)"] run one by auto
qed

section \<open>Re-quoting\<close>

definition resting_at :: "Price \<Rightarrow> Qty \<Rightarrow> OMOrder \<Rightarrow> bool" where
  "resting_at price qty r \<longleftrightarrow> oo_state r = LIVE \<and> oo_price r = price \<and> oo_qty r = qty"

lemma moved_idle: "oo_state r \<in> {PENDING_NEW, PENDING_CANCEL} \<or> resting_at price qty r \<Longrightarrow>
    moved c n t price side qty r = (r, [], False)"
  by (auto simp: moved_def resting_at_def)

lemma moved_dead: "oo_state r \<in> {OM_INVALID, DEAD} \<Longrightarrow> moved c n t price side qty r =
    (\<lparr>oo_ticker_id = t, oo_order_id = n, oo_side = side, oo_price = price, oo_qty = qty, oo_state = PENDING_NEW\<rparr>,
     [\<lparr>rq_requestType = Request_NEW, rq_clientId = c, rq_tickerId = t, rq_orderId = n,
       rq_price = price, rq_qty = qty, rq_side = side\<rparr>], True)"
  by (auto simp: moved_def)

lemma moved_live: "oo_state r = LIVE \<Longrightarrow> oo_price r \<noteq> price \<or> oo_qty r \<noteq> qty \<Longrightarrow>
  moved c n t price side qty r = (r\<lparr>oo_state := PENDING_CANCEL\<rparr>,
     [\<lparr>rq_requestType = Request_CANCEL, rq_clientId = c, rq_tickerId = oo_ticker_id r,
       rq_orderId = oo_order_id r, rq_price = oo_price r, rq_qty = oo_qty r, rq_side = oo_side r\<rparr>], False)"
  by (auto simp: moved_def)

text \<open>
  Moving a live bid takes a cancellation, the exchange's answer and a second move, and ends with a
  new order at the wanted price, while an ask that already rests where it should stays untouched:
  the client asks to cancel the old number and then sends the next one.
\<close>

theorem mgr_requotes:
  assumes "mgr_trade_engine m = Some c" and "unat t < ME_MAX_TICKERS"
    and "oo_state (the_slot m (unat t, 2)) = LIVE" and "oo_price (the_slot m (unat t, 2)) \<noteq> bid"
    and "resting_at ask clip (the_slot m (unat t, 0))"
    and "rs_type r = CANCELED" and "rs_tickerId r = t" and "rs_side r = BUY"
  shows "\<exists>m' cancel new. mgr_run [Move t bid ask clip, Response r, Move t bid ask clip] m = Inr (m', [cancel, new]) \<and>
    rq_requestType cancel = Request_CANCEL \<and> rq_orderId cancel = oo_order_id (the_slot m (unat t, 2)) \<and>
    new = \<lparr>rq_requestType = Request_NEW, rq_clientId = c, rq_tickerId = t, rq_orderId = next_orderId m,
      rq_price = bid, rq_qty = clip, rq_side = BUY\<rparr> \<and>
    the_slot m' (unat t, 2) = \<lparr>oo_ticker_id = t, oo_order_id = next_orderId m, oo_side = BUY,
      oo_price = bid, oo_qty = clip, oo_state = PENDING_NEW\<rparr> \<and>
    the_slot m' (unat t, 0) = the_slot m (unat t, 0) \<and> next_orderId m' = next_orderId m + 1"
  using assms
  by (simp add: mgr_run_def moveOrders_eq moved_live moved_idle onOrderUpdate_eq Let_def
      after_response_def moved_dead)

definition demo_quotes :: OrderManager where
  "demo_quotes = (OrderManager_ctor (Some 4))\<lparr>next_orderId := 3, ticker_orders := (\<lambda>_ side.
     if side = 2 then \<lparr>oo_ticker_id = 0, oo_order_id = 1, oo_side = BUY, oo_price = 100, oo_qty = 5, oo_state = LIVE\<rparr>
     else if side = 0 then \<lparr>oo_ticker_id = 0, oo_order_id = 2, oo_side = SELL, oo_price = 102, oo_qty = 5, oo_state = LIVE\<rparr>
     else OMOrder_default)\<rparr>"

theorem mgr_requotes_witness:
  "\<exists>m' cancel new. mgr_run [Move 0 99 102 5, Response (demo_response CANCELED 1 BUY), Move 0 99 102 5]
     demo_quotes = Inr (m', [cancel, new]) \<and> rq_orderId cancel = 1 \<and> rq_orderId new = 3"
  using mgr_requotes [of demo_quotes 4 0 99 102 5 "demo_response CANCELED 1 BUY"]
  by (fastforce simp: demo_quotes_def demo_response_def OrderManager_ctor_def the_slot_def resting_at_def
      ME_MAX_TICKERS_def)

section \<open>Where the life goes wrong\<close>

text \<open>
  A response is not matched to an order: a cancellation answer for whatever order number, an old
  one for instance, declares the order that waits in its slot dead, and the next move sends another
  order without ever asking to cancel the first.
\<close>

theorem mgr_stale_cancel_duplicates:
  assumes "mgr_trade_engine m = Some c" and "unat t < ME_MAX_TICKERS"
    and "oo_state (the_slot m (unat t, 0)) \<in> {PENDING_NEW, PENDING_CANCEL}"
    and "rs_type r = CANCELED" and "rs_tickerId r = t" and "rs_side r = BUY"
  shows "\<exists>m'. mgr_run [Response r, Move t bid ask clip] m =
    Inr (m', [\<lparr>rq_requestType = Request_NEW, rq_clientId = c, rq_tickerId = t, rq_orderId = next_orderId m,
      rq_price = bid, rq_qty = clip, rq_side = BUY\<rparr>])"
  using assms
  by (simp add: mgr_run_def moveOrders_eq moved_idle onOrderUpdate_eq Let_def after_response_def moved_dead)

theorem mgr_stale_cancel_duplicates_witness:
  "\<exists>m1 out m'. moveOrders 0 100 102 5 (OrderManager_ctor (Some 4)) = Inr (m1, out) \<and>
     oo_state (the_slot m1 (0, 2)) = PENDING_NEW \<and>
     mgr_run [Response (demo_response CANCELED 77 BUY), Move 0 100 102 5] m1 =
       Inr (m', [\<lparr>rq_requestType = Request_NEW, rq_clientId = 4, rq_tickerId = 0, rq_orderId = 3,
         rq_price = 100, rq_qty = 5, rq_side = BUY\<rparr>])"
proof -
  obtain m1 out where run: "moveOrders 0 100 102 5 (OrderManager_ctor (Some 4)) = Inr (m1, out)"
    and m1: "mgr_trade_engine m1 = Some 4" "oo_state (the_slot m1 (0, 2)) = PENDING_NEW"
      "oo_state (the_slot m1 (0, 0)) = PENDING_NEW" "next_orderId m1 = 3"
    by (simp add: moveOrders_eq OrderManager_ctor_def the_slot_def OMOrder_default_def
        ME_MAX_TICKERS_def moved_def Let_def put_slot_def)
  have "\<exists>m'. mgr_run [Response (demo_response CANCELED 77 BUY), Move 0 100 102 5] m1 =
    Inr (m', [\<lparr>rq_requestType = Request_NEW, rq_clientId = 4, rq_tickerId = 0, rq_orderId = next_orderId m1,
      rq_price = 100, rq_qty = 5, rq_side = BUY\<rparr>])"
    by (rule mgr_stale_cancel_duplicates [OF m1(1)])
      (simp_all add: m1 demo_response_def ME_MAX_TICKERS_def)
  then show ?thesis using run m1 by auto
qed

text \<open>Events that carry no acceptance, cancellation or fill.\<close>

fun unanswering :: "mgr_event \<Rightarrow> bool" where
  "unanswering (Move t bid ask clip) = True"
| "unanswering (Response r) = (rs_type r \<notin> {ACCEPTED, CANCELED, FILLED})"

lemma mgr_step_waits:
  assumes "mgr_step e (m, out) = Inr (m', out')" and "unanswering e"
    and "oo_state (the_slot m p) = PENDING_CANCEL"
  shows "the_slot m' p = the_slot m p"
proof (cases e)
  case (Move t bid ask clip)
  then obtain rs where run: "moveOrders t bid ask clip m = Inr (m', rs)"
    using assms(1) by (auto simp: bindR_eq_Inr)
  have "moved c n t price side qty (the_slot m p) = (the_slot m p, [], False)" for c n t price side qty
    using assms(3) by (simp add: moved_idle)
  then show ?thesis
    using run moveOrders_no_engine [of m t bid ask clip]
    by (cases "mgr_trade_engine m")
      (auto simp: moveOrders_eq Let_def split: if_splits prod.splits)
next
  case (Response r)
  then show ?thesis
    using assms by (cases "rs_type r")
      (auto simp: bindR_eq_Inr onOrderUpdate_eq Let_def after_response_def split: if_splits)
qed

text \<open>
  An order waiting for its cancellation waits for ever unless an acceptance, a cancellation or a
  fill comes: a refused cancellation changes nothing, and no number of moves ever touches the order
  or sends anything for its side again.
\<close>

theorem mgr_pending_cancel_is_stuck:
  assumes "mgr_run es m = Inr (m', out)" and "list_all unanswering es"
    and "oo_state (the_slot m p) = PENDING_CANCEL"
  shows "the_slot m' p = the_slot m p"
proof -
  let ?I = "\<lambda>(x, o'). the_slot x p = the_slot m p"
  have "?I (m', out)"
  proof (rule foldR_invariant [of es ?I mgr_step "(m, [])"])
    fix e s s'
    assume e: "e \<in> set es" and I: "?I s" and step: "mgr_step e s = Inr s'"
    obtain x o1 y o2 where s: "s = (x, o1)" "s' = (y, o2)" by (cases s; cases s')
    then show "?I s'"
      using mgr_step_waits [of e x o1 y o2 p] e I step assms(2,3) by (auto simp: list_all_iff)
  qed (use assms(1) in \<open>simp_all add: mgr_run_def\<close>)
  then show ?thesis by simp
qed

theorem mgr_pending_cancel_is_stuck_witness:
  "\<exists>m' out. mgr_run [Move 0 99 102 5] demo_quotes = Inr (m', out) \<and>
     (\<exists>m'' out'. mgr_run [Response (demo_response CANCEL_REJECTED 1 BUY), Move 0 98 102 5] m' = Inr (m'', out') \<and>
        oo_state (the_slot m'' (0, 2)) = PENDING_CANCEL)"
proof -
  obtain m' out where run: "mgr_run [Move 0 99 102 5] demo_quotes = Inr (m', out)"
    and st: "oo_state (the_slot m' (0, 2)) = PENDING_CANCEL" and en: "mgr_trade_engine m' = Some 4"
    by (simp add: mgr_run_def moveOrders_eq demo_quotes_def OrderManager_ctor_def the_slot_def
        ME_MAX_TICKERS_def moved_def Let_def put_slot_def)
  let ?es = "[Response (demo_response CANCEL_REJECTED 1 BUY), Move 0 98 102 5]"
  obtain m1 where one: "onOrderUpdate (demo_response CANCEL_REJECTED 1 BUY) m' = Inr m1"
    and en1: "mgr_trade_engine m1 = Some 4"
    using en by (simp add: onOrderUpdate_eq demo_response_def ME_MAX_TICKERS_def Let_def)
  obtain m'' out' where "moveOrders 0 98 102 5 m1 = Inr (m'', out')"
    using moveOrders_returns [OF en1, of 0 98 102 5] by (auto simp: ME_MAX_TICKERS_def)
  then have run2: "mgr_run ?es m' = Inr (m'', out')" by (simp add: mgr_run_def one)
  have "list_all unanswering ?es" by (simp add: demo_response_def)
  from mgr_pending_cancel_is_stuck [OF run2 this st] show ?thesis using run run2 st by auto
qed

end
