(* ===== verification/PositionInfo.thy ===== *)
theory PositionInfo
  imports Complex_Main MarketBookProps
begin

text \<open>
  trading_system/strategy/position_info.h and position_keeper.h: positions and profits of the
  trading client. The 32 bit position is a word read as a signed number; signed arithmetic that
  leaves the range of \<open>int\<close> is undefined and a fault here. Floating point arithmetic belongs to the
  platform and is a parameter of the definitions.
\<close>

section \<open>Arithmetic\<close>

record 'd arith =
  d_of :: "int \<Rightarrow> 'd"
  d_add :: "'d \<Rightarrow> 'd \<Rightarrow> 'd"
  d_sub :: "'d \<Rightarrow> 'd \<Rightarrow> 'd"
  d_mul :: "'d \<Rightarrow> 'd \<Rightarrow> 'd"
  d_div :: "'d \<Rightarrow> 'd \<Rightarrow> 'd"
  d_less :: "'d \<Rightarrow> 'd \<Rightarrow> bool"
  d_same :: "'d \<Rightarrow> 'd \<Rightarrow> bool"
  d_half :: 'd
  d_nan :: 'd
  d_show :: "'d \<Rightarrow> string"

definition d_of_word :: "'d arith \<Rightarrow> 'a::len word \<Rightarrow> 'd" where
  "d_of_word A w = d_of A (uint w)"

text \<open>\<open>int\<close> arithmetic: the exact result if it fits.\<close>

definition as_int :: "int \<Rightarrow> int res" where
  "as_int x = (if - (2 ^ 31) \<le> x \<and> x < 2 ^ 31 then Inr x else Inl Signed_overflow)"

definition abs_int :: "int \<Rightarrow> int res" where
  "abs_int x = as_int \<bar>x\<bar>"

text \<open>\<open>price * std::abs(n)\<close>: the number is converted to 64 bits.\<close>

definition times_price :: "Price \<Rightarrow> int \<Rightarrow> u64" where
  "times_price price n = price * word_of_int n"

section \<open>Positions\<close>

text \<open>
  The pointer to the best prices is the ticker of the book they belong to; the books are an argument
  of the operations that follow it.
\<close>

record 'd PositionInfo =
  position :: u32
  real_PnL :: 'd
  unreal_PnL :: 'd
  total_PnL :: 'd
  open_vwap :: "nat \<Rightarrow> 'd"
  volume :: Qty
  bbo :: ptr

definition PositionSides :: nat where "PositionSides = sideToIndex Side_MAX + 1"

text \<open>\<open>open_vwap_\<close> and \<open>volume_\<close> have no initializer and start with what the memory holds.\<close>

definition PositionInfo_ctor :: "'d arith \<Rightarrow> (nat \<Rightarrow> 'd) \<Rightarrow> Qty \<Rightarrow> 'd PositionInfo" where
  "PositionInfo_ctor A mem_vwap mem_volume =
     \<lparr>position = 0, real_PnL = d_of A 0, unreal_PnL = d_of A 0, total_PnL = d_of A 0,
      open_vwap = mem_vwap, volume = mem_volume, bbo = None\<rparr>"

text \<open>The average price shown for one side.\<close>

definition shown_vwap :: "'d arith \<Rightarrow> 'd PositionInfo \<Rightarrow> Side \<Rightarrow> 'd res" where
  "shown_vwap A p side =
     (if position p \<noteq> 0
      then bindR (arr_at PositionSides (open_vwap p) (sideToIndex side)) (\<lambda>v.
           bindR (abs_int (sint (position p))) (\<lambda>n. Inr (d_div A v (d_of A n))))
      else Inr (d_of A 0))"

definition PositionInfo_toString ::
    "'d arith \<Rightarrow> (nat \<Rightarrow> MarketOrderBook) \<Rightarrow> 'd PositionInfo \<Rightarrow> string res" where
  "PositionInfo_toString A books p =
     bindR (shown_vwap A p BUY) (\<lambda>buy. bindR (shown_vwap A p SELL) (\<lambda>sell.
     bindR (case bbo p of None \<Rightarrow> Inr '''' | Some t \<Rightarrow>
         BestBidOffer_toString (mb_level_pool (books t)) (getBBO (books t))) (\<lambda>best.
       Inr (''Position{'' @ ''pos:'' @ int_to_string (sint (position p)) @
         '' u-pnl:'' @ d_show A (unreal_PnL p) @ '' r-pnl:'' @ d_show A (real_PnL p) @
         '' t-pnl:'' @ d_show A (total_PnL p) @ '' vol:'' @ qtyToString (volume p) @
         '' vwaps:['' @ d_show A buy @ ''X'' @ d_show A sell @ ''] '' @ best @ ''}''))))"

text \<open>
  \<open>(price - vwap / |pos|) * |pos|\<close> for a long position and the negation of the difference for a
  short one.
\<close>

definition unrealized :: "'d arith \<Rightarrow> 'd \<Rightarrow> 'd PositionInfo \<Rightarrow> 'd res" where
  "unrealized A price p =
     (let pos = sint (position p) in
      if 0 < pos then
        bindR (arr_idx PositionSides (open_vwap p) (sideToIndex BUY)) (\<lambda>v. bindR (abs_int pos) (\<lambda>n.
          Inr (d_mul A (d_sub A price (d_div A v (d_of A n))) (d_of A n))))
      else
        bindR (arr_idx PositionSides (open_vwap p) (sideToIndex SELL)) (\<lambda>v. bindR (abs_int pos) (\<lambda>n.
          Inr (d_mul A (d_sub A (d_div A v (d_of A n)) price) (d_of A n)))))"

definition put_vwap :: "nat \<Rightarrow> 'd \<Rightarrow> 'd PositionInfo \<Rightarrow> 'd PositionInfo res" where
  "put_vwap i v p = (if i < PositionSides then Inr (p\<lparr>open_vwap := (open_vwap p)(i := v)\<rparr>) else Inl Out_of_bounds)"

text \<open>The branch of \<open>addFill\<close> for a fill against the open position; \<open>p\<close> has the new position.\<close>

definition reduce_position ::
    "'d arith \<Rightarrow> MEClientResponse \<Rightarrow> int \<Rightarrow> 'd PositionInfo \<Rightarrow> 'd PositionInfo res" where
  "reduce_position A r old_position p =
     (let side_index = sideToIndex (rs_side r);
          opposite_side_index = sideToIndex (if rs_side r = BUY then SELL else BUY);
          exec = sint (rs_exec_qty r); pos = sint (position p)
      in bindR (arr_idx PositionSides (open_vwap p) opposite_side_index) (\<lambda>opp.
         bindR (abs_int old_position) (\<lambda>abs_old.
         bindR (abs_int pos) (\<lambda>abs_pos.
           let opp_side_vwap = d_div A opp (d_of A abs_old) in
           bindR (put_vwap opposite_side_index (d_mul A opp_side_vwap (d_of A abs_pos)) p) (\<lambda>p1.
             let p2 = p1\<lparr>real_PnL := d_add A (real_PnL p1)
                   (d_mul A (d_mul A (d_of A (min exec abs_old))
                       (d_sub A opp_side_vwap (d_of_word A (rs_price r))))
                     (d_of A (sideToValue (rs_side r))))\<rparr>
             in bindR (as_int (pos * old_position)) (\<lambda>flip.
                if flip < 0 then
                  bindR (put_vwap side_index (d_of_word A (times_price (rs_price r) abs_pos)) p2) (\<lambda>p3.
                    put_vwap opposite_side_index (d_of A 0) p3)
                else Inr p2))))))"

text \<open>The branch for a fill that opens the position or adds to it.\<close>

definition extend_position :: "'d arith \<Rightarrow> MEClientResponse \<Rightarrow> 'd PositionInfo \<Rightarrow> 'd PositionInfo res" where
  "extend_position A r p =
     (let side_index = sideToIndex (rs_side r) in
      bindR (arr_idx PositionSides (open_vwap p) side_index) (\<lambda>v.
        put_vwap side_index (d_add A v (d_of_word A (ucast (rs_exec_qty r) * rs_price r :: u64))) p))"

text \<open>The unrealized profit after a fill.\<close>

definition mark_fill :: "'d arith \<Rightarrow> MEClientResponse \<Rightarrow> 'd PositionInfo \<Rightarrow> 'd PositionInfo res" where
  "mark_fill A r p =
     (if position p = 0
      then bindR (put_vwap (sideToIndex SELL) (d_of A 0) p) (\<lambda>p1.
           bindR (put_vwap (sideToIndex BUY) (d_of A 0) p1) (\<lambda>p2. Inr (p2\<lparr>unreal_PnL := d_of A 0\<rparr>)))
      else bindR (unrealized A (d_of_word A (rs_price r)) p) (\<lambda>u. Inr (p\<lparr>unreal_PnL := u\<rparr>)))"

text \<open>The last line logs the position, which prints the best prices if they are set.\<close>

definition addFill ::
    "'d arith \<Rightarrow> (nat \<Rightarrow> MarketOrderBook) \<Rightarrow> MEClientResponse \<Rightarrow> 'd PositionInfo \<Rightarrow> 'd PositionInfo res" where
  "addFill A books r p =
     (let old_position = sint (position p);
          side_value = sideToValue (rs_side r);
          p1 = p\<lparr>position := position p + rs_exec_qty r * word_of_int side_value,
                 volume := volume p + rs_exec_qty r\<rparr>
      in bindR (as_int (old_position * side_value)) (\<lambda>d.
         bindR (if 0 \<le> d then extend_position A r p1 else reduce_position A r old_position p1) (\<lambda>p2.
         bindR (mark_fill A r p2) (\<lambda>p3.
           let p4 = p3\<lparr>total_PnL := d_add A (unreal_PnL p3) (unreal_PnL p3)\<rparr>
           in bindR (PositionInfo_toString A books p4) (\<lambda>_. Inr p4)))))"

definition updateBBO ::
    "'d arith \<Rightarrow> (nat \<Rightarrow> MarketOrderBook) \<Rightarrow> nat \<Rightarrow> 'd PositionInfo \<Rightarrow> 'd PositionInfo res" where
  "updateBBO A books b p =
     (let p1 = p\<lparr>bbo := Some b\<rparr>; best = getBBO (books b); level = mlvl (books b) in
      if position p1 = 0 then Inr p1
      else bindR (deref (best_bid best)) (\<lambda>bid.
        if ml_price (level bid) = Price_INVALID then Inr p1
        else bindR (deref (best_ask best)) (\<lambda>ask.
          if ml_price (level ask) = Price_INVALID then Inr p1
          else let mid_price = d_mul A (d_of_word A (ml_price (level bid) + ml_price (level ask))) (d_half A)
            in bindR (unrealized A mid_price p1) (\<lambda>u.
               let p2 = p1\<lparr>unreal_PnL := u\<rparr>; p3 = p2\<lparr>total_PnL := d_add A (unreal_PnL p2) (real_PnL p2)\<rparr>
               in if \<not> d_same A (total_PnL p3) (total_PnL p)
                  then bindR (PositionInfo_toString A books p3) (\<lambda>_. Inr p3) else Inr p3))))"

section \<open>The position keeper\<close>

type_synonym 'd PositionKeeper = "nat \<Rightarrow> 'd PositionInfo"

definition keeper_addFill ::
    "'d arith \<Rightarrow> (nat \<Rightarrow> MarketOrderBook) \<Rightarrow> MEClientResponse \<Rightarrow> 'd PositionKeeper \<Rightarrow> 'd PositionKeeper res" where
  "keeper_addFill A books r k =
     bindR (arr_at ME_MAX_TICKERS k (unat (rs_tickerId r))) (\<lambda>p.
     bindR (addFill A books r p) (\<lambda>p'. Inr (k(unat (rs_tickerId r) := p'))))"

definition keeper_updateBBO ::
    "'d arith \<Rightarrow> (nat \<Rightarrow> MarketOrderBook) \<Rightarrow> TickerId \<Rightarrow> nat \<Rightarrow> 'd PositionKeeper \<Rightarrow> 'd PositionKeeper res" where
  "keeper_updateBBO A books ticker_id b k =
     bindR (arr_at ME_MAX_TICKERS k (unat ticker_id)) (\<lambda>p.
     bindR (updateBBO A books b p) (\<lambda>p'. Inr (k(unat ticker_id := p'))))"

definition getPositionInfo :: "'d PositionKeeper \<Rightarrow> TickerId \<Rightarrow> 'd PositionInfo res" where
  "getPositionInfo k ticker_Id = arr_at ME_MAX_TICKERS k (unat ticker_Id)"

definition keeper_line ::
    "'d arith \<Rightarrow> (nat \<Rightarrow> MarketOrderBook) \<Rightarrow> 'd PositionKeeper \<Rightarrow> nat \<Rightarrow> string \<times> 'd \<times> Qty \<Rightarrow> (string \<times> 'd \<times> Qty) res" where
  "keeper_line A books k i = (\<lambda>(ss, total_pnl, total_vol).
     bindR (PositionInfo_toString A books (k i)) (\<lambda>str.
       Inr (ss @ ''TickerId:'' @ tickerIdToString (of_nat i) @ '' '' @ str @ [CHR 0x0A],
         d_add A total_pnl (total_PnL (k i)), total_vol + volume (k i))))"

definition PositionKeeper_toString ::
    "'d arith \<Rightarrow> (nat \<Rightarrow> MarketOrderBook) \<Rightarrow> 'd PositionKeeper \<Rightarrow> string res" where
  "PositionKeeper_toString A books k =
     bindR (foldR (keeper_line A books k) [0..<ME_MAX_TICKERS] ('''', d_of A 0, 0)) (\<lambda>(ss, pnl, vol).
       Inr (ss @ ''Total PnL:'' @ d_show A pnl @ '' Vol:'' @ to_string vol @ [CHR 0x0A]))"

section \<open>Fills\<close>

lemma PositionSides_eq [simp]: "PositionSides = 4"
  by (simp add: PositionSides_def)

definition signed_qty :: "MEClientResponse \<Rightarrow> u32" where
  "signed_qty r = rs_exec_qty r * word_of_int (sideToValue (rs_side r))"

lemma put_vwap_fields:
  "put_vwap i v p = Inr p' \<Longrightarrow> position p' = position p \<and> volume p' = volume p \<and> bbo p' = bbo p \<and>
     real_PnL p' = real_PnL p \<and> unreal_PnL p' = unreal_PnL p"
  by (auto simp: put_vwap_def split: if_splits)

lemma reduce_position_fields:
  assumes "reduce_position A r old p = Inr p'"
  shows "position p' = position p \<and> volume p' = volume p \<and> bbo p' = bbo p"
  using assms
  by (auto simp: reduce_position_def Let_def bindR_eq_Inr split: if_splits dest!: put_vwap_fields)

lemma extend_position_fields:
  assumes "extend_position A r p = Inr p'"
  shows "position p' = position p \<and> volume p' = volume p \<and> bbo p' = bbo p"
  using assms by (auto simp: extend_position_def Let_def bindR_eq_Inr dest!: put_vwap_fields)

lemma mark_fill_fields:
  assumes "mark_fill A r p = Inr p'"
  shows "position p' = position p \<and> volume p' = volume p \<and> bbo p' = bbo p"
  using assms
  by (auto simp: mark_fill_def bindR_eq_Inr split: if_splits dest!: put_vwap_fields)

lemma addFill_fields:
  assumes "addFill A books r p = Inr p'"
  shows "position p' = position p + signed_qty r \<and> volume p' = volume p + rs_exec_qty r \<and>
    bbo p' = bbo p \<and> total_PnL p' = d_add A (unreal_PnL p') (unreal_PnL p')"
proof -
  let ?p1 = "p\<lparr>position := position p + signed_qty r, volume := volume p + rs_exec_qty r\<rparr>"
  obtain p2 p3 where "extend_position A r ?p1 = Inr p2 \<or> reduce_position A r (sint (position p)) ?p1 = Inr p2"
    and "mark_fill A r p2 = Inr p3" and "p' = p3\<lparr>total_PnL := d_add A (unreal_PnL p3) (unreal_PnL p3)\<rparr>"
    using assms unfolding addFill_def Let_def bindR_eq_Inr signed_qty_def [symmetric]
    by (metis Inr_inject)
  then show ?thesis
    using extend_position_fields [of A r ?p1 p2] reduce_position_fields [of A r _ ?p1 p2]
      mark_fill_fields [of A r p2 p3] by auto
qed

definition fills :: "'d arith \<Rightarrow> (nat \<Rightarrow> MarketOrderBook) \<Rightarrow> MEClientResponse list \<Rightarrow> 'd PositionInfo \<Rightarrow> 'd PositionInfo res" where
  "fills A books rs p = foldR (addFill A books) rs p"

lemma fills_fields:
  "fills A books rs p = Inr p' \<Longrightarrow> position p' = position p + sum_list (map signed_qty rs) \<and>
     volume p' = volume p + sum_list (map rs_exec_qty rs) \<and> bbo p' = bbo p"
proof (induction rs arbitrary: p)
  case (Cons r rs)
  then obtain q where q: "addFill A books r p = Inr q" "fills A books rs q = Inr p'"
    by (auto simp: fills_def bindR_eq_Inr)
  show ?case using addFill_fields [OF q(1)] Cons.IH [OF q(2)] by (simp add: algebra_simps)
qed (simp add: fills_def)

section \<open>Properties\<close>

text \<open>Exact arithmetic, to run the definitions on examples.\<close>

definition exact_arith :: "rat arith" where
  "exact_arith = \<lparr>d_of = of_int, d_add = (+), d_sub = (-), d_mul = (*), d_div = (/), d_less = (<),
     d_same = (=), d_half = 1 / 2, d_nan = 0, d_show = (\<lambda>_. ''0'')\<rparr>"

definition demo_fill :: "Side \<Rightarrow> Qty \<Rightarrow> Price \<Rightarrow> MEClientResponse" where
  "demo_fill side qty price = MEClientResponse_default\<lparr>rs_type := FILLED, rs_tickerId := 0,
     rs_side := side, rs_exec_qty := qty, rs_price := price\<rparr>"

lemma as_int_ok: "- (2 ^ 31) \<le> x \<Longrightarrow> x < 2 ^ 31 \<Longrightarrow> as_int x = Inr x"
  by (simp add: as_int_def)

lemma exact_arith_simps [simp]:
  "d_of exact_arith = of_int" "d_add exact_arith x y = x + y" "d_sub exact_arith x y = x - y"
  "d_mul exact_arith x y = x * y" "d_div exact_arith x y = x / y"
  by (simp_all add: exact_arith_def)

lemma sint_less_int: "sint (w :: u32) < 2 ^ 31" and sint_ge_int: "- (2 ^ 31) \<le> sint (w :: u32)"
  using sint_range_size [of w] by (simp_all add: word_size)

text \<open>A position that prints.\<close>

lemma PositionInfo_toString_ok:
  assumes "bbo p = None" and "- (2 ^ 31) < sint (position p)"
  shows "\<exists>s. PositionInfo_toString A books p = Inr s"
proof -
  have "abs_int (sint (position p)) = Inr \<bar>sint (position p)\<bar>"
    unfolding abs_int_def using assms(2) sint_less_int [of "position p"] by (intro as_int_ok) auto
  then show ?thesis using assms(1) by (simp add: PositionInfo_toString_def shown_vwap_def)
qed

text \<open>
  Whatever profits are computed along the way, after any run of fills that does not fail a position is the
  sum of the signed quantities and the volume has grown by the sum of the quantities, both modulo
  \<open>2 ^ 32\<close>; the volume counts from what the memory held, as nothing initializes it.
\<close>

theorem position_tracks_fills:
  assumes "fills A books rs (PositionInfo_ctor A mem_vwap mem_volume) = Inr p"
  shows "position p = sum_list (map signed_qty rs) \<and>
    volume p = mem_volume + sum_list (map rs_exec_qty rs)"
  using fills_fields [OF assms] by (simp add: PositionInfo_ctor_def)

lemma demo_fills:
  "\<exists>p. fills exact_arith (\<lambda>_. MarketOrderBook_zeroed 0) [demo_fill BUY 10 100, demo_fill SELL 4 103]
     (PositionInfo_ctor exact_arith (\<lambda>_. 0) 0) = Inr p \<and> real_PnL p = 12 \<and> total_PnL p = 36"
  by (simp add: fills_def addFill_def extend_position_def reduce_position_def mark_fill_def unrealized_def
      demo_fill_def PositionInfo_ctor_def Let_def as_int_def abs_int_def put_vwap_def d_of_word_def
      PositionInfo_toString_def shown_vwap_def)

theorem position_tracks_fills_witness:
  "\<exists>p. fills exact_arith (\<lambda>_. MarketOrderBook_zeroed 0) [demo_fill BUY 10 100, demo_fill SELL 4 103]
     (PositionInfo_ctor exact_arith (\<lambda>_. 0) 0) = Inr p \<and> position p = 6 \<and> volume p = 14"
proof -
  obtain p where run: "fills exact_arith (\<lambda>_. MarketOrderBook_zeroed 0)
      [demo_fill BUY 10 100, demo_fill SELL 4 103] (PositionInfo_ctor exact_arith (\<lambda>_. 0) 0) = Inr p"
    using demo_fills by blast
  show ?thesis
    using position_tracks_fills [OF run] run by (simp add: signed_qty_def demo_fill_def)
qed

text \<open>
  A fill against an open position multiplies the old and the new position as 32 bit numbers: when
  a long position of \<open>n\<close> is reduced by \<open>e\<close> and \<open>(n - e) * n\<close> reaches \<open>2 ^ 31\<close>, which a position of
  fifty thousand does, the product overflows.
\<close>

theorem position_overflows:
  assumes "sint (position p) = n" and "rs_side r = SELL" and "sint (rs_exec_qty r) = e"
    and "0 < e" and "e \<le> n" and "2 ^ 31 \<le> (n - e) * n"
  shows "addFill A books r p = Inl Signed_overflow"
proof -
  let ?p1 = "p\<lparr>position := position p + rs_exec_qty r * word_of_int (- 1),
    volume := volume p + rs_exec_qty r\<rparr>"
  have n: "n < 2 ^ 31" using sint_less_int [of "position p"] assms(1) by simp
  have new: "sint (position p - rs_exec_qty r) = n - e"
  proof -
    have fit: "sint (word_of_int x :: u32) = x" if "0 \<le> x" "x < 2 ^ 31" for x
      using that by (simp add: int_word_sint)
    have eq: "position p - rs_exec_qty r = word_of_int (n - e)"
      unfolding assms(1,3) [symmetric] by simp
    show ?thesis unfolding eq by (rule fit) (use n assms(4,5) in simp_all)
  qed
  have "as_int (n * - 1) = Inr (- n)" and a: "as_int n = Inr n" "as_int (n - e) = Inr (n - e)"
    using n assms(4,5) by (simp_all add: as_int_def)
  moreover have "as_int ((n - e) * n) = Inl Signed_overflow" using assms(6) by (simp add: as_int_def)
  ultimately show ?thesis
    using assms new
    by (simp add: addFill_def Let_def reduce_position_def abs_int_def put_vwap_def)
qed

theorem position_overflows_witness:
  "addFill exact_arith (\<lambda>_. MarketOrderBook_zeroed 0) (demo_fill SELL 1 100)
     ((PositionInfo_ctor exact_arith (\<lambda>_. 0) 0)\<lparr>position := 50000\<rparr>) = Inl Signed_overflow"
  by (rule position_overflows [where n = 50000 and e = 1]) (simp_all add: demo_fill_def)

text \<open>
  The client's best prices break its positions: they are null on every reachable book, so an
  update with them dereferences null when the position is open, and when it is flat the update
  stores the pointer and every fill after it fails, in the call that logs it.
\<close>

theorem position_after_bbo_fails:
  assumes "market_book_run t us = Inr (books b)"
  shows "if position p \<noteq> 0 then updateBBO A books b p = Inl Null_deref
    else \<exists>p'. updateBBO A books b p = Inr p' \<and> (\<forall>r. \<exists>e. addFill A books r p' = Inl e)"
proof (cases "position p = 0")
  case True
  have bbo: "getBBO (books b) = BestBidOffer_default"
    using mb_run_inv [OF assms] by (simp add: mb_inv_def getBBO_def)
  let ?p = "p\<lparr>bbo := Some b\<rparr>"
  have "\<exists>e. addFill A books r ?p = Inl e" for r
  proof (cases "addFill A books r ?p")
    case (Inr p')
    then have b': "bbo p' = Some b" using addFill_fields [OF Inr] by simp
    obtain s where "PositionInfo_toString A books p' = Inr s"
      using Inr unfolding addFill_def Let_def bindR_eq_Inr by auto
    then show ?thesis
      using b' bbo by (auto simp: PositionInfo_toString_def bindR_eq_Inr BestBidOffer_toString_def BestBidOffer_default_def)
  qed simp
  then show ?thesis using True by (simp add: updateBBO_def Let_def)
next
  case False
  have "getBBO (books b) = BestBidOffer_default"
    using mb_run_inv [OF assms] by (simp add: mb_inv_def getBBO_def)
  then show ?thesis using False by (simp add: updateBBO_def Let_def BestBidOffer_default_def)
qed

theorem position_after_bbo_fails_witness:
  "\<exists>bk. market_book_run 0 demo_updates = Inr bk \<and>
    updateBBO exact_arith (\<lambda>_. bk) 0 ((PositionInfo_ctor exact_arith (\<lambda>_. 0) 0)\<lparr>position := 5\<rparr>) = Inl Null_deref"
proof -
  obtain bk where run: "market_book_run 0 demo_updates = Inr bk" using demo_market_book by blast
  then show ?thesis
    using position_after_bbo_fails [where books = "\<lambda>_. bk" and A = exact_arith and t = 0 and us = demo_updates
        and b = 0 and p = "(PositionInfo_ctor exact_arith (\<lambda>_. 0) 0)\<lparr>position := 5\<rparr>"]
    by auto
qed



end
