(* ===== verification/RiskManager.thy ===== *)
theory RiskManager
  imports PositionInfo
begin

text \<open>
  trading_system/strategy/risk_manager.h and risk_manager.cpp, with the two configuration structs of
  common/common_types.h: the pre-trade check of an order against the limits of its instrument.
\<close>

record 'd RiskCfg =
  max_order_size :: Qty
  max_position :: Qty
  max_loss :: 'd

definition RiskCfg_default :: "'d arith \<Rightarrow> 'd RiskCfg" where
  "RiskCfg_default A = \<lparr>max_order_size = 0, max_position = 0, max_loss = d_of A 0\<rparr>"

definition RiskCfg_toString :: "'d arith \<Rightarrow> 'd RiskCfg \<Rightarrow> string" where
  "RiskCfg_toString A c =
     ''RiskCfg{'' @ ''max-order-size:'' @ qtyToString (max_order_size c) @ '' '' @
     ''max-position:'' @ qtyToString (max_position c) @ '' '' @
     ''max-loss:'' @ d_show A (max_loss c) @ ''}''"

record 'd TradeEngineCfg =
  clip :: Qty
  threshold :: 'd
  risk_cfg :: "'d RiskCfg"

definition TradeEngineCfg_toString :: "'d arith \<Rightarrow> 'd TradeEngineCfg \<Rightarrow> string" where
  "TradeEngineCfg_toString A c =
     ''TradeEngineCfg{'' @ ''clip:'' @ qtyToString (clip c) @ '' '' @
     ''thresh:'' @ d_show A (threshold c) @ '' '' @
     ''risk:'' @ RiskCfg_toString A (risk_cfg c) @ ''}''"

datatype RiskCheckResult = Risk_INVALID | ORDER_TOO_LARGE | POSITION_TOO_LARGE | LOSS_TOO_LARGE | ALLOWED

fun riskCheckResultToString :: "RiskCheckResult \<Rightarrow> string" where
  "riskCheckResultToString Risk_INVALID = ''INVALID''"
| "riskCheckResultToString ORDER_TOO_LARGE = ''ORDER_TOO_LARGE''"
| "riskCheckResultToString POSITION_TOO_LARGE = ''POSITION_TOO_LARGE''"
| "riskCheckResultToString LOSS_TOO_LARGE = ''LOSS_TOO_LARGE''"
| "riskCheckResultToString ALLOWED = ''ALLOWED''"

text \<open>\<open>position_info\<close> is the ticker whose position the pointer refers to, if it is set.\<close>

record 'd RiskInfo =
  position_info :: ptr
  ri_risk_cfg :: "'d RiskCfg"

definition RiskInfo_default :: "'d arith \<Rightarrow> 'd RiskInfo" where
  "RiskInfo_default A = \<lparr>position_info = None, ri_risk_cfg = RiskCfg_default A\<rparr>"

text \<open>
  The check of one order. The first comparison is unsigned; the second is in \<open>int\<close>, where the
  quantity and the limit are cut to 32 signed bits.
\<close>

definition checkPreTradeRisk ::
    "'d arith \<Rightarrow> 'd PositionKeeper \<Rightarrow> Side \<Rightarrow> Qty \<Rightarrow> 'd RiskInfo \<Rightarrow> RiskCheckResult res" where
  "checkPreTradeRisk A keeper side qty ri =
     (if max_order_size (ri_risk_cfg ri) < qty then Inr ORDER_TOO_LARGE
      else bindR (deref (position_info ri)) (\<lambda>i.
           bindR (as_int (sideToValue side * sint qty)) (\<lambda>change.
           bindR (as_int (sint (position (keeper i)) + change)) (\<lambda>next_position.
           bindR (abs_int next_position) (\<lambda>size.
             Inr (if sint (max_position (ri_risk_cfg ri)) < size then POSITION_TOO_LARGE
                  else if d_less A (total_PnL (keeper i)) (max_loss (ri_risk_cfg ri)) then LOSS_TOO_LARGE
                  else ALLOWED))))))"

definition RiskInfo_toString ::
    "'d arith \<Rightarrow> (nat \<Rightarrow> MarketOrderBook) \<Rightarrow> 'd PositionKeeper \<Rightarrow> 'd RiskInfo \<Rightarrow> string res" where
  "RiskInfo_toString A books keeper ri =
     bindR (deref (position_info ri)) (\<lambda>i. bindR (PositionInfo_toString A books (keeper i)) (\<lambda>pos.
       Inr (''RiskInfo['' @ ''pos:'' @ pos @ '' '' @ RiskCfg_toString A (ri_risk_cfg ri) @ '']'')))"

type_synonym 'd RiskManager = "nat \<Rightarrow> 'd RiskInfo"

text \<open>The constructor's loop over the instruments.\<close>

definition risk_ctor_step :: "(nat \<Rightarrow> 'd TradeEngineCfg) \<Rightarrow> 'd PositionKeeper \<Rightarrow> nat \<Rightarrow> 'd RiskManager \<Rightarrow> 'd RiskManager res" where
  "risk_ctor_step ticker_cfg keeper i rm =
     bindR (getPositionInfo keeper (of_nat i)) (\<lambda>_.
     bindR (arr_put ME_MAX_TICKERS rm i ((rm i)\<lparr>position_info := Some i\<rparr>)) (\<lambda>rm1.
     bindR (arr_idx ME_MAX_TICKERS ticker_cfg i) (\<lambda>cfg.
       arr_put ME_MAX_TICKERS rm1 i ((rm1 i)\<lparr>ri_risk_cfg := risk_cfg cfg\<rparr>))))"

definition RiskManager_ctor ::
    "'d arith \<Rightarrow> (nat \<Rightarrow> 'd TradeEngineCfg) \<Rightarrow> 'd PositionKeeper \<Rightarrow> 'd RiskManager res" where
  "RiskManager_ctor A ticker_cfg keeper =
     foldR (risk_ctor_step ticker_cfg keeper) [0..<ME_MAX_TICKERS] (\<lambda>_. RiskInfo_default A)"

definition rm_checkPreTradeRisk ::
    "'d arith \<Rightarrow> 'd PositionKeeper \<Rightarrow> TickerId \<Rightarrow> Side \<Rightarrow> Qty \<Rightarrow> 'd RiskManager \<Rightarrow> RiskCheckResult res" where
  "rm_checkPreTradeRisk A keeper ticker_id side qty rm =
     bindR (arr_at ME_MAX_TICKERS rm (unat ticker_id)) (checkPreTradeRisk A keeper side qty)"

section \<open>What is allowed\<close>

lemma risk_ctor_from:
  assumes "xs = [n..<ME_MAX_TICKERS]"
    and "\<And>j. j < n \<Longrightarrow> rm j = \<lparr>position_info = Some j, ri_risk_cfg = risk_cfg (cfg j)\<rparr>"
  shows "\<exists>rm'. foldR (risk_ctor_step cfg keeper) xs rm = Inr rm' \<and>
    (\<forall>j < ME_MAX_TICKERS. rm' j = \<lparr>position_info = Some j, ri_risk_cfg = risk_cfg (cfg j)\<rparr>)"
  using assms
proof (induction xs arbitrary: n rm)
  case Nil
  from Nil(1) [symmetric] have "ME_MAX_TICKERS \<le> n" by auto
  then show ?case using Nil(2) by simp
next
  case (Cons x xs)
  have n: "n < ME_MAX_TICKERS" and x: "x = n" and xs: "xs = [Suc n..<ME_MAX_TICKERS]"
    using Cons.prems(1) [symmetric] unfolding upt_eq_Cons_conv by auto
  let ?rm = "rm(n := \<lparr>position_info = Some n, ri_risk_cfg = risk_cfg (cfg n)\<rparr>)"
  have small: "unat (of_nat n :: u32) = n" using n by (simp add: unat_of_nat ME_MAX_TICKERS_def)
  have record_eq: "(rm n)\<lparr>position_info := Some n, ri_risk_cfg := risk_cfg (cfg n)\<rparr> =
    \<lparr>position_info = Some n, ri_risk_cfg = risk_cfg (cfg n)\<rparr>" by (cases "rm n") simp
  have step: "risk_ctor_step cfg keeper n rm = Inr ?rm"
    unfolding record_eq [symmetric] using n small by (simp add: risk_ctor_step_def getPositionInfo_def)
  have done_so_far: "?rm j = \<lparr>position_info = Some j, ri_risk_cfg = risk_cfg (cfg j)\<rparr>" if "j < Suc n" for j
    using that Cons.prems(2) by (auto simp: less_Suc_eq)
  have "foldR (risk_ctor_step cfg keeper) (x # xs) rm = foldR (risk_ctor_step cfg keeper) xs ?rm"
    unfolding x by (simp only: foldR.simps step bindR_Inr)
  then show ?case using Cons.IH [OF xs done_so_far] by (simp only:)
qed

lemma RiskManager_ctor_fields:
  "\<exists>rm. RiskManager_ctor A cfg keeper = Inr rm \<and>
    (\<forall>j < ME_MAX_TICKERS. rm j = \<lparr>position_info = Some j, ri_risk_cfg = risk_cfg (cfg j)\<rparr>)"
  unfolding RiskManager_ctor_def by (rule risk_ctor_from [of _ 0]) simp_all

text \<open>
  C35. The risk manager built from the instruments' limits lets an order through exactly when all
  three limits hold: for a side that is bought or sold, positive sizes and a sum in range, the
  order is allowed if and only if its quantity is at most the order limit, the resulting position
  at most the position limit in either direction, and the total profit not below the loss limit.
\<close>

theorem risk_allows_iff:
  assumes "RiskManager_ctor A cfg keeper = Inr rm" and "unat t < ME_MAX_TICKERS" and "side \<in> {BUY, SELL}"
    and "0 \<le> sint qty" and "\<bar>sint (position (keeper (unat t))) + sideToValue side * sint qty\<bar> < 2 ^ 31"
    and "0 \<le> sint (max_position (risk_cfg (cfg (unat t))))"
  shows "rm_checkPreTradeRisk A keeper t side qty rm = Inr ALLOWED \<longleftrightarrow>
    unat qty \<le> unat (max_order_size (risk_cfg (cfg (unat t)))) \<and>
    \<bar>sint (position (keeper (unat t))) + sideToValue side * sint qty\<bar> \<le>
      int (unat (max_position (risk_cfg (cfg (unat t))))) \<and>
    \<not> d_less A (total_PnL (keeper (unat t))) (max_loss (risk_cfg (cfg (unat t))))"
proof -
  let ?c = "risk_cfg (cfg (unat t))" and ?p = "keeper (unat t)"
  have rm: "rm (unat t) = \<lparr>position_info = Some (unat t), ri_risk_cfg = ?c\<rparr>"
    using RiskManager_ctor_fields [of A cfg keeper] assms(1,2) by auto
  have change: "as_int (sideToValue side * sint qty) = Inr (sideToValue side * sint qty)"
    using assms(3,4) sint_less_int [of qty] by (intro as_int_ok) auto
  have sum: "as_int (sint (position ?p) + sideToValue side * sint qty) = Inr (sint (position ?p) + sideToValue side * sint qty)"
    using assms(5) by (intro as_int_ok) auto
  have size: "abs_int (sint (position ?p) + sideToValue side * sint qty) = Inr \<bar>sint (position ?p) + sideToValue side * sint qty\<bar>"
    unfolding abs_int_def using assms(5) by (intro as_int_ok) auto
  have lim: "sint (max_position ?c) = int (unat (max_position ?c))"
    using assms(6) sint_less_int [of "max_position ?c"]
    by (simp add: uint_sint take_bit_int_eq_self flip: uint_nat)
  have order: "max_order_size ?c < qty \<longleftrightarrow> \<not> unat qty \<le> unat (max_order_size ?c)"
    by (simp add: word_less_nat_alt not_le)
  show ?thesis
    using assms(2)
    by (auto simp: rm_checkPreTradeRisk_def checkPreTradeRisk_def rm change sum size lim order)
qed

definition demo_cfg :: "nat \<Rightarrow> rat TradeEngineCfg" where
  "demo_cfg = (\<lambda>_. \<lparr>clip = 5, threshold = 0, risk_cfg = \<lparr>max_order_size = 10, max_position = 20, max_loss = - 100\<rparr>\<rparr>)"

definition demo_keeper :: "rat PositionKeeper" where
  "demo_keeper = (\<lambda>_. (PositionInfo_ctor exact_arith (\<lambda>_. 0) 0)\<lparr>position := 15\<rparr>)"

theorem risk_allows_iff_witness:
  "\<exists>rm. RiskManager_ctor exact_arith demo_cfg demo_keeper = Inr rm \<and>
     rm_checkPreTradeRisk exact_arith demo_keeper 0 BUY 5 rm = Inr ALLOWED \<and>
     rm_checkPreTradeRisk exact_arith demo_keeper 0 BUY 6 rm \<noteq> Inr ALLOWED"
proof -
  obtain rm where rm: "RiskManager_ctor exact_arith demo_cfg demo_keeper = Inr rm"
    using RiskManager_ctor_fields by blast
  have "rm_checkPreTradeRisk exact_arith demo_keeper 0 BUY 5 rm = Inr ALLOWED"
    using risk_allows_iff [OF rm, of 0 BUY 5]
    by (simp add: ME_MAX_TICKERS_def demo_keeper_def PositionInfo_ctor_def demo_cfg_def exact_arith_def)
  moreover have "rm_checkPreTradeRisk exact_arith demo_keeper 0 BUY 6 rm \<noteq> Inr ALLOWED"
    using risk_allows_iff [OF rm, of 0 BUY 6]
    by (simp add: ME_MAX_TICKERS_def demo_keeper_def PositionInfo_ctor_def demo_cfg_def exact_arith_def)
  ultimately show ?thesis using rm by blast
qed

end
