(* ===== verification/FeatureEngine.thy ===== *)
theory FeatureEngine
  imports PositionInfo
begin

text \<open>
  trading_system/strategy/feature_engine.h and feature_engine.cpp: the two numbers a strategy trades
  on, computed from a book's best prices with the platform's floating point arithmetic.
\<close>

record 'd FeatureEngine =
  market_price :: 'd
  aggregated_trade_qty_ratio :: 'd

definition FeatureEngine_ctor :: "'d arith \<Rightarrow> 'd FeatureEngine" where
  "FeatureEngine_ctor A = \<lparr>market_price = d_nan A, aggregated_trade_qty_ratio = d_nan A\<rparr>"

definition getMarketPrice :: "'d FeatureEngine \<Rightarrow> 'd" where
  "getMarketPrice f = market_price f"

definition getAggregatedTradeQtyRatio :: "'d FeatureEngine \<Rightarrow> 'd" where
  "getAggregatedTradeQtyRatio f = aggregated_trade_qty_ratio f"

text \<open>Both best prices are valid; the ask is looked at first.\<close>

definition both_prices :: "MarketOrderBook \<Rightarrow> (nat \<times> nat) option res" where
  "both_prices b =
     bindR (deref (best_ask (getBBO b))) (\<lambda>ask.
     if ml_price (mlvl b ask) = Price_INVALID then Inr None
     else bindR (deref (best_bid (getBBO b))) (\<lambda>bid.
       Inr (if ml_price (mlvl b bid) = Price_INVALID then None else Some (bid, ask))))"

text \<open>
  The products are summed in 64 bits, the quantities in 32, before the division.
\<close>

definition onOrderBookUpdate :: "'d arith \<Rightarrow> MarketOrderBook \<Rightarrow> 'd FeatureEngine \<Rightarrow> 'd FeatureEngine res" where
  "onOrderBookUpdate A b f =
     bindR (both_prices b) (\<lambda>prices. Inr (case prices of None \<Rightarrow> f
       | Some (bid, ask) \<Rightarrow>
           (let B = mlvl b bid; S = mlvl b ask in
            f\<lparr>market_price := d_div A
                (d_of_word A (ml_price B * ucast (ml_total_qty S) + ml_price S * ucast (ml_total_qty B)))
                (d_of_word A (ml_total_qty B + ml_total_qty S))\<rparr>)))"

definition onTradeUpdate ::
    "'d arith \<Rightarrow> MEMarketUpdate \<Rightarrow> MarketOrderBook \<Rightarrow> 'd FeatureEngine \<Rightarrow> 'd FeatureEngine res" where
  "onTradeUpdate A u b f =
     bindR (both_prices b) (\<lambda>prices. Inr (case prices of None \<Rightarrow> f
       | Some (bid, ask) \<Rightarrow>
           f\<lparr>aggregated_trade_qty_ratio := d_div A (d_of_word A (mu_qty u))
               (d_of_word A (if mu_side u = BUY then ml_total_qty (mlvl b ask) else ml_total_qty (mlvl b bid)))\<rparr>))"

text \<open>
  The features can never be computed: on every book the client can reach, with whatever updates,
  both callbacks dereference the null best offer.
\<close>

theorem features_need_bbo:
  assumes "market_book_run t us = Inr b"
  shows "onOrderBookUpdate A b f = Inl Null_deref \<and> onTradeUpdate A u b f = Inl Null_deref"
proof -
  have "getBBO b = BestBidOffer_default"
    using mb_run_inv [OF assms] by (simp add: mb_inv_def getBBO_def)
  then have "both_prices b = Inl Null_deref" by (simp add: both_prices_def BestBidOffer_default_def)
  then show ?thesis by (simp add: onOrderBookUpdate_def onTradeUpdate_def)
qed

theorem features_need_bbo_witness:
  "\<exists>b. market_book_run 0 demo_updates = Inr b \<and>
     onOrderBookUpdate exact_arith b (FeatureEngine_ctor exact_arith) = Inl Null_deref"
proof -
  obtain b where run: "market_book_run 0 demo_updates = Inr b" using demo_market_book by blast
  then show ?thesis using features_need_bbo [OF run, of exact_arith] by blast
qed

section \<open>With best prices\<close>

text \<open>
  The market price weighs each best price with the quantity on the other side: in exact
  arithmetic, on a book whose best prices are set and valid, and while the products and the sum
  fit their types, it is \<open>(bid * ask quantity + ask * bid quantity) / (sum of quantities)\<close>, which
  lies between the two prices.
\<close>

theorem market_price_between:
  assumes "best_bid (getBBO b) = Some bid" and "best_ask (getBBO b) = Some ask"
    and "ml_price (mlvl b bid) \<noteq> Price_INVALID" and "ml_price (mlvl b ask) \<noteq> Price_INVALID"
    and "unat (ml_price (mlvl b bid)) = pb" and "unat (ml_price (mlvl b ask)) = pa" and "pb \<le> pa"
    and "unat (ml_total_qty (mlvl b bid)) = qb" and "unat (ml_total_qty (mlvl b ask)) = qa"
    and "0 < qa + qb" and "qa + qb < 2 ^ 32" and "pb * qa + pa * qb < 2 ^ 64"
  shows "\<exists>f'. onOrderBookUpdate exact_arith b f = Inr f' \<and>
    getMarketPrice f' = of_nat (pb * qa + pa * qb) / of_nat (qa + qb) \<and>
    of_nat pb \<le> getMarketPrice f' \<and> getMarketPrice f' \<le> of_nat pa"
proof -
  let ?B = "mlvl b bid" and ?S = "mlvl b ask"
  let ?num = "ml_price ?B * ucast (ml_total_qty ?S) + ml_price ?S * ucast (ml_total_qty ?B)"
  have q64: "unat (ucast (ml_total_qty ?S) :: u64) = qa" "unat (ucast (ml_total_qty ?B) :: u64) = qb"
    using assms(8,9) unsigned_less [where 'a = nat, of "ml_total_qty ?S"]
      unsigned_less [where 'a = nat, of "ml_total_qty ?B"]
    by (simp_all add: unsigned_ucast_eq take_bit_nat_eq_self)
  have parts: "pb * qa < 2 ^ 64" "pa * qb < 2 ^ 64" using assms(12) by linarith+
  have num: "unat ?num = pb * qa + pa * qb"
    using assms(5,6,12) parts q64 by (simp add: unat_word_ariths)
  have den: "unat (ml_total_qty ?B + ml_total_qty ?S) = qa + qb"
    using assms(8,9,11) by (simp add: unat_word_ariths)
  have price: "getMarketPrice f' = of_nat (pb * qa + pa * qb) / of_nat (qa + qb)"
    if "onOrderBookUpdate exact_arith b f = Inr f'" for f'
  proof -
    have "f' = f\<lparr>market_price := of_int (uint ?num) / of_int (uint (ml_total_qty ?B + ml_total_qty ?S))\<rparr>"
      using that assms(1-4) by (simp add: onOrderBookUpdate_def both_prices_def Let_def d_of_word_def)
    moreover have "of_int (uint ?num) = (of_nat (pb * qa + pa * qb) :: rat)"
      by (metis num of_int_of_nat_eq uint_nat)
    moreover have "of_int (uint (ml_total_qty ?B + ml_total_qty ?S)) = (of_nat (qa + qb) :: rat)"
      by (metis den of_int_of_nat_eq uint_nat)
    ultimately show ?thesis by (simp add: getMarketPrice_def)
  qed
  have "pb * (qa + qb) \<le> pb * qa + pa * qb" and "pb * qa + pa * qb \<le> pa * (qa + qb)"
    using assms(7) by (simp_all add: algebra_simps)
  then have "of_nat pb * of_nat (qa + qb) \<le> (of_nat (pb * qa + pa * qb) :: rat)"
    and "(of_nat (pb * qa + pa * qb) :: rat) \<le> of_nat pa * of_nat (qa + qb)"
    unfolding of_nat_mult [symmetric] of_nat_le_iff by simp_all
  moreover have "(0 :: rat) < of_nat (qa + qb)" using assms(10) by (simp only: of_nat_0_less_iff)
  ultimately have "of_nat pb \<le> (of_nat (pb * qa + pa * qb) :: rat) / of_nat (qa + qb)"
    and "(of_nat (pb * qa + pa * qb) :: rat) / of_nat (qa + qb) \<le> of_nat pa"
    by (simp_all only: pos_le_divide_eq pos_divide_le_eq)
  moreover have "\<exists>f'. onOrderBookUpdate exact_arith b f = Inr f'"
    using assms(1-4) by (simp add: onOrderBookUpdate_def both_prices_def)
  ultimately show ?thesis using price by metis
qed

definition demo_quoted_book :: MarketOrderBook where
  "demo_quoted_book = (MarketOrderBook_zeroed 0)\<lparr>best_offer := \<lparr>best_bid = Some 0, best_ask = Some 1\<rparr>,
     mb_level_pool := pool_put (pool_put (mb_level_pool (MarketOrderBook_zeroed 0))
       0 ((MarketOrderPriceLevel_ctor BUY 100 None None None)\<lparr>ml_total_qty := 1\<rparr>))
       1 ((MarketOrderPriceLevel_ctor SELL 104 None None None)\<lparr>ml_total_qty := 3\<rparr>)\<rparr>"

theorem market_price_between_witness:
  "\<exists>f'. onOrderBookUpdate exact_arith demo_quoted_book (FeatureEngine_ctor exact_arith) = Inr f' \<and>
     getMarketPrice f' = 101"
proof -
  have levels: "mlvl demo_quoted_book 0 = (MarketOrderPriceLevel_ctor BUY 100 None None None)\<lparr>ml_total_qty := 1\<rparr>"
    "mlvl demo_quoted_book 1 = (MarketOrderPriceLevel_ctor SELL 104 None None None)\<lparr>ml_total_qty := 3\<rparr>"
    by (simp_all add: demo_quoted_book_def)
  have best: "best_bid (getBBO demo_quoted_book) = Some 0" "best_ask (getBBO demo_quoted_book) = Some 1"
    by (simp_all add: demo_quoted_book_def getBBO_def)
  show ?thesis
    using market_price_between [OF best, of 100 104 1 3 "FeatureEngine_ctor exact_arith"]
    unfolding levels by (auto simp: MarketOrderPriceLevel_ctor_def Price_INVALID_def)
qed

end
