(* ===== verification/LFQueueConc.thy ===== *)
theory LFQueueConc
  imports LFQueue
begin

text \<open>
  common/lf_queue.h as two threads see it: one producer and one consumer whose atomic accesses
  interleave. A push is three steps (fill the slot, advance the write index, count), a read takes
  the pointer, looks at the counter where the loop does, processes the element, advances the read
  index, checks the counter and counts down. The consumers of order_server.cpp and of the market
  data threads test the counter (\<open>guarded\<close>); those of matching_engine.cpp and order_gateway.cpp do
  not. The code never checks for a full ring, so that a slot is left to spare is an assumption of the
  producer's first step.
\<close>

datatype producer = P_idle | P_written | P_advanced
datatype 'a consumer = C_idle | C_has 'a | C_used | C_advanced | C_checked | C_failed

record 'a threads =
  queue :: "'a LFQueue"
  ppc :: producer
  todo :: "'a list"
  cpc :: "'a consumer"
  got :: "'a list"

definition has_slot :: "'a LFQueue \<Rightarrow> bool" where
  "has_slot q \<longleftrightarrow> (next_write_index q + 1) mod ring_size q \<noteq> next_read_index q"

inductive spsc_step :: "bool \<Rightarrow> 'a threads \<Rightarrow> 'a threads \<Rightarrow> bool" for guarded :: bool where
  p_fill: "ppc s = P_idle \<Longrightarrow> todo s = x # xs \<Longrightarrow> has_slot (queue s) \<Longrightarrow>
     spsc_step guarded s (s\<lparr>queue := writeNext (queue s) x, ppc := P_written, todo := xs\<rparr>)"
| p_advance: "ppc s = P_written \<Longrightarrow>
     spsc_step guarded s (s\<lparr>queue := (queue s)\<lparr>next_write_index :=
       (next_write_index (queue s) + 1) mod ring_size (queue s)\<rparr>, ppc := P_advanced\<rparr>)"
| p_count: "ppc s = P_advanced \<Longrightarrow>
     spsc_step guarded s (s\<lparr>queue := (queue s)\<lparr>store_count := (store_count (queue s) + 1) mod 2 ^ 64\<rparr>, ppc := P_idle\<rparr>)"
| c_take: "cpc s = C_idle \<Longrightarrow> getNextToRead (queue s) = Some x \<Longrightarrow> spsc_step guarded s (s\<lparr>cpc := C_has x\<rparr>)"
| c_skip: "cpc s = C_has x \<Longrightarrow> guarded \<Longrightarrow> store_count (queue s) = 0 \<Longrightarrow> spsc_step guarded s (s\<lparr>cpc := C_idle\<rparr>)"
| c_process: "cpc s = C_has x \<Longrightarrow> guarded \<longrightarrow> store_count (queue s) \<noteq> 0 \<Longrightarrow>
     spsc_step guarded s (s\<lparr>got := got s @ [x], cpc := C_used\<rparr>)"
| c_advance: "cpc s = C_used \<Longrightarrow>
     spsc_step guarded s (s\<lparr>queue := (queue s)\<lparr>next_read_index :=
       (next_read_index (queue s) + 1) mod ring_size (queue s)\<rparr>, cpc := C_advanced\<rparr>)"
| c_check: "cpc s = C_advanced \<Longrightarrow> store_count (queue s) \<noteq> 0 \<Longrightarrow> spsc_step guarded s (s\<lparr>cpc := C_checked\<rparr>)"
| c_fail: "cpc s = C_advanced \<Longrightarrow> store_count (queue s) = 0 \<Longrightarrow> spsc_step guarded s (s\<lparr>cpc := C_failed\<rparr>)"
| c_count: "cpc s = C_checked \<Longrightarrow>
     spsc_step guarded s (s\<lparr>queue := (queue s)\<lparr>store_count := store_count (queue s) - 1\<rparr>, cpc := C_idle\<rparr>)"

definition spsc_start :: "nat \<Rightarrow> 'a \<Rightarrow> 'a list \<Rightarrow> 'a threads" where
  "spsc_start n T xs = \<lparr>queue = LFQueue_ctor n T, ppc = P_idle, todo = xs, cpc = C_idle, got = []\<rparr>"

definition spsc_reachable :: "bool \<Rightarrow> nat \<Rightarrow> 'a \<Rightarrow> 'a list \<Rightarrow> 'a threads \<Rightarrow> bool" where
  "spsc_reachable guarded n T xs s \<longleftrightarrow> (spsc_step guarded)\<^sup>*\<^sup>* (spsc_start n T xs) s"

section \<open>The invariant\<close>

text \<open>
  \<open>W\<close> elements have been published and \<open>R\<close> consumed, counted from the start; the indices are these
  numbers modulo the size.
\<close>

definition written :: "'a threads \<Rightarrow> nat" where
  "written s = (if ppc s = P_written then 1 else 0)"

definition uncounted :: "'a threads \<Rightarrow> nat" where
  "uncounted s = (if ppc s = P_advanced then 1 else 0)"

definition undone :: "'a threads \<Rightarrow> nat" where
  "undone s = (if cpc s = C_advanced \<or> cpc s = C_checked then 1 else 0)"

definition conc_inv :: "nat \<Rightarrow> 'a list \<Rightarrow> nat \<Rightarrow> nat \<Rightarrow> 'a threads \<Rightarrow> bool" where
  "conc_inv n xs W R s \<longleftrightarrow> 0 < n \<and> n < 2 ^ 64 \<and> ring_size (queue s) = n \<and>
     W + written s \<le> length xs \<and> todo s = drop (W + written s) xs \<and>
     R \<le> W \<and> W + written s < R + n \<and>
     next_write_index (queue s) = W mod n \<and> next_read_index (queue s) = R mod n \<and>
     (\<forall>i. R \<le> i \<and> i < W + written s \<longrightarrow> slots (queue s) (i mod n) = xs ! i) \<and>
     got s = take (R + (if cpc s = C_used then 1 else 0)) xs \<and>
     (\<forall>x. cpc s = C_has x \<longrightarrow> R < W \<and> x = xs ! R) \<and> (cpc s = C_used \<longrightarrow> R < W) \<and>
     store_count (queue s) + uncounted s = W - R + undone s \<and>
     (cpc s \<in> {C_used, C_advanced, C_checked} \<longrightarrow> 0 < store_count (queue s)) \<and> cpc s \<noteq> C_failed"

lemma conc_inv_start: "0 < n \<Longrightarrow> n < 2 ^ 64 \<Longrightarrow> conc_inv n xs 0 0 (spsc_start n T xs)"
  by (simp add: conc_inv_def spsc_start_def written_def uncounted_def undone_def LFQueue_ctor_def)

lemma mod_eq_near: "i mod n = j mod n \<Longrightarrow> i \<le> j \<Longrightarrow> j < i + n \<Longrightarrow> i = (j :: nat)"
  using mod_eq_dvd_iff_nat [of i j n] by (auto dest: dvd_imp_le)

lemma has_slot_room:
  assumes "conc_inv n xs W R s" and "ppc s = P_idle" and "has_slot (queue s)"
  shows "W + 1 < R + n"
proof (rule ccontr)
  assume "\<not> ?thesis"
  then have "W + 1 = R + n" using assms(1,2) by (simp add: conc_inv_def written_def)
  then have "(W + 1) mod n = R mod n" by simp
  moreover have "(W mod n + 1) mod n = (W + 1) mod n" by (simp add: mod_simps)
  ultimately show False using assms(1,3) by (simp add: conc_inv_def has_slot_def)
qed

lemma read_ready:
  assumes "conc_inv n xs W R s" and "getNextToRead (queue s) = Some x"
  shows "R < W \<and> x = xs ! R"
proof -
  have "R mod n \<noteq> W mod n" and x: "x = slots (queue s) (R mod n)"
    using assms by (auto simp: getNextToRead_def conc_inv_def split: if_splits)
  then have "R < W" using assms(1) by (cases "R = W") (auto simp: conc_inv_def)
  then show ?thesis using assms(1) x by (auto simp: conc_inv_def)
qed

lemmas conc_defs = conc_inv_def written_def uncounted_def undone_def

lemma inv_fill:
  assumes inv: "conc_inv n xs W R s" and "ppc s = P_idle" "todo s = x # ys" "has_slot (queue s)"
  shows "conc_inv n xs W R (s\<lparr>queue := writeNext (queue s) x, ppc := P_written, todo := ys\<rparr>)"
proof -
  have room: "W + 1 < R + n" by (rule has_slot_room [OF inv assms(2,4)])
  have x: "W < length xs" "x = xs ! W" "ys = drop (Suc W) xs"
  proof -
    have d: "drop W xs = x # ys" using inv assms(2,3) by (simp add: conc_defs)
    then have "drop W xs \<noteq> []" by simp
    then show "W < length xs" by simp
    then show "x = xs ! W" and "ys = drop (Suc W) xs" using d by (simp_all add: Cons_nth_drop_Suc [symmetric])
  qed
  have old: "i mod n \<noteq> W mod n" if "R \<le> i" "i < W" for i
    using mod_eq_near [of i n W] that room by auto
  show ?thesis
    using inv assms(2) room x old
    by (auto simp: conc_defs writeNext_def less_Suc_eq)
qed

lemma inv_advance:
  assumes inv: "conc_inv n xs W R s" and "ppc s = P_written"
  shows "conc_inv n xs (Suc W) R (s\<lparr>queue := (queue s)\<lparr>next_write_index :=
      (next_write_index (queue s) + 1) mod ring_size (queue s)\<rparr>, ppc := P_advanced\<rparr>)"
  using assms by (auto simp: conc_defs mod_simps Suc_diff_le)

lemma inv_count:
  assumes inv: "conc_inv n xs W R s" and "ppc s = P_advanced"
  shows "conc_inv n xs W R (s\<lparr>queue := (queue s)\<lparr>store_count := (store_count (queue s) + 1) mod 2 ^ 64\<rparr>, ppc := P_idle\<rparr>)"
proof -
  have "store_count (queue s) + 1 < 2 ^ 64" using assms by (auto simp: conc_defs split: if_splits)
  then show ?thesis using assms by (auto simp: conc_defs)
qed

lemma inv_process:
  assumes inv: "conc_inv n xs W R s" and "cpc s = C_has x" "store_count (queue s) \<noteq> 0"
  shows "conc_inv n xs W R (s\<lparr>got := got s @ [x], cpc := C_used\<rparr>)"
proof -
  have "R < W" "x = xs ! R" "W \<le> length xs" using inv assms(2) by (auto simp: conc_defs)
  then have "take (Suc R) xs = take R xs @ [x]" by (simp add: take_Suc_conv_app_nth)
  then show ?thesis using assms by (auto simp: conc_defs)
qed

lemma inv_consume:
  assumes inv: "conc_inv n xs W R s" and "cpc s = C_used"
  shows "conc_inv n xs W (Suc R) (s\<lparr>queue := (queue s)\<lparr>next_read_index :=
      (next_read_index (queue s) + 1) mod ring_size (queue s)\<rparr>, cpc := C_advanced\<rparr>)"
  using assms by (auto simp: conc_defs mod_simps)

lemma conc_inv_step:
  assumes "spsc_step True s s'" and inv: "conc_inv n xs W R s"
  shows "\<exists>W' R'. conc_inv n xs W' R' s'"
  using assms(1)
proof cases
  case (p_fill x ys)
  then show ?thesis using inv_fill [OF inv] by blast
next
  case p_advance
  then show ?thesis using inv_advance [OF inv] by blast
next
  case p_count
  then show ?thesis using inv_count [OF inv] by blast
next
  case (c_take x)
  have "conc_inv n xs W R s'"
    using inv c_take read_ready [OF inv c_take(3)] by (auto simp: conc_defs)
  then show ?thesis by blast
next
  case (c_skip x)
  then have "conc_inv n xs W R s'" using inv by (auto simp: conc_defs)
  then show ?thesis by blast
next
  case (c_process x)
  then show ?thesis using inv_process [OF inv] by blast
next
  case c_advance
  then show ?thesis using inv_consume [OF inv] by blast
next
  case c_check
  then have "conc_inv n xs W R s'" using inv by (auto simp: conc_defs)
  then show ?thesis by blast
next
  case c_fail
  then show ?thesis using inv by (auto simp: conc_defs)
next
  case c_count
  then have "conc_inv n xs W R s'" using inv by (auto simp: conc_defs)
  then show ?thesis by blast
qed

lemma conc_inv_reachable:
  assumes "spsc_reachable True n T xs s" and "0 < n" and "n < 2 ^ 64"
  shows "\<exists>W R. conc_inv n xs W R s"
  using assms(1) unfolding spsc_reachable_def
proof (induction rule: rtranclp_induct)
  case base
  show ?case by (intro exI) (rule conc_inv_start [OF assms(2,3)])
next
  case (step s s')
  then show ?case using conc_inv_step by blast
qed


text \<open>One whole push and one whole read of a queue, for the examples.\<close>

lemma reachable_start: "spsc_reachable guarded n T xs (spsc_start n T xs)"
  by (simp add: spsc_reachable_def)

lemma reachable_step: "spsc_reachable guarded n T xs s \<Longrightarrow> spsc_step guarded s s' \<Longrightarrow> spsc_reachable guarded n T xs s'"
  unfolding spsc_reachable_def by (rule rtranclp.rtrancl_into_rtrancl)


text \<open>
  The loops that do not test the counter can end the process on a correct use of the queue: the
  producer has advanced the index but not yet counted the element, the consumer processes it and
  finds the counter at zero. With the test this state cannot be reached.
\<close>

theorem spsc_unguarded_fails:
  "\<exists>s. spsc_reachable False 4 T [x] s \<and> cpc s = C_failed \<and> got s = [x] \<and> ppc s = P_advanced"
proof -
  let ?s0 = "spsc_start 4 T [x]"
  let ?s1 = "?s0\<lparr>queue := writeNext (queue ?s0) x, ppc := P_written, todo := []\<rparr>"
  let ?s2 = "?s1\<lparr>queue := (queue ?s1)\<lparr>next_write_index := 1\<rparr>, ppc := P_advanced\<rparr>"
  let ?s3 = "?s2\<lparr>cpc := C_has x\<rparr>"
  let ?s4 = "?s3\<lparr>got := got ?s3 @ [x], cpc := C_used\<rparr>"
  let ?s5 = "?s4\<lparr>queue := (queue ?s4)\<lparr>next_read_index := 1\<rparr>, cpc := C_advanced\<rparr>"
  let ?s6 = "?s5\<lparr>cpc := C_failed\<rparr>"
  note state = spsc_start_def LFQueue_ctor_def has_slot_def writeNext_def getNextToRead_def
  have s1: "spsc_step False ?s0 ?s1" by (rule spsc_step.p_fill) (simp_all add: state)
  have s2: "spsc_step False ?s1 ?s2" using spsc_step.p_advance [of ?s1 False] by (simp add: state)
  have s3: "spsc_step False ?s2 ?s3" by (rule spsc_step.c_take) (simp_all add: state)
  have s4: "spsc_step False ?s3 ?s4" by (rule spsc_step.c_process) (simp_all add: state)
  have s5: "spsc_step False ?s4 ?s5" using spsc_step.c_advance [of ?s4 False] by (simp add: state)
  have s6: "spsc_step False ?s5 ?s6" by (rule spsc_step.c_fail) (simp_all add: state)
  note run = reachable_step [OF reachable_step [OF reachable_step [OF reachable_step [OF reachable_step [OF reachable_step [OF reachable_start s1] s2] s3] s4] s5] s6]
  show ?thesis using run by (intro exI [of _ ?s6]) (simp add: spsc_start_def)
qed

end
