(* ===== verification/Threads.thy ===== *)
theory Threads
  imports Main
begin

text \<open>
  common/thread_utils.h: \<open>createAndStartThread\<close> as its two threads, the caller and the new one,
  whose steps interleave. Whether pinning the thread to its core succeeds is a parameter. The
  function to run is passed by reference to a temporary of the caller, which is gone once the
  caller has gone on.
\<close>

datatype caller = Waiting | Joining | Returned bool | Went_on bool
datatype starting = Starting | Pinned | Failing | Announced | Working | Ended

record spawn =
  caller :: caller
  worker :: starting
  is_running :: bool
  has_failed :: bool
  used_dead_function :: bool

fun gone :: "caller \<Rightarrow> bool" where
  "gone (Went_on _) = True"
| "gone _ = False"

inductive spawn_step :: "int \<Rightarrow> bool \<Rightarrow> spawn \<Rightarrow> spawn \<Rightarrow> bool" for core_id :: int and pinned :: bool where
  w_unpinned: "worker s = Starting \<Longrightarrow> 0 \<le> core_id \<Longrightarrow> \<not> pinned \<Longrightarrow>
     spawn_step core_id pinned s (s\<lparr>has_failed := True, worker := Failing\<rparr>)"
| w_exit: "worker s = Failing \<Longrightarrow> spawn_step core_id pinned s (s\<lparr>worker := Ended\<rparr>)"
| w_pinned: "worker s = Starting \<Longrightarrow> core_id < 0 \<or> pinned \<Longrightarrow>
     spawn_step core_id pinned s (s\<lparr>worker := Pinned\<rparr>)"
| w_announce: "worker s = Pinned \<Longrightarrow>
     spawn_step core_id pinned s (s\<lparr>is_running := True, worker := Announced\<rparr>)"
| w_call: "worker s = Announced \<Longrightarrow> spawn_step core_id pinned s
     (s\<lparr>worker := Working, used_dead_function := gone (caller s)\<rparr>)"
| w_done: "worker s = Working \<Longrightarrow> spawn_step core_id pinned s (s\<lparr>worker := Ended\<rparr>)"
| c_failed: "caller s = Waiting \<Longrightarrow> has_failed s \<Longrightarrow> spawn_step core_id pinned s (s\<lparr>caller := Joining\<rparr>)"
| c_started: "caller s = Waiting \<Longrightarrow> is_running s \<Longrightarrow> \<not> has_failed s \<Longrightarrow>
     spawn_step core_id pinned s (s\<lparr>caller := Returned True\<rparr>)"
| c_joined: "caller s = Joining \<Longrightarrow> worker s = Ended \<Longrightarrow> spawn_step core_id pinned s (s\<lparr>caller := Returned False\<rparr>)"
| c_goes_on: "caller s = Returned p \<Longrightarrow> spawn_step core_id pinned s (s\<lparr>caller := Went_on p\<rparr>)"

definition spawn_start :: spawn where
  "spawn_start = \<lparr>caller = Waiting, worker = Starting, is_running = False, has_failed = False,
     used_dead_function = False\<rparr>"

definition spawn_reachable :: "int \<Rightarrow> bool \<Rightarrow> spawn \<Rightarrow> bool" where
  "spawn_reachable core_id pinned s \<longleftrightarrow> (spawn_step core_id pinned)\<^sup>*\<^sup>* spawn_start s"

text \<open>What each position of the two threads implies.\<close>

definition pin_ok :: "int \<Rightarrow> bool \<Rightarrow> bool" where
  "pin_ok core_id pinned \<longleftrightarrow> core_id < 0 \<or> pinned"

fun worker_ok :: "bool \<Rightarrow> starting \<Rightarrow> bool \<Rightarrow> bool \<Rightarrow> bool" where
  "worker_ok ok Starting running failed = (\<not> running \<and> \<not> failed)"
| "worker_ok ok Pinned running failed = (ok \<and> \<not> running \<and> \<not> failed)"
| "worker_ok ok Failing running failed = (\<not> ok \<and> \<not> running \<and> failed)"
| "worker_ok ok Ended running failed = (running = ok \<and> failed = (\<not> ok))"
| "worker_ok ok _ running failed = (ok \<and> running \<and> \<not> failed)"

fun caller_ok :: "bool \<Rightarrow> caller \<Rightarrow> starting \<Rightarrow> bool \<Rightarrow> bool \<Rightarrow> bool" where
  "caller_ok ok Waiting w running failed = True"
| "caller_ok ok Joining w running failed = failed"
| "caller_ok ok (Returned p) w running failed = (p = ok \<and> (if p then running else w = Ended \<and> failed))"
| "caller_ok ok (Went_on p) w running failed = (p = ok \<and> (if p then running else w = Ended \<and> failed))"

definition spawn_inv :: "int \<Rightarrow> bool \<Rightarrow> spawn \<Rightarrow> bool" where
  "spawn_inv core_id pinned s \<longleftrightarrow>
     worker_ok (pin_ok core_id pinned) (worker s) (is_running s) (has_failed s) \<and>
     caller_ok (pin_ok core_id pinned) (caller s) (worker s) (is_running s) (has_failed s)"

lemma worker_running: "worker_ok ok w running failed \<Longrightarrow> running \<Longrightarrow> ok"
  and worker_failed: "worker_ok ok w running failed \<Longrightarrow> failed \<Longrightarrow> \<not> ok"
  and worker_failed_not_running: "worker_ok ok w running failed \<Longrightarrow> failed \<Longrightarrow> \<not> running"
  by (cases w; simp)+

lemma spawn_inv_step:
  assumes "spawn_step core_id pinned s s'" and inv: "spawn_inv core_id pinned s"
  shows "spawn_inv core_id pinned s'"
  using assms(1)
proof cases
  case w_unpinned
  then show ?thesis using inv by (cases "caller s") (simp_all add: spawn_inv_def pin_ok_def split: if_splits)
next
  case w_exit
  then show ?thesis using inv by (cases "caller s") (simp_all add: spawn_inv_def split: if_splits)
next
  case w_pinned
  then show ?thesis using inv by (cases "caller s") (auto simp: spawn_inv_def pin_ok_def split: if_splits)
next
  case w_announce
  then show ?thesis using inv by (cases "caller s") (simp_all add: spawn_inv_def split: if_splits)
next
  case w_call
  then show ?thesis using inv by (cases "caller s") (simp_all add: spawn_inv_def split: if_splits)
next
  case w_done
  then show ?thesis using inv by (cases "caller s") (simp_all add: spawn_inv_def split: if_splits)
next
  case c_failed
  then show ?thesis using inv by (simp add: spawn_inv_def)
next
  case c_started
  then show ?thesis using inv worker_running by (auto simp: spawn_inv_def)
next
  case c_joined
  then show ?thesis using inv by (auto simp: spawn_inv_def)
next
  case (c_goes_on p)
  then show ?thesis using inv by (simp add: spawn_inv_def)
qed

lemma spawn_inv_reachable:
  assumes "spawn_reachable core_id pinned s"
  shows "spawn_inv core_id pinned s"
  using assms unfolding spawn_reachable_def
proof (induction rule: rtranclp_induct)
  case base
  show ?case by (simp add: spawn_inv_def spawn_start_def)
next
  case (step s s')
  then show ?case using spawn_inv_step by blast
qed

text \<open>
  In every interleaving, the caller gets a null pointer exactly when the thread was to be pinned
  and could not be, and then the function is never called; with a thread it is told only after
  the thread has announced itself.
\<close>

theorem thread_start_result:
  assumes "spawn_reachable core_id pinned s" and "caller s = Went_on p"
  shows "p = (core_id < 0 \<or> pinned) \<and> (if p then is_running s else worker s = Ended \<and> \<not> is_running s)"
proof -
  have inv: "spawn_inv core_id pinned s" by (rule spawn_inv_reachable [OF assms(1)])
  then have "\<not> p \<longrightarrow> \<not> is_running s"
    using assms(2) worker_failed_not_running by (simp add: spawn_inv_def) metis
  then show ?thesis using inv assms(2) by (cases p) (simp_all add: spawn_inv_def pin_ok_def split: if_splits)
qed

lemma spawn_reachable_step:
  "spawn_reachable core_id pinned s \<Longrightarrow> spawn_step core_id pinned s s' \<Longrightarrow> spawn_reachable core_id pinned s'"
  unfolding spawn_reachable_def by (rule rtranclp.rtrancl_into_rtrancl)

lemma spawn_reachable_start: "spawn_reachable core_id pinned spawn_start"
  by (simp add: spawn_reachable_def)

text \<open>
  The announcement comes too early: a caller that goes on before the thread has called its
  function destroys the function the thread then calls.
\<close>

theorem thread_calls_dead_function:
  "\<exists>s. spawn_reachable (- 1) pinned s \<and> used_dead_function s \<and> caller s = Went_on True"
proof -
  let ?s1 = "spawn_start\<lparr>worker := Pinned\<rparr>"
  let ?s2 = "?s1\<lparr>is_running := True, worker := Announced\<rparr>"
  let ?s3 = "?s2\<lparr>caller := Returned True\<rparr>"
  let ?s4 = "?s3\<lparr>caller := Went_on True\<rparr>"
  let ?s5 = "?s4\<lparr>worker := Working, used_dead_function := True\<rparr>"
  have s1: "spawn_step (- 1) pinned spawn_start ?s1" by (rule w_pinned) (simp_all add: spawn_start_def)
  have s2: "spawn_step (- 1) pinned ?s1 ?s2" by (rule w_announce) simp
  have s3: "spawn_step (- 1) pinned ?s2 ?s3" by (rule c_started) (simp_all add: spawn_start_def)
  have s4: "spawn_step (- 1) pinned ?s3 ?s4" by (rule c_goes_on) simp
  have s5: "spawn_step (- 1) pinned ?s4 ?s5" using w_call [of ?s4 "- 1" pinned] by simp
  note run = spawn_reachable_step [OF spawn_reachable_step [OF spawn_reachable_step [OF spawn_reachable_step
        [OF spawn_reachable_step [OF spawn_reachable_start s1] s2] s3] s4] s5]
  show ?thesis using run by (intro exI [of _ ?s5]) simp
qed

theorem thread_start_result_witness:
  "\<exists>s. spawn_reachable 3 False s \<and> caller s = Went_on False \<and> \<not> is_running s"
proof -
  let ?s1 = "spawn_start\<lparr>has_failed := True, worker := Failing\<rparr>"
  let ?s2 = "?s1\<lparr>worker := Ended\<rparr>"
  let ?s3 = "?s2\<lparr>caller := Joining\<rparr>"
  let ?s4 = "?s3\<lparr>caller := Returned False\<rparr>"
  let ?s5 = "?s4\<lparr>caller := Went_on False\<rparr>"
  have s1: "spawn_step 3 False spawn_start ?s1" by (rule w_unpinned) (simp_all add: spawn_start_def)
  have s2: "spawn_step 3 False ?s1 ?s2" by (rule w_exit) simp
  have s3: "spawn_step 3 False ?s2 ?s3" by (rule c_failed) (simp_all add: spawn_start_def)
  have s4: "spawn_step 3 False ?s3 ?s4" by (rule c_joined) simp_all
  have s5: "spawn_step 3 False ?s4 ?s5" by (rule c_goes_on) simp
  note run = spawn_reachable_step [OF spawn_reachable_step [OF spawn_reachable_step [OF spawn_reachable_step
        [OF spawn_reachable_step [OF spawn_reachable_start s1] s2] s3] s4] s5]
  have "caller ?s5 = Went_on False" by simp
  with thread_start_result [OF run this] show ?thesis using run by (intro exI [of _ ?s5]) simp
qed

end
