(* ===== verification/Spec2Isabelle.thy ===== *)
theory Spec2Isabelle
  imports Shutdown Endurance Admission BookMirror
    OrderManager RiskManager FeatureEngine LFQueueConc Logging Threads
begin

text \<open>
  A small electronic trading ecosystem in C++: an exchange (src/exchange) that takes orders over
  TCP, matches them and publishes market data over UDP multicast, the client side of it
  (src/trading_system), and the low latency components both are built from (src/common). The
  theories model the program as it is written, faults included: an operation returns a value of
  \<open>'a res\<close>, that is, a fault (a failed \<open>ASSERT\<close>, a call of \<open>FATAL\<close>, a null dereference, an access out
  of range, a signed overflow, a loop that never ends) or its result. Integers keep their width,
  pointers into a pool are \<open>nat option\<close>, and the objects a pool holds are the pool's own store, so
  aliasing is as in the program.

  The path of an order. The trading engine queues a request for the gateway (OrderGateway), which
  numbers it and writes it to its socket (TCPSocket); the exchange's server polls its sockets
  (TCPServer), takes the bytes apart, checks the number and the connection (OrderServer), and puts
  the requests of one poll into the order of their receive times (FIFOSequencer) and into a ring
  buffer (LFQueue). The matching engine's thread takes them from there (MatchingEngine), one book
  for each instrument (MEOrderBook), and queues a response for the server and an update for the
  publisher (MarketDataPublisher), which numbers and multicasts it (MulticastSocket); the lines that
  would pass it to the snapshot synthesizer (SnapshotSynthesizer) are commented out. On the client's side the updates reach the
  consumer (MarketDataConsumer), which detects gaps and recovers, the client's book
  (MarketOrderBook), the features computed from it (FeatureEngine), and the order manager
  (OrderManager) with positions (PositionInfo) and risk limits (RiskManager).

  Theories, with the files under src/ they model:
  \<^item> Prelude: faults and their monad, loops that may not end, arrays, circular lists.
  \<^item> CommonTypes: common/common_types.h, constraints.h, macros.h, the units of time_utils.h.
  \<^item> MemPool: common/mem_pool.h. LFQueue, LFQueueConc: common/lf_queue.h, call by call and as two
    interleaved threads.
  \<^item> Messages, Wire: the packed structs of client_request.h, client_response.h and market_update.h,
    how they print, and their bytes.
  \<^item> MEOrder, MEOrderBook: me_order.h, me_order.cpp, me_order_book.h, me_order_book.cpp. MEBookInv has
    the representation invariant (every index of the ladder holds a circular list in time order),
    MEBookSpec an abstract book of queues, MEBookRefine the proof that the book implements it.
  \<^item> MatchingEngine: matching_engine.h, matching_engine.cpp; EngineProps: what follows for the engine.
  \<^item> FIFOSequencer: fifo_sequencer.h. OrderServer: order_server.h, order_server.cpp.
  \<^item> SocketUtils: common/socket_utils.h and .cpp. TCPSocket: common/tcp_socket.h and .cpp. TCPServer:
    common/tcp_server.h and .cpp. MulticastSocket: common/multicast_socket.h and .cpp.
  \<^item> Logging: common/logging.h, the time stamp of time_utils.h. Threads: common/thread_utils.h.
  \<^item> MarketDataPublisher, SnapshotSynthesizer: exchange/market_data.
  \<^item> OrderedMap: \<open>std::map\<close> as a sorted association list; MarketDataConsumer: trading_system/market_data.
  \<^item> MarketOrder, MarketOrderBook: market_order.h, market_order.cpp, market_order_book.h,
    market_order_book.cpp; MarketBookProps: what reachable books hold.
  \<^item> OrderGateway: trading_system/order_gw. OrderManager, PositionInfo, RiskManager, FeatureEngine:
    the files of these names under trading_system/strategy.
  \<^item> Exchange: src/exchange_main.cpp, and the turns its threads take.
  \<^item> Interleaving: the turns as a labelled step relation; what holds of every schedule of the threads.
  \<^item> Endurance: the budget of orders and levels within which the engine cannot fail. Admission: what the
    order server lets through, whatever is sent to it.
  \<^item> BookMirror: the client's book beside the exchange's, for the same updates.
  \<^item> Lifecycle: the start and stop functions of the threads. Shutdown: the destructors, each beside
    the thread of its object, and the signal handler.
  \<^item> Spec2Isabelle, this theory: what the components do together.

  What the lemmas show. The matching engine refines an abstract engine on queues, with the exact
  condition under which it survives a request; time priority is an invariant of every reachable
  engine; and since the heads of the two sides are never stored, it never fills an order. One turn of each of
  the exchange's threads has the abstract engine's effect on the bytes a client sends, and in every
  run, whatever the order of the turns and their input, nothing the server hands over is lost,
  repeated or reordered on its way through engine and publisher, every datagram is a numbered stretch
  of the updates, every answer has a socket, and, within the budget of the
  engine's pools, every request is answered, once and in order; and whoever decodes those updates
  and builds an instrument's book from them has the orders that rest in the engine's book, in its
  order, besides cancelled ones. What a client sends in one packet may be processed in any order,
  but no message of it is taken twice. The
  ring buffer is a correct queue for one producer and one consumer that tests the counter, and
  not without the test. The pool never reuses a block. The server and the synthesizer do what they
  promise on well-formed input, with the conditions spelled out. The logger is type safe and its
  formatter equals a reference; sockets and threads are opened as the lemmas say,
  failures included, and the sending loop of a socket returns exactly when stated. No destructor waits for its thread, and what follows
  is shown for each component that has one. Much of the client does not work
  yet, and the theorems say how: no response and no market data ever reaches it.

  Bounds and fuel. No fuel is used. A loop whose end is not certain is \<open>loopR\<close>, whose value is the
  fault \<open>Diverges\<close> when it is never left; everything else is structural recursion or recursion with
  a measure. A thread's \<open>run\<close> is modelled by one round of its loop, and the engine's by any number of
  rounds, since other threads end it. Arrays have the sizes of constraints.h.

  Parameters, since their code is not under src/: the kernel's sockets, epoll, clock and
  \<open>getaddrinfo\<close> (functions or results an operation takes), \<open>std::sort\<close> (locale \<open>std_sort\<close>, with the
  laws of the standard), and the arithmetic of \<open>double\<close> (record \<open>arith\<close>; some theorems take exact
  rationals for it). \<open>sizeof\<close> and byte order are those of x86-64.

  Not modelled: the main program's endless sleep, how long a sleep lasts, when memory is given back (the
  destructors of sockets, pools and queues), the text of the
  logged messages, the default callbacks that only log, \<open>setThreadCore\<close> (its result is a parameter), the benchmarks and the tests, of which one is a lemma of Messages. The trading
  engine class that owns the client's components is not part of the repository.
\<close>

section \<open>Orders: client to exchange\<close>

lemma sequenced_queue:
  assumes srt: "std_sort srt" and inv: "lfq_inv (sq_incoming_requests f)"
    and room: "store_count (sq_incoming_requests f) + length (pending_client_requests f) <
      ring_size (sq_incoming_requests f)"
  shows "mset (lfq_list (sq_incoming_requests (sequenceAndPublish srt f))) =
    mset (lfq_list (sq_incoming_requests f)) + mset (map recv_request (pending_client_requests f))"
proof -
  let ?rs = "map recv_request (srt (pending_client_requests f))"
  have len: "length ?rs = length (pending_client_requests f)" by (simp add: std_sort.sort_length [OF srt])
  have "mset ?rs = mset (map recv_request (pending_client_requests f))"
    by (simp add: std_sort.sort_mset [OF srt])
  then show ?thesis
    using lfq_push_all_list [OF inv, of ?rs] room len
    by (simp add: sequenceAndPublish_def del: length_map)
qed

text \<open>
  C7. A client's requests arrive: what the client's gateway sends for the requests in its queue is, byte for
  byte, what the order server takes apart, accepts and hands to the matching engine, all of them
  and each once, provided the two ends agree on the next number, the connection is the client's and
  there is room on the way. The order among them is up to the sort, as one read gives them one time.
\<close>

theorem requests_reach_engine:
  assumes srt: "std_sort srt"
    and client: "from_client c rs" "rs \<noteq> []" "lfq_inv (gw_outgoing_requests g)"
      "lfq_list (gw_outgoing_requests g) = rs" "send_data sock = []"
    and room: "length rs * sizeof_OMClientRequest \<le> TCPBufferSize" "length rs \<le> ME_MAX_PENDING_REQUESTS"
    and server: "clientId_socket s c \<in> {None, Some socket}"
      "clientId_outgoing_seqNum s c = next_outgoing_seq_num g"
      "pending_client_requests (fifo_sequencer s) = []" "lfq_inv (sq_incoming_requests (fifo_sequencer s))"
      "store_count (sq_incoming_requests (fifo_sequencer s)) + length rs <
        ring_size (sq_incoming_requests (fifo_sequencer s))"
  shows "\<exists>sock' g' srv' s'. gw_send_requests (sock, g) = Inr (sock', g') \<and>
    recvCallback socket t (TCPSocket_ctor\<lparr>rcv_data := send_data sock'\<rparr>) s = Inr (srv', s') \<and>
    rcv_data srv' = [] \<and>
    mset (lfq_list (sq_incoming_requests (fifo_sequencer (recvFinishedCallback srt s')))) =
      mset (lfq_list (sq_incoming_requests (fifo_sequencer s))) + mset rs"
proof -
  let ?ms = "numbered (clientId_outgoing_seqNum s c) rs"
  let ?sock = "sock\<lparr>send_data := concat (map encode_OMClientRequest ?ms)\<rparr>"
  let ?srv = "TCPSocket_ctor\<lparr>rcv_data := concat (map encode_OMClientRequest ?ms)\<rparr>"
  have buffer: "length (send_data sock) + length (lfq_list (gw_outgoing_requests g)) *
      sizeof_OMClientRequest \<le> TCPBufferSize" unfolding client(4,5) using room(1) by simp
  obtain g' where gw: "gw_send_requests (sock, g) = Inr (?sock, g')"
    using gw_send_requests_eq [OF client(3) buffer] unfolding client(4,5) server(2) by simp
  have "length (pending_client_requests (fifo_sequencer s)) + length rs \<le> ME_MAX_PENDING_REQUESTS"
    using room(2) server(3) by simp
  then have srv: "recvCallback socket t ?srv s = Inr (?srv\<lparr>rcv_data := []\<rparr>, taken socket t c rs s)"
    using recvCallback_stream [OF client(1,2) server(1), of ?srv t] by simp
  let ?f = "fifo_sequencer (taken socket t c rs s)"
  have f: "pending_client_requests ?f = map (RecvTimeClientRequest t) rs"
    "sq_incoming_requests ?f = sq_incoming_requests (fifo_sequencer s)"
    using server(3) by (simp_all add: taken_def)
  have "mset (lfq_list (sq_incoming_requests (sequenceAndPublish srt ?f))) =
      mset (lfq_list (sq_incoming_requests (fifo_sequencer s))) + mset rs"
    using sequenced_queue [OF srt, of ?f] server(4,5) unfolding f by (simp add: comp_def)
  then show ?thesis using gw srv by (simp add: recvFinishedCallback_def)
qed

theorem requests_reach_engine_witness:
  "\<exists>sock' g' srv' s'. gw_send_requests (TCPSocket_ctor, demo_gateway\<lparr>gw_outgoing_requests :=
      lfq_push (gw_outgoing_requests demo_gateway) (MEClientRequest_default\<lparr>rq_clientId := 4\<rparr>)\<rparr>) = Inr (sock', g') \<and>
    recvCallback 5 7 (TCPSocket_ctor\<lparr>rcv_data := send_data sock'\<rparr>) demo_server = Inr (srv', s') \<and>
    mset (lfq_list (sq_incoming_requests (fifo_sequencer (recvFinishedCallback (sort_key recv_time) s')))) =
      {# MEClientRequest_default\<lparr>rq_clientId := 4\<rparr> #}"
proof -
  let ?r = "MEClientRequest_default\<lparr>rq_clientId := 4\<rparr>" and ?q = "LFQueue_ctor 8 MEClientRequest_default"
  let ?g = "demo_gateway\<lparr>gw_outgoing_requests := lfq_push (gw_outgoing_requests demo_gateway) ?r\<rparr>"
  have g: "gw_outgoing_requests ?g = lfq_push ?q ?r" "next_outgoing_seq_num ?g = 1"
    by (simp_all add: demo_gateway_def OrderGateway_ctor_def)
  have q: "lfq_inv (lfq_push ?q ?r)" "lfq_list (lfq_push ?q ?r) = [?r]"
    using lfq_push_list [of ?q ?r] by simp_all
  have client: "from_client 4 [?r]"
    by (simp add: from_client_def limit_defs MEClientRequest_default_def request_canonical_def)
  have empty: "send_data TCPSocket_ctor = []" by (simp add: TCPSocket_ctor_def)
  have srv: "clientId_socket demo_server 4 = None" "clientId_outgoing_seqNum demo_server 4 = 1"
    "pending_client_requests (fifo_sequencer demo_server) = []"
    "sq_incoming_requests (fifo_sequencer demo_server) = ?q"
    by (simp_all add: demo_server_def OrderServer_ctor_def FIFOSequencer_ctor_def)
  have "\<exists>sock' g' srv' s'. gw_send_requests (TCPSocket_ctor, ?g) = Inr (sock', g') \<and>
    recvCallback 5 7 (TCPSocket_ctor\<lparr>rcv_data := send_data sock'\<rparr>) demo_server = Inr (srv', s') \<and>
    rcv_data srv' = [] \<and>
    mset (lfq_list (sq_incoming_requests (fifo_sequencer (recvFinishedCallback (sort_key recv_time) s')))) =
      mset (lfq_list (sq_incoming_requests (fifo_sequencer demo_server))) + mset [?r]"
    by (rule requests_reach_engine [OF stable.std_sort_axioms client])
      (use q in \<open>simp_all add: g srv empty sizeof_defs TCPBufferSize_def ME_MAX_PENDING_REQUESTS_def\<close>)
  then show ?thesis by (auto simp: srv)
qed

section \<open>Order and cancel in one packet\<close>

text \<open>What the sequencer makes of one read by the two sorts, each of which keeps the promise of the standard.\<close>

lemma backwards_sort: "std_sort (\<lambda>xs. sort_key recv_time (rev xs))"
  by unfold_locales (simp_all add: sort_key_ordered)

lemma one_read_sequenced:
  assumes "pending_client_requests (fifo_sequencer s) = map (RecvTimeClientRequest t) rs" and "rs \<noteq> []"
    and "lfq_inv (sq_incoming_requests (fifo_sequencer s))" and "lfq_list (sq_incoming_requests (fifo_sequencer s)) = []"
    and "store_count (sq_incoming_requests (fifo_sequencer s)) + length rs < ring_size (sq_incoming_requests (fifo_sequencer s))"
  shows "lfq_list (sq_incoming_requests (fifo_sequencer (recvFinishedCallback (sort_key recv_time) s))) = rs"
    and "lfq_list (sq_incoming_requests (fifo_sequencer
      (recvFinishedCallback (\<lambda>xs. sort_key recv_time (rev xs)) s))) = rev rs"
proof -
  let ?f = "fifo_sequencer s"
  have same: "sort_key recv_time (map (RecvTimeClientRequest t) xs) = map (RecvTimeClientRequest t) xs" for xs
    by (rule sort_key_id_if_sorted) (simp add: comp_def sorted_wrt_iff_nth_less)
  have untimed: "map recv_request (map (RecvTimeClientRequest t) xs) = xs" for xs by (simp add: comp_def)
  have pushed: "sq_incoming_requests (fifo_sequencer (recvFinishedCallback srt s)) =
      lfq_push_all (sq_incoming_requests ?f) (map recv_request (srt (map (RecvTimeClientRequest t) rs)))" for srt
    using assms(1,2) by (simp add: recvFinishedCallback_def sequenceAndPublish_def)
  show "lfq_list (sq_incoming_requests (fifo_sequencer (recvFinishedCallback (sort_key recv_time) s))) = rs"
    using lfq_push_all_list [OF assms(3,5)] assms(4) unfolding pushed same untimed by simp
  have "store_count (sq_incoming_requests ?f) + length (rev rs) < ring_size (sq_incoming_requests ?f)" using assms(5) by simp
  from lfq_push_all_list [OF assms(3) this] show "lfq_list (sq_incoming_requests (fifo_sequencer
      (recvFinishedCallback (\<lambda>xs. sort_key recv_time (rev xs)) s))) = rev rs"
    using assms(4) unfolding pushed rev_map same untimed by simp
qed

text \<open>An order and its cancel on a new engine, in both orders.\<close>

lemma spec_order_then_cancel:
  assumes "rq_requestType r = Request_NEW" and "rq_qty r \<noteq> 0" and "unat (rq_clientId r) < ME_MAX_NUM_CLIENTS"
    and "unat (rq_orderId r) < ME_MAX_ORDER_IDS" and "unat (rq_tickerId r) < ME_MAX_TICKERS"
  shows "\<exists>B ps us. spec_requests [r, r\<lparr>rq_requestType := Request_CANCEL\<rparr>] (abs_engine (MatchingEngine_ctor q io)) =
      Inr (B, ps, us) \<and> map rs_type ps = [ACCEPTED, CANCELED] \<and>
      sp_queue (B (unat (rq_tickerId r))) (priceToIndex (rq_price r)) = []"
    and "\<exists>B ps us. spec_requests [r\<lparr>rq_requestType := Request_CANCEL\<rparr>, r] (abs_engine (MatchingEngine_ctor q io)) =
      Inr (B, ps, us) \<and> map rs_type ps = [CANCEL_REJECTED, ACCEPTED] \<and>
      sp_queue (B (unat (rq_tickerId r))) (priceToIndex (rq_price r)) = [0]"
proof -
  have limits: "Suc 0 < ME_MAX_ORDER_IDS" "Suc 0 < ME_MAX_PRICE_LEVELS" by (simp_all add: limit_defs)
  show "\<exists>B ps us. spec_requests [r, r\<lparr>rq_requestType := Request_CANCEL\<rparr>] (abs_engine (MatchingEngine_ctor q io)) =
      Inr (B, ps, us) \<and> map rs_type ps = [ACCEPTED, CANCELED] \<and>
      sp_queue (B (unat (rq_tickerId r))) (priceToIndex (rq_price r)) = []"
    using assms limits by (simp add: abs_engine_ctor spec_defs accepted_response_def canceled_response_def)
  show "\<exists>B ps us. spec_requests [r\<lparr>rq_requestType := Request_CANCEL\<rparr>, r] (abs_engine (MatchingEngine_ctor q io)) =
      Inr (B, ps, us) \<and> map rs_type ps = [CANCEL_REJECTED, ACCEPTED] \<and>
      sp_queue (B (unat (rq_tickerId r))) (priceToIndex (rq_price r)) = [0]"
    using assms limits by (simp add: abs_engine_ctor spec_defs accepted_response_def rejected_response_def)
qed

text \<open>The engine the requests are given to, and what it has answered and holds.\<close>

lemma engine_of_spec:
  assumes "spec_requests rqs (abs_engine (MatchingEngine_ctor q io)) = Inr (B, ps, us)"
  shows "\<exists>e. foldR processClientRequest rqs (MatchingEngine_ctor q io) = Inr e \<and> engine_io e = io_after io ps us \<and>
    (\<forall>t i. resting (ticker_order_book e t) i = sp_queue (B t) i)"
proof -
  obtain e where "foldR processClientRequest rqs (MatchingEngine_ctor q io) = Inr e" and B: "abs_engine e = B"
    and "engine_io e = io_after (engine_io (MatchingEngine_ctor q io)) ps us"
    using requests_implement [OF engine_inv_ctor [of q io], of rqs] assms by (auto simp: engine_implements_def)
  moreover have "engine_io (MatchingEngine_ctor q io) = io" by (simp add: MatchingEngine_ctor_def)
  moreover have "resting (ticker_order_book e t) i = sp_queue (B t) i" for t i using B by (auto simp: abs_engine_def)
  ultimately show ?thesis by auto
qed

text \<open>
  C21. A cancel can overtake its order: when a client sends an order and its cancel and the server reads
  both at once, they carry one receive time, and what \<open>std::sort\<close> promises leaves their order open.
  With one sorting routine a new engine accepts and cancels the order; with another it rejects the cancel and
  then accepts the order, which rests in the book though its client has cancelled it.
\<close>

theorem cancel_may_overtake_order:
  assumes r: "rq_requestType r = Request_NEW" "rq_qty r \<noteq> 0" "unat (rq_orderId r) < ME_MAX_ORDER_IDS"
      "unat (rq_tickerId r) < ME_MAX_TICKERS" and c: "from_client c [r, r\<lparr>rq_requestType := Request_CANCEL\<rparr>]"
    and packet: "rcv_data sock = concat (map encode_OMClientRequest
      (numbered (clientId_outgoing_seqNum s c) [r, r\<lparr>rq_requestType := Request_CANCEL\<rparr>]))"
    and server: "clientId_socket s c \<in> {None, Some socket}" "pending_client_requests (fifo_sequencer s) = []"
      "lfq_inv (sq_incoming_requests (fifo_sequencer s))" "lfq_list (sq_incoming_requests (fifo_sequencer s)) = []"
      "store_count (sq_incoming_requests (fifo_sequencer s)) + 2 < ring_size (sq_incoming_requests (fifo_sequencer s))"
  shows "\<exists>sock' s'. recvCallback socket t sock s = Inr (sock', s') \<and>
    (\<exists>srt e ps us. std_sort srt \<and> foldR processClientRequest
        (lfq_list (sq_incoming_requests (fifo_sequencer (recvFinishedCallback srt s')))) (MatchingEngine_ctor q io) = Inr e \<and>
      engine_io e = io_after io ps us \<and> map rs_type ps = [ACCEPTED, CANCELED] \<and>
      resting (ticker_order_book e (unat (rq_tickerId r))) (priceToIndex (rq_price r)) = []) \<and>
    (\<exists>srt e ps us. std_sort srt \<and> foldR processClientRequest
        (lfq_list (sq_incoming_requests (fifo_sequencer (recvFinishedCallback srt s')))) (MatchingEngine_ctor q io) = Inr e \<and>
      engine_io e = io_after io ps us \<and> map rs_type ps = [CANCEL_REJECTED, ACCEPTED] \<and>
      resting (ticker_order_book e (unat (rq_tickerId r))) (priceToIndex (rq_price r)) = [0])"
proof -
  let ?rs = "[r, r\<lparr>rq_requestType := Request_CANCEL\<rparr>]"
  let ?s = "taken socket t c ?rs s"
  have read: "recvCallback socket t sock s = Inr (sock\<lparr>rcv_data := []\<rparr>, ?s)"
    using recvCallback_stream [OF c _ server(1) packet] server(2) by (simp add: ME_MAX_PENDING_REQUESTS_def)
  have s: "pending_client_requests (fifo_sequencer ?s) = map (RecvTimeClientRequest t) ?rs"
    "sq_incoming_requests (fifo_sequencer ?s) = sq_incoming_requests (fifo_sequencer s)"
    using server(2) by (simp_all add: taken_def)
  have orders: "lfq_list (sq_incoming_requests (fifo_sequencer (recvFinishedCallback (sort_key recv_time) ?s))) = ?rs"
    "lfq_list (sq_incoming_requests (fifo_sequencer
      (recvFinishedCallback (\<lambda>xs. sort_key recv_time (rev xs)) ?s))) = rev ?rs"
    by (rule one_read_sequenced [OF s(1)]; use server(3-5) s(2) in simp)+
  have client: "unat (rq_clientId r) < ME_MAX_NUM_CLIENTS" using c by (simp add: from_client_def)
  note spec = spec_order_then_cancel [OF r(1,2) client r(3,4), of q io]
  obtain e ps us where fair: "foldR processClientRequest ?rs (MatchingEngine_ctor q io) = Inr e" "engine_io e = io_after io ps us"
      "map rs_type ps = [ACCEPTED, CANCELED]"
      "resting (ticker_order_book e (unat (rq_tickerId r))) (priceToIndex (rq_price r)) = []"
    using spec(1) engine_of_spec by metis
  obtain e' ps' us' where unfair: "foldR processClientRequest (rev ?rs) (MatchingEngine_ctor q io) = Inr e'"
      "engine_io e' = io_after io ps' us'" "map rs_type ps' = [CANCEL_REJECTED, ACCEPTED]"
      "resting (ticker_order_book e' (unat (rq_tickerId r))) (priceToIndex (rq_price r)) = [0]"
    using spec(2) engine_of_spec unfolding rev.simps append.simps by metis
  let ?outcome = "\<lambda>srt types queue. \<exists>e ps us. std_sort srt \<and> foldR processClientRequest
      (lfq_list (sq_incoming_requests (fifo_sequencer (recvFinishedCallback srt ?s)))) (MatchingEngine_ctor q io) = Inr e \<and>
    engine_io e = io_after io ps us \<and> map rs_type ps = types \<and>
    resting (ticker_order_book e (unat (rq_tickerId r))) (priceToIndex (rq_price r)) = queue"
  have one: "?outcome (sort_key recv_time) [ACCEPTED, CANCELED] []"
    unfolding orders(1) using fair stable.std_sort_axioms by (intro exI conjI)
  have other: "?outcome (\<lambda>xs. sort_key recv_time (rev xs)) [CANCEL_REJECTED, ACCEPTED] [0]"
    unfolding orders(2) using unfair backwards_sort by (intro exI conjI)
  have a: "\<exists>srt. ?outcome srt [ACCEPTED, CANCELED] []" by (rule exI) (rule one)
  have b: "\<exists>srt. ?outcome srt [CANCEL_REJECTED, ACCEPTED] [0]" by (rule exI) (rule other)
  show ?thesis by (rule exI, rule exI, rule conjI [OF read conjI [OF a b]])
qed

theorem cancel_may_overtake_order_witness:
  "\<exists>sock' s' srt e ps us. recvCallback 5 77 (TCPSocket_ctor\<lparr>rcv_data := concat (map encode_OMClientRequest
      (numbered 1 [demo_request, demo_request\<lparr>rq_requestType := Request_CANCEL\<rparr>]))\<rparr>) demo_server = Inr (sock', s') \<and>
    std_sort srt \<and> foldR processClientRequest
      (lfq_list (sq_incoming_requests (fifo_sequencer (recvFinishedCallback srt s')))) demo_engine = Inr e \<and>
    engine_io e = io_after demo_io ps us \<and> map rs_type ps = [CANCEL_REJECTED, ACCEPTED] \<and>
    resting (ticker_order_book e 0) 100 = [0]"
proof -
  have r: "rq_requestType demo_request = Request_NEW" "rq_qty demo_request \<noteq> 0" "unat (rq_orderId demo_request) < ME_MAX_ORDER_IDS"
    "unat (rq_tickerId demo_request) < ME_MAX_TICKERS"
    "from_client 4 [demo_request, demo_request\<lparr>rq_requestType := Request_CANCEL\<rparr>]"
    by (simp_all add: demo_request_def from_client_def request_canonical_def limit_defs)
  have at: "unat (rq_tickerId demo_request) = 0" "priceToIndex (rq_price demo_request) = 100"
    by (simp_all add: demo_request_def priceToIndex_def limit_defs)
  have server: "clientId_socket demo_server 4 \<in> {None, Some 5}" "pending_client_requests (fifo_sequencer demo_server) = []"
    "lfq_inv (sq_incoming_requests (fifo_sequencer demo_server))" "lfq_list (sq_incoming_requests (fifo_sequencer demo_server)) = []"
    "store_count (sq_incoming_requests (fifo_sequencer demo_server)) + 2 < ring_size (sq_incoming_requests (fifo_sequencer demo_server))"
    "clientId_outgoing_seqNum demo_server 4 = 1"
    by (simp_all add: demo_server_def OrderServer_ctor_def FIFOSequencer_ctor_def)
  let ?sock = "TCPSocket_ctor\<lparr>rcv_data := concat (map encode_OMClientRequest
      (numbered 1 [demo_request, demo_request\<lparr>rq_requestType := Request_CANCEL\<rparr>]))\<rparr>"
  have "rcv_data ?sock = concat (map encode_OMClientRequest (numbered (clientId_outgoing_seqNum demo_server 4)
      [demo_request, demo_request\<lparr>rq_requestType := Request_CANCEL\<rparr>]))" by (simp add: server(6))
  from cancel_may_overtake_order [OF r this server(1-5), of 77 demo_queue demo_io] show ?thesis
    unfolding at demo_engine_def [symmetric] by (elim exE conjE) (rule exI conjI | assumption)+
qed

section \<open>Responses: exchange to client\<close>

lemma os_send_list:
  assumes "\<forall>r \<in> set rs. unat (rs_clientId r) = c" and "c < ME_MAX_NUM_CLIENTS"
    and "clientId_socket s c = Some socket"
    and "length (send_data (socks socket)) + 16 * length rs \<le> TCPBufferSize"
  shows "\<exists>s' socks'. foldR os_send_response rs (s, socks) = Inr (s', socks') \<and>
    length (send_data (socks' socket)) = length (send_data (socks socket)) + 16 * length rs"
  using assms
proof (induction rs arbitrary: s socks)
  case (Cons r rs)
  let ?s = "s\<lparr>clientId_outgoing_seqNum :=
      (clientId_outgoing_seqNum s)(c := clientId_outgoing_seqNum s c + 1)\<rparr>"
  let ?socks = "socks(socket := (socks socket)\<lparr>send_data := send_data (socks socket) @
      response_bytes (clientId_outgoing_seqNum s c) r\<rparr>)"
  have one: "os_send_response r (s, socks) = Inr (?s, ?socks)"
    using Cons.prems by (intro os_send_response_ok) simp_all
  have "\<exists>s' socks'. foldR os_send_response rs (?s, ?socks) = Inr (s', socks') \<and>
    length (send_data (socks' socket)) = length (send_data (?socks socket)) + 16 * length rs"
    by (rule Cons.IH) (use Cons.prems in simp_all)
  moreover have "length (send_data (?socks socket)) + 16 * length rs =
    length (send_data (socks socket)) + 16 * length (r # rs)" by simp
  ultimately show ?case unfolding foldR.simps one bindR_Inr by metis
qed simp



section \<open>Market data: exchange to client\<close>

lemma decode_numbered:
  assumes "\<forall>u \<in> set us. update_canonical u"
  shows "map decode_MDPMarketUpdate (frames sizeof_MDPMarketUpdate (update_stream (numbered_updates n us))) =
    numbered_updates n us"
proof -
  have "\<forall>m \<in> set (numbered_updates n us). update_canonical (mdp_update m)"
    using assms numbered_updates_map [of n us] by (metis image_eqI list.set_map)
  then show ?thesis
    using mdp_codec.decode_stream [of "numbered_updates n us" "[]"] by (simp add: update_stream_def sizeof_defs)
qed

lemma mdc_process_gap:
  assumes "om_inv (snapshot_queued s)" and "mdp_seq_num request \<noteq> next_update_seq_num s"
    and "mdc_process new_fd is_snapshot request s = Inr s'"
  shows "stuck s' (incoming_md_updates s)"
proof (cases "in_recovery_mode s")
  case True
  then show ?thesis using assms by (intro mdc_process_stuck [OF _ assms(3)]) (simp add: stuck_def)
next
  case False
  let ?s1 = "s\<lparr>in_recovery_mode := True\<rparr>"
  have "s' = queueMessage is_snapshot request ?s1"
    using assms(2,3) False by (simp add: mdc_process_def Let_def)
  moreover have "stuck ?s1 (incoming_md_updates s)" using assms(1) by (simp add: stuck_def)
  ultimately show ?thesis by (simp add: queueMessage_stuck)
qed



section \<open>A quote's first day\<close>

lemma spec_process_new:
  assumes "spec_process r B = Inr (B', rs, us)" and "rq_requestType r = Request_NEW"
  shows "\<exists>id. rs = [accepted_response (rq_clientId r) (rq_orderId r) (rq_tickerId r) (rq_side r)
    (rq_price r) (rq_qty r) id]"
  using assms by (auto simp: spec_process_def spec_add_def Let_def bindR_eq_Inr split: if_splits)

text \<open>
  C8. Put together without the two broken channels, client and exchange agree: the two orders a first
  move builds, processed by the matching engine, are accepted, and the responses bring both slots
  of the client to live orders with the client's numbers, prices and quantities.
\<close>

theorem quotes_come_alive:
  assumes m: "mgr_trade_engine m = Some c" "unat t < ME_MAX_TICKERS"
      "oo_state (the_slot m (unat t, 2)) \<in> {OM_INVALID, DEAD}"
      "oo_state (the_slot m (unat t, 0)) \<in> {OM_INVALID, DEAD}"
    and move: "moveOrders t bid ask qty m = Inr (m1, requests)"
    and e: "engine_inv e" "foldR processClientRequest requests e = Inr e'"
  shows "\<exists>rs us m2. engine_io e' = io_after (engine_io e) rs us \<and> foldR onOrderUpdate rs m1 = Inr m2 \<and>
    the_slot m2 (unat t, 2) = \<lparr>oo_ticker_id = t, oo_order_id = next_orderId m, oo_side = BUY,
      oo_price = bid, oo_qty = qty, oo_state = LIVE\<rparr> \<and>
    the_slot m2 (unat t, 0) = \<lparr>oo_ticker_id = t, oo_order_id = next_orderId m + 1, oo_side = SELL,
      oo_price = ask, oo_qty = qty, oo_state = LIVE\<rparr>"
proof -
  let ?buy = "\<lparr>rq_requestType = Request_NEW, rq_clientId = c, rq_tickerId = t, rq_orderId = next_orderId m,
    rq_price = bid, rq_qty = qty, rq_side = BUY\<rparr>"
  let ?sell = "\<lparr>rq_requestType = Request_NEW, rq_clientId = c, rq_tickerId = t,
    rq_orderId = next_orderId m + 1, rq_price = ask, rq_qty = qty, rq_side = SELL\<rparr>"
  have slots: "requests = [?buy, ?sell]"
    "the_slot m1 (unat t, 2) = \<lparr>oo_ticker_id = t, oo_order_id = next_orderId m, oo_side = BUY,
      oo_price = bid, oo_qty = qty, oo_state = PENDING_NEW\<rparr>"
    "the_slot m1 (unat t, 0) = \<lparr>oo_ticker_id = t, oo_order_id = next_orderId m + 1, oo_side = SELL,
      oo_price = ask, oo_qty = qty, oo_state = PENDING_NEW\<rparr>"
    using move m by (auto simp: moveOrders_eq moved_dead Let_def)
  obtain rs us where spec: "spec_requests [?buy, ?sell] (abs_engine e) = Inr (abs_engine e', rs, us)"
    and io: "engine_io e' = io_after (engine_io e) rs us"
    by (rule requests_run [OF e(1) e(2) [unfolded slots(1)]])
  obtain B1 rs1 us1 B2 rs2 us2 where buy: "spec_process ?buy (abs_engine e) = Inr (B1, rs1, us1)"
    and sell: "spec_process ?sell B1 = Inr (B2, rs2, us2)" and rs: "rs = rs1 @ rs2"
    using spec by (auto simp: bindR_eq_Inr)
  obtain id1 where "rs1 = [accepted_response c (next_orderId m) t BUY bid qty id1]"
    using spec_process_new [OF buy] by auto
  moreover obtain id2 where "rs2 = [accepted_response c (next_orderId m + 1) t SELL ask qty id2]"
    using spec_process_new [OF sell] by auto
  ultimately have "\<exists>m2. foldR onOrderUpdate rs m1 = Inr m2 \<and>
    the_slot m2 (unat t, 2) = \<lparr>oo_ticker_id = t, oo_order_id = next_orderId m, oo_side = BUY,
      oo_price = bid, oo_qty = qty, oo_state = LIVE\<rparr> \<and>
    the_slot m2 (unat t, 0) = \<lparr>oo_ticker_id = t, oo_order_id = next_orderId m + 1, oo_side = SELL,
      oo_price = ask, oo_qty = qty, oo_state = LIVE\<rparr>"
    using m(2) slots(2,3)
    by (simp add: rs onOrderUpdate_eq Let_def accepted_response_def after_response_def)
  then show ?thesis using io by blast
qed

theorem quotes_come_alive_witness:
  "\<exists>m1 requests e' rs us m2. moveOrders 3 100 102 5 (OrderManager_ctor (Some 4)) = Inr (m1, requests) \<and>
     foldR processClientRequest requests demo_engine = Inr e' \<and>
     engine_io e' = io_after (engine_io demo_engine) rs us \<and> foldR onOrderUpdate rs m1 = Inr m2 \<and>
     oo_state (the_slot m2 (3, 2)) = LIVE \<and> oo_state (the_slot m2 (3, 0)) = LIVE"
proof -
  let ?m = "OrderManager_ctor (Some 4)"
  have m: "mgr_trade_engine ?m = Some 4" "unat (3 :: TickerId) < ME_MAX_TICKERS"
    "oo_state (the_slot ?m (unat (3 :: TickerId), 2)) \<in> {OM_INVALID, DEAD}"
    "oo_state (the_slot ?m (unat (3 :: TickerId), 0)) \<in> {OM_INVALID, DEAD}"
    by (simp_all add: OrderManager_ctor_def the_slot_def OMOrder_default_def ME_MAX_TICKERS_def)
  obtain m1 requests where move: "moveOrders 3 100 102 5 ?m = Inr (m1, requests)"
    and reqs: "requests = [\<lparr>rq_requestType = Request_NEW, rq_clientId = 4, rq_tickerId = 3, rq_orderId = 1,
      rq_price = 100, rq_qty = 5, rq_side = BUY\<rparr>, \<lparr>rq_requestType = Request_NEW, rq_clientId = 4,
      rq_tickerId = 3, rq_orderId = 2, rq_price = 102, rq_qty = 5, rq_side = SELL\<rparr>]"
    using m by (simp add: moveOrders_eq moved_dead Let_def OrderManager_ctor_def)
  obtain B rs us where "spec_requests requests (abs_engine demo_engine) = Inr (B, rs, us)"
    unfolding reqs by (simp add: demo_engine_def abs_engine_ctor spec_defs limit_defs priceToIndex_def)
  then obtain e' where e': "foldR processClientRequest requests demo_engine = Inr e'"
    using requests_implement [OF demo_facts(1), of requests] by (auto simp: engine_implements_def)
  show ?thesis
    using quotes_come_alive [OF m move demo_facts(1) e'] move e' by fastforce
qed

section \<open>The book the market sees\<close>

text \<open>
  C4. From the clients' bytes to the clients' books: in every run of the exchange in which the kernel
  refuses no datagram, once all updates are published, whoever decodes what was multicast and builds
  the book of an instrument from it gets, at every price index, one ring with the orders that rest
  there in the matching engine's book, in its order of priority, besides those since cancelled; and
  exactly those when no client has cancelled anything.
\<close>

theorem market_sees_the_book:
  assumes srt: "std_sort srt" and start: "exchange_main new_fd = Inr x0"
    and run: "exchange_run srt (x0\<lparr>tcp_server := sv\<rparr>) evs x"
    and sent: "list_all ev_accepted evs" and published: "lfq_list (market_updates x) = []"
    and read: "us = map mdp_update (map decode_MDPMarketUpdate (frames sizeof_MDPMarketUpdate (concat (on_wire evs))))"
  shows "\<exists>b. market_book_run t (ticker_updates t us) = Inr b \<and>
    (\<forall>i. \<exists>ks. client_level b i ks \<and>
      subseq (resting_views (ticker_order_book (matching_engine x) (unat t)) i) (client_views b ks) \<and>
      (only_new (sequenced evs) \<longrightarrow>
        resting_views (ticker_order_book (matching_engine x) (unat t)) i = client_views b ks))"
proof -
  have inv: "run_inv (x0\<lparr>tcp_server := sv\<rparr>) evs x" by (rule run_inv_run [OF srt idle_exchange_main [OF start] run])
  obtain io where x0: "matching_engine x0 = MatchingEngine_ctor (client_requests x0) io"
    using exchange_main_fields(6) [OF start] by blast
  obtain processed ps where seq: "sequenced evs = processed @ lfq_list (client_requests x)"
    and spec: "spec_requests processed (abs_engine (MatchingEngine_ctor (client_requests x0) io)) =
      Inr (abs_engine (matching_engine x), ps, multicast_so_far evs)"
    using inv published x0 by (auto simp: run_inv_def books_follow_def)
  have "\<forall>r \<in> set processed. request_canonical r" using inv seq by (simp add: run_inv_def)
  then have "\<forall>u \<in> set (multicast_so_far evs). update_canonical u" by (rule new_updates_canonical [OF spec])
  moreover have "concat (on_wire evs) = update_stream (numbered_updates 1 (multicast_so_far evs))"
    using wire_run [OF srt idle_exchange_main [OF start] run] exchange_main_fields(8) [OF start] sent
    by (simp add: Let_def)
  ultimately have "us = multicast_so_far evs" unfolding read by (simp only: decode_numbered numbered_updates_map)
  moreover have "only_new (sequenced evs) \<Longrightarrow> only_new processed" by (simp add: seq only_new_def)
  ultimately show ?thesis using new_books_agree [OF spec, of t] unfolding books_agree_def by meson
qed

theorem market_sees_the_book_witness:
  "\<exists>x0 x sv sent b. exchange_run (sort_key recv_time) (x0\<lparr>tcp_server := sv\<rparr>)
      [Served [demo_request] [], Matched, Published [add_update 1 0 BUY 100 5 1] sent] x \<and>
    market_book_run 0 (ticker_updates 0 (map mdp_update (map decode_MDPMarketUpdate
      (frames sizeof_MDPMarketUpdate (concat sent))))) = Inr b \<and>
    (\<forall>i. \<exists>ks. client_level b i ks \<and>
      resting_views (ticker_order_book (matching_engine x) 0) i = client_views b ks)"
proof -
  obtain x0 x sv sent where start: "exchange_main 3 = Inr x0" and sent: "sent \<noteq> []"
    and run: "exchange_run (sort_key recv_time) (x0\<lparr>tcp_server := sv\<rparr>)
      [Served [demo_request] [], Matched, Published [add_update 1 0 BUY 100 5 1] sent] x"
    and empty: "lfq_list (market_updates x) = []"
    using three_turns by blast
  let ?evs = "[Served [demo_request] [], Matched, Published [add_update 1 0 BUY 100 5 1] sent]"
  have "list_all ev_accepted ?evs" "only_new (sequenced ?evs)" "concat (on_wire ?evs) = concat sent"
    using sent by (simp_all add: only_new_def demo_request_def on_wire_def)
  then show ?thesis
    using market_sees_the_book [OF stable.std_sort_axioms start run _ empty refl, of 0] run by fastforce
qed

section \<open>Cancellations and the snapshot\<close>



end
